(* ===== verification/ZqPrelude.thy ===== *)
theory ZqPrelude
  imports Main "HOL-Library.Word" "HOL-Library.Monad_Syntax"
begin

text \<open>
  Shared vocabulary of the development.

  \<^item> \<open>size_t\<close> is the repository's \<open>SizeType\<close> (Base/Types.hpp: an unsigned 64-bit integer), so
    sizes and indexes wrap around as they do in the code.
  \<^item> A pointer is \<open>ptr\<close>: \<open>None\<close> is \<open>nullptr\<close>, \<open>Some a\<close> an address.
  \<^item> A \<open>heap\<close> holds the objects created with \<open>new\<close> that were not deleted yet. \<open>new\<close> takes the
    next address that was never used, so an address that was deleted stays invalid.
  \<^item> An operation returns an \<open>option\<close>: \<open>None\<close> means that the C++ program has undefined behaviour
    (it dereferences a null or dangling pointer, or reads out of bounds) or does not return.
  \<^item> \<open>ZQ_ASSERT\<close> logs a message and goes on (Base/Checks.hpp), so it has no effect on the
    values modelled here.
\<close>

named_theorems heap_simps "reading and writing the cells of a heap"

type_synonym size_t = "64 word"
type_synonym byte = "8 word"
type_synonym ptr = "nat option"

abbreviation nullptr :: ptr where
  "nullptr \<equiv> None"

subsection \<open>The option monad\<close>

lemma bind_Some_iff: "(Option.bind m f = Some y) \<longleftrightarrow> (\<exists>x. m = Some x \<and> f x = Some y)"
  by (cases m) auto

lemma bind_None_iff: "(Option.bind m f = None) \<longleftrightarrow> (m = None \<or> (\<exists>x. m = Some x \<and> f x = None))"
  by (cases m) auto

subsection \<open>The heap\<close>

record 'n heap =
  cells :: "nat \<Rightarrow> 'n option"
  brk :: nat

definition empty_heap :: "'n heap" where
  "empty_heap = \<lparr>cells = (\<lambda>_. None), brk = 0\<rparr>"

definition heap_ok :: "'n heap \<Rightarrow> bool" where
  "heap_ok h \<longleftrightarrow> (\<forall>a. cells h a \<noteq> None \<longrightarrow> a < brk h)"

definition new :: "'n heap \<Rightarrow> 'n \<Rightarrow> nat \<times> 'n heap" where
  "new h n = (brk h, \<lparr>cells = (cells h)(brk h := Some n), brk = Suc (brk h)\<rparr>)"

definition load :: "'n heap \<Rightarrow> ptr \<Rightarrow> 'n option" where
  "load h p = Option.bind p (cells h)"

definition modify :: "'n heap \<Rightarrow> ptr \<Rightarrow> ('n \<Rightarrow> 'n) \<Rightarrow> 'n heap option" where
  "modify h p f =
     Option.bind p (\<lambda>a. Option.bind (cells h a) (\<lambda>n. Some (h\<lparr>cells := (cells h)(a \<mapsto> f n)\<rparr>)))"

definition free :: "'n heap \<Rightarrow> ptr \<Rightarrow> 'n heap option" where
  "free h p =
     Option.bind p (\<lambda>a. Option.bind (cells h a) (\<lambda>_. Some (h\<lparr>cells := (cells h)(a := None)\<rparr>)))"

lemma load_null [simp]: "load h None = None"
  by (simp add: load_def)

lemma load_Some [simp]: "load h (Some a) = cells h a"
  by (simp add: load_def)

lemma modify_null [simp]: "modify h None f = None"
  by (simp add: modify_def)

lemma modify_Some: "cells h a = Some n \<Longrightarrow> modify h (Some a) f = Some (h\<lparr>cells := (cells h)(a \<mapsto> f n)\<rparr>)"
  by (simp add: modify_def)

lemma modify_dangling [simp]: "cells h a = None \<Longrightarrow> modify h (Some a) f = None"
  by (simp add: modify_def)

lemma free_null [simp]: "free h None = None"
  by (simp add: free_def)

lemma free_Some: "cells h a = Some n \<Longrightarrow> free h (Some a) = Some (h\<lparr>cells := (cells h)(a := None)\<rparr>)"
  by (simp add: free_def)

lemma free_dangling [simp]: "cells h a = None \<Longrightarrow> free h (Some a) = None"
  by (simp add: free_def)

lemmas [heap_simps] = modify_Some free_Some new_def

lemma heap_ok_empty [simp]: "heap_ok empty_heap"
  by (simp add: heap_ok_def empty_heap_def)

lemma heap_ok_brk: "heap_ok h \<Longrightarrow> cells h (brk h) = None"
  by (auto simp: heap_ok_def)

lemma heap_ok_less: "heap_ok h \<Longrightarrow> cells h a = Some n \<Longrightarrow> a < brk h"
  by (auto simp: heap_ok_def)

lemma heap_ok_new: "heap_ok h \<Longrightarrow> heap_ok \<lparr>cells = (cells h)(brk h := Some n), brk = Suc (brk h)\<rparr>"
  by (auto simp: heap_ok_def less_Suc_eq)

lemma heap_ok_upd: "heap_ok h \<Longrightarrow> cells h a \<noteq> None \<Longrightarrow> heap_ok (h\<lparr>cells := (cells h)(a := x)\<rparr>)"
  by (auto simp: heap_ok_def)

subsection \<open>Words\<close>

lemma unat_of_nat_small: "n < 2 ^ 64 \<Longrightarrow> unat (of_nat n :: size_t) = n"
  by (simp add: unat_of_nat take_bit_nat_eq_self)

lemma unat_less_2p64: "unat (w :: size_t) < 2 ^ 64"
  using unsigned_less [of w, where ?'a = nat] by simp

lemma eq_of_nat_unat: "unat (w :: size_t) = n \<Longrightarrow> w = of_nat n"
  by auto

lemma unat_neg_of_nat:
  assumes "0 < n" and "n < 2 ^ 64"
  shows "unat (- of_nat n :: size_t) = 2 ^ 64 - n"
proof -
  have "(of_nat (2 ^ 64 - n) :: size_t) = of_nat (2 ^ 64) - of_nat n" using assms(2) by (intro of_nat_diff) simp
  then have "- of_nat n = (of_nat (2 ^ 64 - n) :: size_t)" by simp
  then show ?thesis using assms by (simp only: unat_of_nat_small)
qed

subsection \<open>Lists\<close>

lemma map_of_append_filter: "map_of (xs @ ys) k = (case map_of xs k of None \<Rightarrow> map_of ys k | Some v \<Rightarrow> Some v)"
  by (simp add: map_add_def split: option.splits)

lemma filter_id_iff: "filter P xs = xs \<longleftrightarrow> (\<forall>x \<in> set xs. P x)"
  by (auto simp: filter_id_conv)

end
