(* ===== verification/LinkedLists.thy ===== *)
theory LinkedLists
  imports ZqPrelude
begin

text \<open>
  Base/LinkedList.hpp: the doubly linked list. A node is a \<open>DoubleLinkedListNode\<close> on the heap, an
  iterator is the node pointer it wraps (\<open>_IteratorBase::mCurrent\<close>), and the list object is the
  record of its three members. Every operation takes the heap and the list object and returns
  them updated, with the iterator it returns where it has one.
\<close>

section \<open>The list object and its nodes\<close>

record 'a dll_node =
  nd_data :: 'a
  nd_previous :: ptr
  nd_next :: ptr

type_synonym 'a dll_heap = "'a dll_node heap"

record linked_list =
  mBegin :: ptr
  mBeforeEnd :: ptr
  mSize :: size_t

definition ll_cend :: ptr where
  "ll_cend = nullptr"

definition ll_empty :: linked_list where
  "ll_empty = \<lparr>mBegin = nullptr, mBeforeEnd = nullptr, mSize = 0\<rparr>"

text \<open>Iterators: dereference, \<open>++\<close>, \<open>--\<close>, and the writes through \<open>operator*\<close>.\<close>

definition it_deref :: "'a dll_heap \<Rightarrow> ptr \<Rightarrow> 'a option" where
  "it_deref h p = map_option nd_data (load h p)"

definition it_next :: "'a dll_heap \<Rightarrow> ptr \<Rightarrow> ptr option" where
  "it_next h p = map_option nd_next (load h p)"

definition it_previous :: "'a dll_heap \<Rightarrow> ptr \<Rightarrow> ptr option" where
  "it_previous h p = map_option nd_previous (load h p)"

definition it_assign :: "'a dll_heap \<Rightarrow> ptr \<Rightarrow> 'a \<Rightarrow> 'a dll_heap option" where
  "it_assign h p v = modify h p (\<lambda>n. n\<lparr>nd_data := v\<rparr>)"

section \<open>Operations\<close>

text \<open>\<open>if (p) p->field = v\<close>: the guarded pointer writes of the insertions.\<close>

definition modify_if :: "'n heap \<Rightarrow> ptr \<Rightarrow> ('n \<Rightarrow> 'n) \<Rightarrow> 'n heap option" where
  "modify_if h p f = (if p = nullptr then Some h else modify h p f)"

definition ll_emplace_after ::
  "ptr \<Rightarrow> 'a \<Rightarrow> 'a dll_heap \<Rightarrow> linked_list \<Rightarrow> (ptr \<times> 'a dll_heap \<times> linked_list) option" where
  "ll_emplace_after where_it v h l = do {
     (node, h1, l1) \<leftarrow>
       (if where_it = ll_cend then
          let (a, h1) = new h \<lparr>nd_data = v, nd_previous = nullptr, nd_next = nullptr\<rparr>
          in Some (a, h1, l\<lparr>mBegin := Some a\<rparr>)
        else do {
          w \<leftarrow> load h where_it;
          let (a, h1) = new h \<lparr>nd_data = v, nd_previous = where_it, nd_next = nd_next w\<rparr>;
          nxt \<leftarrow> it_next h1 where_it;
          h2 \<leftarrow> modify_if h1 nxt (\<lambda>n. n\<lparr>nd_previous := Some a\<rparr>);
          h3 \<leftarrow> modify h2 where_it (\<lambda>n. n\<lparr>nd_next := Some a\<rparr>);
          Some (a, h3, l)
        });
     let l2 = l1\<lparr>mSize := mSize l1 + 1\<rparr>;
     (if where_it = mBeforeEnd l2 then Some (Some node, h1, l2\<lparr>mBeforeEnd := Some node\<rparr>)
      else Some (Some node, h1, l2))
   }"

definition ll_emplace_before ::
  "ptr \<Rightarrow> 'a \<Rightarrow> 'a dll_heap \<Rightarrow> linked_list \<Rightarrow> (ptr \<times> 'a dll_heap \<times> linked_list) option" where
  "ll_emplace_before where_it v h l =
     (if where_it = ll_cend then ll_emplace_after (mBeforeEnd l) v h l
      else do {
        w \<leftarrow> load h where_it;
        let (a, h1) = new h \<lparr>nd_data = v, nd_previous = nd_previous w, nd_next = where_it\<rparr>;
        prv \<leftarrow> it_previous h1 where_it;
        h2 \<leftarrow> modify_if h1 prv (\<lambda>n. n\<lparr>nd_next := Some a\<rparr>);
        h3 \<leftarrow> modify h2 where_it (\<lambda>n. n\<lparr>nd_previous := Some a\<rparr>);
        let l1 = l\<lparr>mSize := mSize l + 1\<rparr>;
        (if mBegin l1 = where_it then Some (Some a, h3, l1\<lparr>mBegin := Some a\<rparr>)
         else Some (Some a, h3, l1))
      })"

definition ll_emplace_back ::
  "'a \<Rightarrow> 'a dll_heap \<Rightarrow> linked_list \<Rightarrow> (ptr \<times> 'a dll_heap \<times> linked_list) option" where
  "ll_emplace_back v h l = ll_emplace_after (mBeforeEnd l) v h l"

definition ll_emplace_front ::
  "'a \<Rightarrow> 'a dll_heap \<Rightarrow> linked_list \<Rightarrow> (ptr \<times> 'a dll_heap \<times> linked_list) option" where
  "ll_emplace_front v h l = ll_emplace_before (mBegin l) v h l"

text \<open>
  \<open>erase (iterator)\<close>. The two comparisons after the \<open>delete\<close> compare pointers only. When the
  last element is erased the operation returns \<open>mBeforeEnd\<close>, the new last element.
\<close>

definition ll_erase ::
  "ptr \<Rightarrow> 'a dll_heap \<Rightarrow> linked_list \<Rightarrow> (ptr \<times> 'a dll_heap \<times> linked_list) option" where
  "ll_erase it h l = do {
     n \<leftarrow> load h it;
     let nxt = nd_next n;
     let prv = nd_previous n;
     h1 \<leftarrow> modify_if h nxt (\<lambda>m. m\<lparr>nd_previous := prv\<rparr>);
     h2 \<leftarrow> modify_if h1 prv (\<lambda>m. m\<lparr>nd_next := nxt\<rparr>);
     h3 \<leftarrow> free h2 it;
     let l1 = l\<lparr>mSize := mSize l - 1\<rparr>;
     let l2 = (if it = mBegin l1 then l1\<lparr>mBegin := nxt\<rparr> else l1);
     (if it = mBeforeEnd l2 then Some (prv, h3, l2\<lparr>mBeforeEnd := prv\<rparr>)
      else Some (nxt, h3, l2))
   }"

text \<open>\<open>erase (begin, end)\<close>: the loop that deletes the nodes, then the relinking.\<close>

partial_function (option) ll_erase_loop ::
  "ptr \<Rightarrow> ptr \<Rightarrow> linked_list \<Rightarrow> 'a dll_heap \<Rightarrow> size_t \<Rightarrow> bool \<Rightarrow> bool
     \<Rightarrow> ('a dll_heap \<times> size_t \<times> bool \<times> bool) option" where
  "ll_erase_loop it stop l h sz isBegin isBeforeEnd = do {
     n \<leftarrow> load h it;
     h1 \<leftarrow> free h it;
     (if nd_next n = stop
      then Some (h1, sz - 1, isBegin \<or> it = mBegin l, isBeforeEnd \<or> it = mBeforeEnd l)
      else ll_erase_loop (nd_next n) stop l h1 (sz - 1)
             (isBegin \<or> it = mBegin l) (isBeforeEnd \<or> it = mBeforeEnd l))
   }"

definition ll_erase_range ::
  "ptr \<Rightarrow> ptr \<Rightarrow> 'a dll_heap \<Rightarrow> linked_list \<Rightarrow> ('a dll_heap \<times> linked_list) option" where
  "ll_erase_range first stop h l =
     (if first = stop then Some (h, l)
      else do {
        saved \<leftarrow> it_previous h first;
        (h1, sz, isBegin, isBeforeEnd) \<leftarrow> ll_erase_loop first stop l h (mSize l) False False;
        h2 \<leftarrow> (if saved = nullptr then Some h1
               else do {
                 h2 \<leftarrow> modify h1 saved (\<lambda>n. n\<lparr>nd_next := stop\<rparr>);
                 modify h2 stop (\<lambda>n. n\<lparr>nd_previous := saved\<rparr>)
               });
        let l1 = l\<lparr>mSize := sz\<rparr>;
        let l2 = (if isBegin then l1\<lparr>mBegin := stop\<rparr> else l1);
        Some (h2, (if isBeforeEnd then l2\<lparr>mBeforeEnd := stop\<rparr> else l2))
      })"

definition ll_isEmpty :: "linked_list \<Rightarrow> bool" where
  "ll_isEmpty l \<longleftrightarrow> mBegin l = ll_cend"

definition ll_clear :: "'a dll_heap \<Rightarrow> linked_list \<Rightarrow> ('a dll_heap \<times> linked_list) option" where
  "ll_clear h l = (if ll_isEmpty l then Some (h, l) else ll_erase_range (mBegin l) ll_cend h l)"

definition ll_pop_back :: "'a dll_heap \<Rightarrow> linked_list \<Rightarrow> ('a dll_heap \<times> linked_list) option" where
  "ll_pop_back h l = map_option snd (ll_erase (mBeforeEnd l) h l)"

definition ll_pop_front :: "'a dll_heap \<Rightarrow> linked_list \<Rightarrow> ('a dll_heap \<times> linked_list) option" where
  "ll_pop_front h l = map_option snd (ll_erase (mBegin l) h l)"

definition ll_front :: "'a dll_heap \<Rightarrow> linked_list \<Rightarrow> 'a option" where
  "ll_front h l = it_deref h (mBegin l)"

definition ll_back :: "'a dll_heap \<Rightarrow> linked_list \<Rightarrow> 'a option" where
  "ll_back h l = it_deref h (mBeforeEnd l)"

definition ll_swap :: "linked_list \<Rightarrow> linked_list \<Rightarrow> linked_list \<times> linked_list" where
  "ll_swap self other =
     (\<lparr>mBegin = mBegin other, mBeforeEnd = mBeforeEnd other, mSize = mSize other\<rparr>,
      \<lparr>mBegin = mBegin self, mBeforeEnd = mBeforeEnd self, mSize = mSize self\<rparr>)"

text \<open>
  The move constructor swaps with members of which only the two iterators were initialised:
  \<open>garbage\<close> is the indeterminate \<open>mSize\<close>. The move assignment swaps with the target.
\<close>

definition ll_move_construct :: "size_t \<Rightarrow> linked_list \<Rightarrow> linked_list \<times> linked_list" where
  "ll_move_construct garbage other =
     ll_swap \<lparr>mBegin = nullptr, mBeforeEnd = nullptr, mSize = garbage\<rparr> other"

definition ll_move_assign :: "linked_list \<Rightarrow> linked_list \<Rightarrow> linked_list \<times> linked_list" where
  "ll_move_assign self other = ll_swap self other"

text \<open>
  The range insertions. The input range is a pair of iterators of a list on the same heap, as
  in the copy constructor and the copy assignment.
\<close>

partial_function (option) ll_insertAfter_loop ::
  "ptr \<Rightarrow> ptr \<Rightarrow> ptr \<Rightarrow> 'a dll_heap \<Rightarrow> size_t \<Rightarrow> (ptr \<times> 'a dll_heap \<times> size_t) option" where
  "ll_insertAfter_loop self it stop h sz =
     (if it = stop then Some (self, h, sz)
      else do {
        v \<leftarrow> it_deref h it;
        let (a, h1) = new h \<lparr>nd_data = v, nd_previous = self, nd_next = nullptr\<rparr>;
        h2 \<leftarrow> modify h1 self (\<lambda>n. n\<lparr>nd_next := Some a\<rparr>);
        self' \<leftarrow> it_next h2 self;
        it' \<leftarrow> it_next h2 it;
        ll_insertAfter_loop self' it' stop h2 (sz + 1)
      })"

definition ll_insertAfter ::
  "ptr \<Rightarrow> ptr \<Rightarrow> ptr \<Rightarrow> 'a dll_heap \<Rightarrow> linked_list \<Rightarrow> ('a dll_heap \<times> linked_list) option" where
  "ll_insertAfter where_it first stop h l = do {
     previousNext \<leftarrow> it_next h where_it;
     let isBeforeEndUpdated = (where_it = mBeforeEnd l);
     (self, h1, sz) \<leftarrow> ll_insertAfter_loop where_it first stop h (mSize l);
     h2 \<leftarrow> modify h1 self (\<lambda>n. n\<lparr>nd_next := previousNext\<rparr>);
     h3 \<leftarrow> modify_if h2 previousNext (\<lambda>n. n\<lparr>nd_previous := self\<rparr>);
     let l1 = l\<lparr>mSize := sz\<rparr>;
     Some (h3, (if isBeforeEndUpdated then l1\<lparr>mBeforeEnd := self\<rparr> else l1))
   }"

definition ll_insert ::
  "ptr \<Rightarrow> ptr \<Rightarrow> ptr \<Rightarrow> 'a dll_heap \<Rightarrow> linked_list \<Rightarrow> ('a dll_heap \<times> linked_list) option" where
  "ll_insert where_it first stop h l =
     (if first = stop then Some (h, l)
      else do {
        v \<leftarrow> it_deref h first;
        (newWhere, h1, l1) \<leftarrow> ll_emplace_before where_it v h l;
        it \<leftarrow> it_next h1 first;
        (if it \<noteq> stop then ll_insertAfter newWhere it stop h1 l1 else Some (h1, l1))
      })"

text \<open>The copy constructor and the copy assignment (\<open>aliased\<close>: the two objects are the same).\<close>

definition ll_copy :: "'a dll_heap \<Rightarrow> linked_list \<Rightarrow> ('a dll_heap \<times> linked_list) option" where
  "ll_copy h other = ll_insert (mBegin ll_empty) (mBegin other) ll_cend h ll_empty"

definition ll_assign ::
  "bool \<Rightarrow> 'a dll_heap \<Rightarrow> linked_list \<Rightarrow> linked_list \<Rightarrow> ('a dll_heap \<times> linked_list) option" where
  "ll_assign aliased h self other = do {
     (h1, self1) \<leftarrow> ll_clear h self;
     let other1 = (if aliased then self1 else other);
     ll_insert ll_cend (mBegin other1) ll_cend h1 self1
   }"

section \<open>Chains of nodes\<close>

text \<open>
  \<open>chain m p es n\<close>: the entries \<open>es\<close> (address and data) are linked in both directions in the
  memory \<open>m\<close>, the first one's \<open>previous\<close> is \<open>p\<close> and the last one's \<open>next\<close> is \<open>n\<close>.
\<close>

definition first_ptr :: "(nat \<times> 'a) list \<Rightarrow> ptr \<Rightarrow> ptr" where
  "first_ptr es p = (case es of [] \<Rightarrow> p | e # _ \<Rightarrow> Some (fst e))"

definition last_ptr :: "(nat \<times> 'a) list \<Rightarrow> ptr \<Rightarrow> ptr" where
  "last_ptr es p = (if es = [] then p else Some (fst (last es)))"

fun chain :: "(nat \<Rightarrow> 'a dll_node option) \<Rightarrow> ptr \<Rightarrow> (nat \<times> 'a) list \<Rightarrow> ptr \<Rightarrow> bool" where
  "chain m p [] n \<longleftrightarrow> True"
| "chain m p ((a, v) # es) n \<longleftrightarrow>
     m a = Some \<lparr>nd_data = v, nd_previous = p, nd_next = first_ptr es n\<rparr> \<and> chain m (Some a) es n"

lemma first_ptr_simps [simp]:
  "first_ptr [] p = p" "first_ptr (e # es) p = Some (fst e)"
  by (simp_all add: first_ptr_def)

lemma last_ptr_simps [simp]:
  "last_ptr [] p = p" "last_ptr (es @ [e]) p = Some (fst e)" "last_ptr (e # es) p = last_ptr es (Some (fst e))"
  by (simp_all add: last_ptr_def)

lemma first_ptr_append [simp]: "first_ptr (xs @ ys) p = first_ptr xs (first_ptr ys p)"
  by (cases xs) simp_all

lemma last_ptr_append [simp]: "last_ptr (xs @ ys) p = last_ptr ys (last_ptr xs p)"
  by (auto simp: last_ptr_def)

lemma first_ptr_eq_None [simp]: "first_ptr es None = None \<longleftrightarrow> es = []"
  by (cases es) simp_all

lemma last_ptr_eq_None [simp]: "last_ptr es None = None \<longleftrightarrow> es = []"
  by (simp add: last_ptr_def)

lemma last_ptr_in: "last_ptr es p = Some a \<Longrightarrow> es \<noteq> [] \<Longrightarrow> a \<in> fst ` set es"
  by (auto simp: last_ptr_def split: if_splits)

lemma first_ptr_in: "first_ptr es p = Some a \<Longrightarrow> es \<noteq> [] \<Longrightarrow> a \<in> fst ` set es"
  by (cases es) auto

lemma chain_append [simp]:
  "chain m p (xs @ ys) n \<longleftrightarrow> chain m p xs (first_ptr ys n) \<and> chain m (last_ptr xs p) ys n"
proof (induction xs arbitrary: p)
  case (Cons e xs)
  then show ?case by (cases e) (simp add: conj_assoc)
qed simp

lemma chain_cong:
  "(\<And>a. a \<in> fst ` set es \<Longrightarrow> m' a = m a) \<Longrightarrow> chain m' p es n = chain m p es n"
  by (induction es arbitrary: p) (auto split: prod.splits)

lemma chain_upd [simp]: "a \<notin> fst ` set es \<Longrightarrow> chain (m(a := x)) p es n = chain m p es n"
  by (rule chain_cong) auto

lemma chain_in: "chain m p es n \<Longrightarrow> a \<in> fst ` set es \<Longrightarrow> m a \<noteq> None"
proof (induction es arbitrary: p)
  case (Cons e es)
  then show ?case by (cases e) auto
qed simp

lemma chain_fresh: "heap_ok h \<Longrightarrow> chain (cells h) p es n \<Longrightarrow> brk h \<notin> fst ` set es"
  using heap_ok_brk chain_in by metis

text \<open>Redirecting the first node's \<open>previous\<close> and the last node's \<open>next\<close>.\<close>

definition relinked :: "'n heap \<Rightarrow> nat set \<Rightarrow> 'n heap \<Rightarrow> bool" where
  "relinked h A h' \<longleftrightarrow> brk h' = brk h \<and> (\<forall>a. a \<notin> A \<longrightarrow> cells h' a = cells h a)
     \<and> (\<forall>a. (cells h' a = None) = (cells h a = None))"

lemma relinked_heap_ok: "relinked h A h' \<Longrightarrow> heap_ok h \<Longrightarrow> heap_ok h'"
  by (auto simp: relinked_def heap_ok_def)

lemma set_first_previous:
  assumes "chain (cells h) p es None" and "distinct (map fst es)"
  shows "\<exists>h'. modify_if h (first_ptr es None) (\<lambda>m. m\<lparr>nd_previous := q\<rparr>) = Some h'
           \<and> chain (cells h') q es None \<and> relinked h (fst ` set es) h'"
  using assms
  by (cases es) (auto simp: modify_if_def modify_Some relinked_def image_iff)

lemma set_last_next:
  assumes "chain (cells h) None es n" and "distinct (map fst es)"
  shows "\<exists>h'. modify_if h (last_ptr es None) (\<lambda>m. m\<lparr>nd_next := q\<rparr>) = Some h'
           \<and> chain (cells h') None es q \<and> relinked h (fst ` set es) h'"
proof (cases es rule: rev_cases)
  case Nil
  then show ?thesis by (auto simp: modify_if_def relinked_def)
next
  case (snoc ys e)
  obtain a v where "e = (a, v)" by (cases e)
  with snoc assms show ?thesis
    by (auto simp: modify_if_def modify_Some relinked_def)
qed

section \<open>The abstract list\<close>

text \<open>
  \<open>ll_repr h l es\<close>: the list object \<open>l\<close> holds the entries \<open>es\<close>, in this order; the values of the
  container are \<open>map snd es\<close> and its valid iterators the addresses \<open>map fst es\<close> and \<open>nullptr\<close>.
\<close>

definition ll_repr :: "'a dll_heap \<Rightarrow> linked_list \<Rightarrow> (nat \<times> 'a) list \<Rightarrow> bool" where
  "ll_repr h l es \<longleftrightarrow> heap_ok h \<and> chain (cells h) None es None \<and> distinct (map fst es)
     \<and> mBegin l = first_ptr es None \<and> mBeforeEnd l = last_ptr es None
     \<and> mSize l = of_nat (length es)"

lemma ll_repr_heap_ok: "ll_repr h l es \<Longrightarrow> heap_ok h"
  by (simp add: ll_repr_def)

lemma ll_repr_distinct: "ll_repr h l es \<Longrightarrow> distinct (map fst es)"
  by (simp add: ll_repr_def)

lemma ll_repr_begin: "ll_repr h l es \<Longrightarrow> mBegin l = first_ptr es None"
  by (simp add: ll_repr_def)

lemma ll_repr_beforeEnd: "ll_repr h l es \<Longrightarrow> mBeforeEnd l = last_ptr es None"
  by (simp add: ll_repr_def)

lemma ll_repr_size: "ll_repr h l es \<Longrightarrow> mSize l = of_nat (length es)"
  by (simp add: ll_repr_def)

lemma ll_repr_fresh: "ll_repr h l es \<Longrightarrow> brk h \<notin> fst ` set es"
  unfolding ll_repr_def by (blast dest: chain_fresh)

lemma ll_repr_empty [simp]: "heap_ok h \<Longrightarrow> ll_repr h ll_empty []"
  by (simp add: ll_repr_def ll_empty_def)

lemma ll_repr_load:
  "ll_repr h l (xs @ (a, v) # ys) \<Longrightarrow>
     cells h a = Some \<lparr>nd_data = v, nd_previous = last_ptr xs None, nd_next = first_ptr ys None\<rparr>"
  by (simp add: ll_repr_def)

lemma ll_repr_deref: "ll_repr h l es \<Longrightarrow> (a, v) \<in> set es \<Longrightarrow> it_deref h (Some a) = Some v"
  by (auto dest!: split_list ll_repr_load simp: it_deref_def)

lemma ll_repr_next: "ll_repr h l (xs @ (a, v) # ys) \<Longrightarrow> it_next h (Some a) = Some (first_ptr ys None)"
  by (drule ll_repr_load) (simp add: it_next_def)

lemma first_ptr_first_iff: "a \<notin> fst ` set xs \<Longrightarrow> first_ptr xs (Some a) = Some a \<longleftrightarrow> xs = []"
  by (cases xs) auto

lemma last_ptr_last_iff: "a \<notin> fst ` set ys \<Longrightarrow> last_ptr ys (Some a) = Some a \<longleftrightarrow> ys = []"
  by (auto dest: last_ptr_in)

lemma ll_repr_begin_iff:
  assumes "ll_repr h l (xs @ (a, u) # ys)"
  shows "mBegin l = Some a \<longleftrightarrow> xs = []" and "mBeforeEnd l = Some a \<longleftrightarrow> ys = []"
proof -
  have d: "a \<notin> fst ` set xs" "a \<notin> fst ` set ys"
    using ll_repr_distinct [OF assms] by auto
  show "mBegin l = Some a \<longleftrightarrow> xs = []" and "mBeforeEnd l = Some a \<longleftrightarrow> ys = []"
    using ll_repr_begin [OF assms] ll_repr_beforeEnd [OF assms]
    by (simp_all add: first_ptr_first_iff [OF d(1)] last_ptr_last_iff [OF d(2)])
qed

section \<open>Insertion\<close>

text \<open>What an insertion of \<open>v\<close> does to the memory: one new node, the others only relinked.\<close>

definition inserted :: "'a dll_heap \<Rightarrow> nat set \<Rightarrow> 'a dll_heap \<Rightarrow> bool" where
  "inserted h A h' \<longleftrightarrow> brk h' = Suc (brk h)
     \<and> (\<forall>a. a \<notin> insert (brk h) A \<longrightarrow> cells h' a = cells h a)"

lemma ll_emplace_after_node:
  assumes r: "ll_repr h l (xs @ (a, u) # ys)"
  shows "\<exists>h' l'. ll_emplace_after (Some a) v h l = Some (Some (brk h), h', l')
           \<and> ll_repr h' l' (xs @ (a, u) # (brk h, v) # ys)
           \<and> inserted h (fst ` set (xs @ (a, u) # ys)) h'"
proof -
  have fresh: "brk h \<notin> fst ` set (xs @ (a, u) # ys)" using r by (rule ll_repr_fresh)
  then have fr: "brk h \<noteq> a" "brk h \<notin> fst ` set xs" "brk h \<notin> fst ` set ys" by auto
  have d: "distinct (map fst (xs @ (a, u) # ys))" using r by (rule ll_repr_distinct)
  then have da: "a \<notin> fst ` set xs" "a \<notin> fst ` set ys"
    and dis: "fst ` set xs \<inter> fst ` set ys = {}" by auto
  have hok: "heap_ok h" using r by (rule ll_repr_heap_ok)
  have ca: "cells h a = Some \<lparr>nd_data = u, nd_previous = last_ptr xs None, nd_next = first_ptr ys None\<rparr>"
    using r by (rule ll_repr_load)
  have cx: "chain (cells h) None xs (Some a)" and cy: "chain (cells h) (Some a) ys None"
    using r by (auto simp: ll_repr_def)
  let ?n = "\<lparr>nd_data = v, nd_previous = Some a, nd_next = first_ptr ys None\<rparr>"
  let ?h1 = "\<lparr>cells = (cells h)(brk h := Some ?n), brk = Suc (brk h)\<rparr>"
  have "chain (cells ?h1) (Some a) ys None" using cy fr by simp
  with d obtain h2 where h2: "modify_if ?h1 (first_ptr ys None) (\<lambda>m. m\<lparr>nd_previous := Some (brk h)\<rparr>) = Some h2"
    and c2: "chain (cells h2) (Some (brk h)) ys None" and rl: "relinked ?h1 (fst ` set ys) h2"
    using set_first_previous [of ?h1 "Some a" ys "Some (brk h)"] by auto
  have a2: "cells h2 a = cells h a" and n2: "cells h2 (brk h) = Some ?n" and b2: "brk h2 = Suc (brk h)"
    and o2: "\<And>b. b \<notin> fst ` set ys \<Longrightarrow> b \<noteq> brk h \<Longrightarrow> cells h2 b = cells h b"
    using rl da fr by (auto simp: relinked_def)
  let ?h3 = "h2\<lparr>cells := (cells h2)(a \<mapsto> \<lparr>nd_data = u, nd_previous = last_ptr xs None, nd_next = Some (brk h)\<rparr>)\<rparr>"
  have hok2: "heap_ok h2" using relinked_heap_ok [OF rl] hok by (simp add: heap_ok_new)
  have hok3: "heap_ok ?h3" using hok2 a2 ca by (simp add: heap_ok_upd)
  have cx3: "chain (cells ?h3) None xs (Some a)"
  proof -
    have "chain (cells ?h3) None xs (Some a) = chain (cells h) None xs (Some a)"
    proof (rule chain_cong)
      fix b assume b: "b \<in> fst ` set xs"
      have "b \<notin> fst ` set ys" "b \<noteq> a" "b \<noteq> brk h" using b dis fr da by blast+
      then show "cells ?h3 b = cells h b" by (simp add: o2)
    qed
    then show ?thesis using cx by simp
  qed
  have run: "ll_emplace_after (Some a) v h l = Some (Some (brk h), ?h3,
      (if Some a = mBeforeEnd l then l\<lparr>mSize := mSize l + 1, mBeforeEnd := Some (brk h)\<rparr> else l\<lparr>mSize := mSize l + 1\<rparr>))"
    using ca fr h2 a2 by (simp add: ll_emplace_after_def ll_cend_def new_def it_next_def modify_Some)
  have "ll_repr ?h3 (if Some a = mBeforeEnd l then l\<lparr>mSize := mSize l + 1, mBeforeEnd := Some (brk h)\<rparr> else l\<lparr>mSize := mSize l + 1\<rparr>)
          (xs @ (a, u) # (brk h, v) # ys)"
    using r hok3 cx3 c2 d fr da n2 unfolding ll_repr_def
    by (auto simp: last_ptr_def dest: last_in_set split: if_splits)
  moreover have "inserted h (fst ` set (xs @ (a, u) # ys)) ?h3"
    using o2 b2 by (auto simp: inserted_def)
  ultimately show ?thesis using run by blast
qed


lemma ll_emplace_after_empty:
  assumes r: "ll_repr h l []"
  shows "\<exists>h' l'. ll_emplace_after None v h l = Some (Some (brk h), h', l')
           \<and> ll_repr h' l' [(brk h, v)] \<and> inserted h {} h'"
  using r
  by (auto simp: ll_repr_def ll_emplace_after_def ll_cend_def new_def inserted_def heap_ok_new)

text \<open>Appending: \<open>emplace_after (beforeEnd)\<close>, the branch every insertion before \<open>end\<close> takes.\<close>

lemma ll_emplace_back_repr:
  assumes r: "ll_repr h l es"
  shows "\<exists>h' l'. ll_emplace_back v h l = Some (Some (brk h), h', l')
           \<and> ll_repr h' l' (es @ [(brk h, v)]) \<and> inserted h (fst ` set es) h'"
proof (cases es rule: rev_cases)
  case Nil
  with r show ?thesis
    using ll_emplace_after_empty [of h l v] by (simp add: ll_emplace_back_def ll_repr_beforeEnd)
next
  case (snoc xs e)
  obtain a u where e: "e = (a, u)" by (cases e)
  with r snoc have "ll_repr h l (xs @ (a, u) # [])" by simp
  from ll_emplace_after_node [OF this, of v] show ?thesis
    using r snoc e by (simp add: ll_emplace_back_def ll_repr_beforeEnd)
qed

lemma ll_emplace_before_end:
  "ll_emplace_before None v h l = ll_emplace_back v h l"
  by (simp add: ll_emplace_before_def ll_cend_def ll_emplace_back_def)

lemma ll_emplace_before_node:
  assumes r: "ll_repr h l (xs @ (a, u) # ys)"
  shows "\<exists>h' l'. ll_emplace_before (Some a) v h l = Some (Some (brk h), h', l')
           \<and> ll_repr h' l' (xs @ (brk h, v) # (a, u) # ys)
           \<and> inserted h (fst ` set (xs @ (a, u) # ys)) h'"
proof -
  have fresh: "brk h \<notin> fst ` set (xs @ (a, u) # ys)" using r by (rule ll_repr_fresh)
  then have fr: "brk h \<noteq> a" "brk h \<notin> fst ` set xs" "brk h \<notin> fst ` set ys" by auto
  have d: "distinct (map fst (xs @ (a, u) # ys))" using r by (rule ll_repr_distinct)
  then have da: "a \<notin> fst ` set xs" "a \<notin> fst ` set ys"
    and dis: "fst ` set xs \<inter> fst ` set ys = {}" by auto
  have hok: "heap_ok h" using r by (rule ll_repr_heap_ok)
  have ca: "cells h a = Some \<lparr>nd_data = u, nd_previous = last_ptr xs None, nd_next = first_ptr ys None\<rparr>"
    using r by (rule ll_repr_load)
  have cx: "chain (cells h) None xs (Some a)" and cy: "chain (cells h) (Some a) ys None"
    using r by (auto simp: ll_repr_def)
  let ?n = "\<lparr>nd_data = v, nd_previous = last_ptr xs None, nd_next = Some a\<rparr>"
  let ?h1 = "\<lparr>cells = (cells h)(brk h := Some ?n), brk = Suc (brk h)\<rparr>"
  have "chain (cells ?h1) None xs (Some a)" using cx fr by simp
  with d obtain h2 where h2: "modify_if ?h1 (last_ptr xs None) (\<lambda>m. m\<lparr>nd_next := Some (brk h)\<rparr>) = Some h2"
    and c2: "chain (cells h2) None xs (Some (brk h))" and rl: "relinked ?h1 (fst ` set xs) h2"
    using set_last_next [of ?h1 xs "Some a" "Some (brk h)"] by auto
  have a2: "cells h2 a = cells h a" and n2: "cells h2 (brk h) = Some ?n" and b2: "brk h2 = Suc (brk h)"
    and o2: "\<And>b. b \<notin> fst ` set xs \<Longrightarrow> b \<noteq> brk h \<Longrightarrow> cells h2 b = cells h b"
    using rl da fr by (auto simp: relinked_def)
  let ?h3 = "h2\<lparr>cells := (cells h2)(a \<mapsto> \<lparr>nd_data = u, nd_previous = Some (brk h), nd_next = first_ptr ys None\<rparr>)\<rparr>"
  have hok2: "heap_ok h2" using relinked_heap_ok [OF rl] hok by (simp add: heap_ok_new)
  have hok3: "heap_ok ?h3" using hok2 a2 ca by (simp add: heap_ok_upd)
  have cy3: "chain (cells ?h3) (Some a) ys None"
  proof -
    have "chain (cells ?h3) (Some a) ys None = chain (cells h) (Some a) ys None"
    proof (rule chain_cong)
      fix b assume b: "b \<in> fst ` set ys"
      have "b \<notin> fst ` set xs" "b \<noteq> a" "b \<noteq> brk h" using b dis fr da by blast+
      then show "cells ?h3 b = cells h b" by (simp add: o2)
    qed
    then show ?thesis using cy by simp
  qed
  have run: "ll_emplace_before (Some a) v h l = Some (Some (brk h), ?h3,
      (if mBegin l = Some a then l\<lparr>mSize := mSize l + 1, mBegin := Some (brk h)\<rparr> else l\<lparr>mSize := mSize l + 1\<rparr>))"
    using ca fr h2 a2 by (simp add: ll_emplace_before_def ll_cend_def new_def it_previous_def modify_Some)
  have "ll_repr ?h3 (if mBegin l = Some a then l\<lparr>mSize := mSize l + 1, mBegin := Some (brk h)\<rparr> else l\<lparr>mSize := mSize l + 1\<rparr>)
          (xs @ (brk h, v) # (a, u) # ys)"
    using r hok3 cy3 c2 d fr da n2 ll_repr_begin_iff(1) [OF r] unfolding ll_repr_def
    by (cases xs) (auto simp: last_ptr_def split: if_splits)
  moreover have "inserted h (fst ` set (xs @ (a, u) # ys)) ?h3"
    using o2 b2 by (auto simp: inserted_def)
  ultimately show ?thesis using run by blast
qed

text \<open>Any position: before a node, or before \<open>end ()\<close>.\<close>

lemma ll_emplace_before_at:
  assumes "ll_repr h l (xs @ ys)"
  shows "\<exists>h' l'. ll_emplace_before (first_ptr ys None) v h l = Some (Some (brk h), h', l')
           \<and> ll_repr h' l' (xs @ (brk h, v) # ys) \<and> inserted h (fst ` set (xs @ ys)) h'"
proof (cases ys)
  case Nil
  then show ?thesis using assms ll_emplace_back_repr [of h l xs v] by (auto simp: ll_emplace_before_end)
next
  case (Cons e zs)
  then show ?thesis using assms ll_emplace_before_node [of h l xs "fst e" "snd e" zs v] by auto
qed

section \<open>Removal\<close>

lemma ll_erase_repr:
  assumes r: "ll_repr h l (xs @ (a, u) # ys)"
  shows "\<exists>h' l'. ll_erase (Some a) h l
             = Some (if ys = [] then last_ptr xs None else first_ptr ys None, h', l')
           \<and> ll_repr h' l' (xs @ ys) \<and> cells h' a = None \<and> brk h' = brk h
           \<and> (\<forall>b. b \<notin> fst ` set (xs @ (a, u) # ys) \<longrightarrow> cells h' b = cells h b)"
proof -
  have d: "distinct (map fst (xs @ (a, u) # ys))" using r by (rule ll_repr_distinct)
  then have da: "a \<notin> fst ` set xs" "a \<notin> fst ` set ys"
    and dis: "fst ` set xs \<inter> fst ` set ys = {}" by auto
  have hok: "heap_ok h" using r by (rule ll_repr_heap_ok)
  have ca: "cells h a = Some \<lparr>nd_data = u, nd_previous = last_ptr xs None, nd_next = first_ptr ys None\<rparr>"
    using r by (rule ll_repr_load)
  have cx: "chain (cells h) None xs (Some a)" and cy: "chain (cells h) (Some a) ys None"
    using r by (auto simp: ll_repr_def)
  obtain h1 where h1: "modify_if h (first_ptr ys None) (\<lambda>m. m\<lparr>nd_previous := last_ptr xs None\<rparr>) = Some h1"
    and c1: "chain (cells h1) (last_ptr xs None) ys None" and r1: "relinked h (fst ` set ys) h1"
    using set_first_previous [OF cy, of "last_ptr xs None"] d by auto
  have "chain (cells h1) None xs (Some a) = chain (cells h) None xs (Some a)"
    by (rule chain_cong) (use r1 dis in \<open>unfold relinked_def, blast\<close>)
  with cx d obtain h2 where h2: "modify_if h1 (last_ptr xs None) (\<lambda>m. m\<lparr>nd_next := first_ptr ys None\<rparr>) = Some h2"
    and c2: "chain (cells h2) None xs (first_ptr ys None)" and r2: "relinked h1 (fst ` set xs) h2"
    using set_last_next [of h1 xs "Some a" "first_ptr ys None"] by auto
  have a2: "cells h2 a \<noteq> None" using r1 r2 ca by (auto simp: relinked_def)
  let ?h3 = "h2\<lparr>cells := (cells h2)(a := None)\<rparr>"
  have hok3: "heap_ok ?h3" using relinked_heap_ok [OF r2] relinked_heap_ok [OF r1] hok a2
    by (simp add: heap_ok_upd)
  have cy2: "chain (cells h2) (last_ptr xs None) ys None = chain (cells h1) (last_ptr xs None) ys None"
    by (rule chain_cong) (use r2 dis in \<open>unfold relinked_def, blast\<close>)
  let ?l1 = "if Some a = mBegin l then l\<lparr>mSize := mSize l - 1, mBegin := first_ptr ys None\<rparr> else l\<lparr>mSize := mSize l - 1\<rparr>"
  have run: "ll_erase (Some a) h l =
      (if Some a = mBeforeEnd l then Some (last_ptr xs None, ?h3, ?l1\<lparr>mBeforeEnd := last_ptr xs None\<rparr>)
       else Some (first_ptr ys None, ?h3, ?l1))"
    using ca h1 h2 a2 by (auto simp: ll_erase_def free_def Let_def)
  have be: "Some a = mBeforeEnd l \<longleftrightarrow> ys = []"
    using ll_repr_begin_iff(2) [OF r] by auto
  have bb: "Some a = mBegin l \<longleftrightarrow> xs = []"
    using ll_repr_begin_iff(1) [OF r] by auto
  have "ll_repr ?h3 (if Some a = mBeforeEnd l then ?l1\<lparr>mBeforeEnd := last_ptr xs None\<rparr> else ?l1) (xs @ ys)"
    using r hok3 c1 cy2 c2 d da be bb unfolding ll_repr_def
    by (cases xs; cases "ys = []") (auto simp: last_ptr_def)
  moreover have "\<forall>b. b \<notin> fst ` set (xs @ (a, u) # ys) \<longrightarrow> cells ?h3 b = cells h b"
    using r1 r2 by (simp add: relinked_def image_Un)
  moreover have "brk ?h3 = brk h" using r1 r2 by (simp add: relinked_def)
  ultimately show ?thesis using run be by (auto split: if_splits)
qed

lemma ll_erase_distinct: "ll_repr h l (xs @ e # ys) \<Longrightarrow> fst e \<notin> fst ` set (xs @ ys)"
  by (drule ll_repr_distinct) auto

section \<open>Erasing a range\<close>

lemma ll_erase_loop_run:
  assumes "chain (cells h) p es n" and "distinct (map fst es)" and "es \<noteq> []"
    and "n \<notin> Some ` fst ` set es"
  shows "ll_erase_loop (first_ptr es None) n l h sz b c =
           Some (h\<lparr>cells := (\<lambda>a. if a \<in> fst ` set es then None else cells h a)\<rparr>, sz - of_nat (length es),
                 b \<or> mBegin l \<in> Some ` fst ` set es, c \<or> mBeforeEnd l \<in> Some ` fst ` set es)"
  using assms
proof (induction es arbitrary: p h sz b c)
  case (Cons e es)
  obtain a v where e: "e = (a, v)" by (cases e)
  have ca: "cells h a = Some \<lparr>nd_data = v, nd_previous = p, nd_next = first_ptr es n\<rparr>"
    and ce: "chain (cells h) (Some a) es n" using Cons.prems(1) e by auto
  have d: "distinct (map fst es)" "a \<notin> fst ` set es" using Cons.prems(2) e by auto
  let ?h = "h\<lparr>cells := (cells h)(a := None)\<rparr>"
  show ?case
  proof (cases "es = []")
    case True
    then show ?thesis using e ca
      by (subst ll_erase_loop.simps) (auto simp: free_Some fun_eq_iff)
  next
    case False
    have ne: "first_ptr es n \<noteq> n" and fp: "first_ptr es n = first_ptr es None"
      using Cons.prems(4) False by (cases es; auto)+
    have ch: "chain (cells ?h) (Some a) es n" using ce d by simp
    have "ll_erase_loop (first_ptr es None) n l ?h (sz - 1) (b \<or> Some a = mBegin l) (c \<or> Some a = mBeforeEnd l) =
        Some (?h\<lparr>cells := (\<lambda>a. if a \<in> fst ` set es then None else cells ?h a)\<rparr>, sz - 1 - of_nat (length es),
          (b \<or> Some a = mBegin l) \<or> mBegin l \<in> Some ` fst ` set es,
          (c \<or> Some a = mBeforeEnd l) \<or> mBeforeEnd l \<in> Some ` fst ` set es)"
      using Cons.prems(4) by (intro Cons.IH [OF ch d(1) False]) auto
    then show ?thesis using e ca ne fp
      by (subst ll_erase_loop.simps) (auto simp: free_Some fun_eq_iff algebra_simps)
  qed
qed simp

definition erased :: "'a dll_heap \<Rightarrow> nat set \<Rightarrow> 'a dll_heap" where
  "erased h A = h\<lparr>cells := (\<lambda>a. if a \<in> A then None else cells h a)\<rparr>"

lemma erased_simps [simp]:
  "cells (erased h A) a = (if a \<in> A then None else cells h a)" "brk (erased h A) = brk h"
  by (simp_all add: erased_def)

lemma heap_ok_erased: "heap_ok h \<Longrightarrow> heap_ok (erased h A)"
  by (auto simp: heap_ok_def)

lemma chain_erased: "A \<inter> fst ` set es = {} \<Longrightarrow> chain (cells (erased h A)) p es n = chain (cells h) p es n"
  by (rule chain_cong) auto

lemma ll_erase_range_loop:
  assumes r: "ll_repr h l (xs @ ms @ ys)" and ne: "ms \<noteq> []"
  shows "ll_erase_loop (first_ptr ms None) (first_ptr ys None) l h (mSize l) False False =
           Some (erased h (fst ` set ms), of_nat (length xs + length ys), xs = [], ys = [])"
    and "first_ptr ms None \<noteq> first_ptr ys None"
    and "it_previous h (first_ptr ms None) = Some (last_ptr xs None)"
proof -
  have d: "distinct (map fst (xs @ ms @ ys))" using r by (rule ll_repr_distinct)
  then have dis: "fst ` set xs \<inter> fst ` set ms = {}" "fst ` set ms \<inter> fst ` set ys = {}"
    "fst ` set xs \<inter> fst ` set ys = {}" by auto
  have n: "first_ptr ys None \<notin> Some ` fst ` set ms"
    using dis(2) by (cases ys) auto
  have b: "mBegin l \<in> Some ` fst ` set ms \<longleftrightarrow> xs = []"
    using ll_repr_begin [OF r] ne dis(1) by (cases xs; cases ms) auto
  have e: "mBeforeEnd l \<in> Some ` fst ` set ms \<longleftrightarrow> ys = []"
  proof (cases ys rule: rev_cases)
    case Nil
    then show ?thesis using ll_repr_beforeEnd [OF r] ne by (cases ms rule: rev_cases) auto
  next
    case (snoc zs z)
    then show ?thesis using ll_repr_beforeEnd [OF r] dis(2) by auto
  qed
  have c: "chain (cells h) (last_ptr xs None) ms (first_ptr ys None)"
    using r by (simp add: ll_repr_def)
  show "ll_erase_loop (first_ptr ms None) (first_ptr ys None) l h (mSize l) False False =
          Some (erased h (fst ` set ms), of_nat (length xs + length ys), xs = [], ys = [])"
    using ll_erase_loop_run [OF c _ ne n, of l "mSize l" False False] d b e ll_repr_size [OF r]
    by (simp add: erased_def algebra_simps)
  show "first_ptr ms None \<noteq> first_ptr ys None" using n ne by (cases ms) auto
  show "it_previous h (first_ptr ms None) = Some (last_ptr xs None)"
    using c ne by (cases ms) (auto simp: it_previous_def)
qed

text \<open>Erasing everything, as \<open>clear ()\<close> and the destructor do.\<close>

lemma ll_erase_range_all:
  assumes r: "ll_repr h l es" and ne: "es \<noteq> []"
  shows "ll_erase_range (mBegin l) None h l
           = Some (erased h (fst ` set es), l\<lparr>mSize := 0, mBegin := None, mBeforeEnd := None\<rparr>)"
proof -
  have r': "ll_repr h l ([] @ es @ [])" using r by simp
  show ?thesis
    using ll_erase_range_loop [OF r' ne] ll_repr_begin [OF r]
    by (simp add: ll_erase_range_def Let_def)
qed

lemma ll_clear_repr:
  assumes r: "ll_repr h l es"
  shows "\<exists>l'. ll_clear h l = Some (erased h (fst ` set es), l')
           \<and> ll_repr (erased h (fst ` set es)) l' []"
proof (cases "es = []")
  case True
  moreover have "erased h {} = h" by (simp add: erased_def)
  ultimately show ?thesis using r by (auto simp: ll_clear_def ll_isEmpty_def ll_cend_def ll_repr_def)
next
  case False
  then show ?thesis
    using r ll_erase_range_all [OF r False]
    by (auto simp: ll_clear_def ll_isEmpty_def ll_cend_def ll_repr_def heap_ok_erased)
qed

text \<open>Erasing a range that neither starts at \<open>begin ()\<close> nor ends at \<open>end ()\<close>.\<close>

lemma ll_erase_range_middle:
  assumes r: "ll_repr h l (xs @ ms @ (b, w) # ys)" and ne: "xs \<noteq> []" "ms \<noteq> []"
  shows "\<exists>h' l'. ll_erase_range (first_ptr ms None) (Some b) h l = Some (h', l')
           \<and> ll_repr h' l' (xs @ (b, w) # ys)"
proof -
  note run = ll_erase_range_loop [OF r ne(2)]
  let ?A = "fst ` set ms"
  obtain zs a u where xs: "xs = zs @ [(a, u)]" using ne(1) by (metis rev_exhaust surj_pair)
  have d: "distinct (map fst (xs @ ms @ (b, w) # ys))" using r by (rule ll_repr_distinct)
  have ca: "cells h a = Some \<lparr>nd_data = u, nd_previous = last_ptr zs None, nd_next = first_ptr ms (Some b)\<rparr>"
    using r xs by (simp add: ll_repr_def)
  have cb: "cells h b = Some \<lparr>nd_data = w, nd_previous = last_ptr ms (Some a), nd_next = first_ptr ys None\<rparr>"
    using r xs by (simp add: ll_repr_def)
  have cz: "chain (cells (erased h ?A)) None zs (Some a)" "chain (cells (erased h ?A)) (Some b) ys None"
    using r xs d by (subst chain_erased; auto simp: ll_repr_def)+
  have an: "a \<notin> ?A" "b \<notin> ?A" "a \<noteq> b" "b \<notin> fst ` set zs" "a \<notin> fst ` set ys" "a \<notin> fst ` set zs"
    "b \<notin> fst ` set ys" using d xs by auto
  let ?h2 = "erased h ?A\<lparr>cells := (cells (erased h ?A))
      (a \<mapsto> \<lparr>nd_data = u, nd_previous = last_ptr zs None, nd_next = Some b\<rparr>,
       b \<mapsto> \<lparr>nd_data = w, nd_previous = Some a, nd_next = first_ptr ys None\<rparr>)\<rparr>"
  have "ll_erase_range (first_ptr ms None) (Some b) h l
          = Some (?h2, l\<lparr>mSize := of_nat (length xs + length ((b, w) # ys))\<rparr>)"
    using run ca cb an xs by (simp add: ll_erase_range_def Let_def modify_Some)
  moreover have "heap_ok ?h2"
    using ll_repr_heap_ok [OF r] ca cb by (auto simp: heap_ok_def split: if_splits)
  moreover have "mBegin l = first_ptr xs None" "mBeforeEnd l = last_ptr ys (Some b)"
    using ll_repr_begin [OF r] ll_repr_beforeEnd [OF r] xs by (cases zs; simp)+
  ultimately show ?thesis
    using cz an d xs by (auto simp: ll_repr_def)
qed

text \<open>
  The two ranges the code does not handle. With a suffix, \<open>iterator.mCurrent->previous\<close> is written
  through the null \<open>end ()\<close>. With a proper prefix, the new first node keeps a \<open>previous\<close> that
  points to a deleted node.
\<close>

lemma ll_erase_range_suffix:
  assumes r: "ll_repr h l (xs @ ms)" and ne: "xs \<noteq> []" "ms \<noteq> []"
  shows "ll_erase_range (first_ptr ms None) None h l = None"
proof -
  have r': "ll_repr h l (xs @ ms @ [])" using r by simp
  show ?thesis
    using ll_erase_range_loop [OF r' ne(2)] ne
    by (auto simp: ll_erase_range_def Let_def bind_None_iff)
qed

lemma ll_erase_range_prefix:
  assumes r: "ll_repr h l (ms @ (b, w) # ys)" and ne: "ms \<noteq> []"
  shows "\<exists>h' l'. ll_erase_range (mBegin l) (Some b) h l = Some (h', l') \<and> mBegin l' = Some b
           \<and> it_previous h' (Some b) = Some (Some (fst (last ms))) \<and> cells h' (fst (last ms)) = None"
proof -
  have r': "ll_repr h l ([] @ ms @ (b, w) # ys)" using r by simp
  have cb: "cells h b = Some \<lparr>nd_data = w, nd_previous = last_ptr ms None, nd_next = first_ptr ys None\<rparr>"
    using r by (rule ll_repr_load)
  have "b \<notin> fst ` set ms" using ll_repr_distinct [OF r] by auto
  moreover have "mBegin l = first_ptr ms None" using ll_repr_begin [OF r] ne by (cases ms) auto
  ultimately show ?thesis
    using ll_erase_range_loop [OF r' ne] ne cb
    by (auto simp: ll_erase_range_def Let_def it_previous_def last_ptr_def)
qed

section \<open>Inserting a range: copies\<close>

text \<open>
  What the loop of \<open>insertAfter\<close> leaves: the fresh nodes \<open>ns\<close>, linked after \<open>a\<close>, hold the values of
  the input range, and every older node but \<open>a\<close> is as it was.
\<close>

definition appended ::
  "'a dll_heap \<Rightarrow> nat \<Rightarrow> 'a dll_node \<Rightarrow> (nat \<times> 'a) list \<Rightarrow> 'a dll_heap \<Rightarrow> bool" where
  "appended h a na ns h' \<longleftrightarrow> heap_ok h' \<and> brk h \<le> brk h' \<and> distinct (map fst ns)
     \<and> (\<forall>x \<in> fst ` set ns. brk h \<le> x)
     \<and> (\<forall>b. b < brk h \<longrightarrow> b \<noteq> a \<longrightarrow> cells h' b = cells h b)
     \<and> cells h' a = Some (if ns = [] then na else na\<lparr>nd_next := first_ptr ns None\<rparr>)
     \<and> chain (cells h') (Some a) ns None"

lemma chain_bound: "heap_ok h \<Longrightarrow> chain (cells h) p es n \<Longrightarrow> a \<in> fst ` set es \<Longrightarrow> a < brk h"
  using chain_in heap_ok_def by metis

lemma ll_insertAfter_loop_run:
  assumes "heap_ok h" and "chain (cells h) p es None" and "distinct (map fst es)"
    and "cells h a = Some na" and "a \<notin> fst ` set es"
  shows "\<exists>h' ns. ll_insertAfter_loop (Some a) (first_ptr es None) None h sz
             = Some (last_ptr ns (Some a), h', sz + of_nat (length es))
           \<and> map snd ns = map snd es \<and> appended h a na ns h'"
  using assms
proof (induction es arbitrary: p h sz a na)
  case Nil
  then show ?case by (subst ll_insertAfter_loop.simps) (auto simp: appended_def intro!: exI [of _ "[]"])
next
  case (Cons e es)
  obtain b v where e: "e = (b, v)" by (cases e)
  let ?c = "brk h"
  let ?n = "\<lparr>nd_data = v, nd_previous = Some a, nd_next = None\<rparr>"
  let ?h2 = "\<lparr>cells = (cells h)(?c \<mapsto> ?n, a \<mapsto> na\<lparr>nd_next := Some ?c\<rparr>), brk = Suc ?c\<rparr>"
  have cb: "cells h b = Some \<lparr>nd_data = v, nd_previous = p, nd_next = first_ptr es None\<rparr>"
    and ce: "chain (cells h) (Some b) es None" using Cons.prems(2) e by auto
  have lt: "a < ?c" "b < ?c" using heap_ok_less Cons.prems(1,4) cb by metis+
  have ab: "a \<noteq> b" "a \<notin> fst ` set es" "distinct (map fst es)" using Cons.prems(3,5) e by auto
  have fr: "?c \<notin> fst ` set es" using chain_fresh [OF Cons.prems(1) ce] .
  have hok: "heap_ok ?h2" using Cons.prems(1) lt by (auto simp: heap_ok_def less_Suc_eq)
  have ch: "chain (cells ?h2) (Some b) es None" using ce ab fr by simp
  from Cons.IH [OF hok ch ab(3), of ?c ?n "sz + 1"] lt fr
  obtain h' ns where run: "ll_insertAfter_loop (Some ?c) (first_ptr es None) None ?h2 (sz + 1)
        = Some (last_ptr ns (Some ?c), h', sz + 1 + of_nat (length es))"
    and vs: "map snd ns = map snd es" and app: "appended ?h2 ?c ?n ns h'" by auto
  have "ll_insertAfter_loop (Some a) (first_ptr (e # es) None) None h sz
        = Some (last_ptr ((?c, v) # ns) (Some a), h', sz + of_nat (length (e # es)))"
    using e cb Cons.prems(4) lt ab run
    by (subst ll_insertAfter_loop.simps) (simp add: it_deref_def it_next_def new_def modify_Some algebra_simps)
  moreover have "appended h a na ((?c, v) # ns) h'"
  proof -
    have "cells h' a = Some (na\<lparr>nd_next := Some ?c\<rparr>)" using app lt unfolding appended_def by simp
    moreover have "cells h' ?c = Some \<lparr>nd_data = v, nd_previous = Some a, nd_next = first_ptr ns None\<rparr>"
      using app unfolding appended_def by (cases ns) auto
    moreover have "?c \<notin> fst ` set ns" using app unfolding appended_def by force
    moreover have "\<forall>x \<in> fst ` set ns. ?c \<le> x" using app unfolding appended_def by force
    moreover have "\<forall>b. b < ?c \<longrightarrow> b \<noteq> a \<longrightarrow> cells h' b = cells h b" using app unfolding appended_def by simp
    ultimately show ?thesis using app unfolding appended_def by simp
  qed
  ultimately show ?case using vs e by (intro exI [of _ h'] exI [of _ "(?c, v) # ns"]) simp
qed

lemma modify_same: "cells h a = Some n \<Longrightarrow> f n = n \<Longrightarrow> modify h (Some a) f = Some h"
  by (cases h) (auto simp: modify_Some fun_upd_idem)

lemma ll_repr_cong:
  "ll_repr h l es \<Longrightarrow> heap_ok h' \<Longrightarrow> (\<And>a. a \<in> fst ` set es \<Longrightarrow> cells h' a = cells h a) \<Longrightarrow> ll_repr h' l es"
  using chain_cong [of es "cells h'" "cells h"] by (simp add: ll_repr_def)

text \<open>The branch of \<open>insertAfter\<close> the range insertion at \<open>end ()\<close> takes: after the last node.\<close>

lemma ll_insertAfter_last:
  assumes r: "ll_repr h l (xs @ [(c, v)])" and s: "chain (cells h) p es None" "distinct (map fst es)"
    and dis: "fst ` set es \<inter> insert c (fst ` set xs) = {}" and ne: "es \<noteq> []"
  shows "\<exists>h' l' ns. ll_insertAfter (Some c) (first_ptr es None) None h l = Some (h', l')
           \<and> map snd ns = map snd es \<and> ll_repr h' l' (xs @ (c, v) # ns)
           \<and> (\<forall>b. b < brk h \<longrightarrow> b \<noteq> c \<longrightarrow> cells h' b = cells h b)"
proof -
  let ?na = "\<lparr>nd_data = v, nd_previous = last_ptr xs None, nd_next = None\<rparr>"
  have hok: "heap_ok h" using r by (rule ll_repr_heap_ok)
  have r': "ll_repr h l (xs @ (c, v) # [])" using r by simp
  have cc: "cells h c = Some ?na" using ll_repr_load [OF r'] by simp
  have cn: "c \<notin> fst ` set es" using dis by auto
  obtain h' ns where run: "ll_insertAfter_loop (Some c) (first_ptr es None) None h (mSize l)
        = Some (last_ptr ns (Some c), h', mSize l + of_nat (length es))"
    and vs: "map snd ns = map snd es" and app: "appended h c ?na ns h'"
    using ll_insertAfter_loop_run [OF hok s cc cn] by blast
  have len: "length ns = length es" using vs map_eq_imp_length_eq by blast
  then obtain ms z w where ns: "ns = ms @ [(z, w)]" using ne by (cases ns rule: rev_cases) auto
  have mz: "modify h' (last_ptr ns (Some c)) (\<lambda>n. n\<lparr>nd_next := None\<rparr>) = Some h'"
    using app ns by (auto simp: appended_def intro!: modify_same)
  have out: "ll_insertAfter (Some c) (first_ptr es None) None h l
      = Some (h', l\<lparr>mSize := mSize l + of_nat (length es), mBeforeEnd := last_ptr ns (Some c)\<rparr>)"
    using run mz cc ll_repr_beforeEnd [OF r]
    by (simp add: ll_insertAfter_def it_next_def Let_def modify_if_def)
  have cx: "chain (cells h) None xs (Some c)" using r by (simp add: ll_repr_def)
  have old: "\<forall>b. b < brk h \<longrightarrow> b \<noteq> c \<longrightarrow> cells h' b = cells h b" and new: "\<forall>x \<in> fst ` set ns. brk h \<le> x"
    using app by (simp_all add: appended_def)
  have bx: "x < brk h" if "x \<in> fst ` set xs" for x using chain_bound [OF hok cx that] .
  have bc: "c < brk h" using heap_ok_less [OF hok cc] .
  have nx: "c \<notin> fst ` set xs" using ll_repr_distinct [OF r] by auto
  have "chain (cells h') None xs (Some c) = chain (cells h) None xs (Some c)"
    by (rule chain_cong) (use old bx nx in metis)
  then have cx': "chain (cells h') None xs (Some c)" using cx by simp
  have d: "distinct (map fst (xs @ (c, v) # ns))"
  proof -
    have "fst ` set xs \<inter> fst ` set ns = {}" "c \<notin> fst ` set ns" using new bx bc by (meson disjoint_iff leD)+
    then show ?thesis using ll_repr_distinct [OF r] app by (auto simp: appended_def)
  qed
  have "ll_repr h' (l\<lparr>mSize := mSize l + of_nat (length es), mBeforeEnd := last_ptr ns (Some c)\<rparr>) (xs @ (c, v) # ns)"
    using d cx' app ns ll_repr_begin [OF r] ll_repr_size [OF r] len
    by (auto simp: ll_repr_def appended_def)
  then show ?thesis using out vs old by blast
qed

lemma ll_insert_end:
  assumes r: "ll_repr h l xs" and s: "ll_repr h other es"
    and dis: "fst ` set xs \<inter> fst ` set es = {}"
  shows "\<exists>h' l' ns. ll_insert None (mBegin other) None h l = Some (h', l')
           \<and> map snd ns = map snd es \<and> ll_repr h' l' (xs @ ns) \<and> ll_repr h' other es"
proof (cases es)
  case Nil
  then show ?thesis using r s by (auto simp: ll_insert_def ll_repr_begin intro!: exI [of _ "[]"])
next
  case (Cons e es')
  obtain b v where e: "e = (b, v)" by (cases e)
  let ?c = "brk h"
  obtain h1 l1 where b1: "ll_emplace_back v h l = Some (Some ?c, h1, l1)"
    and r1: "ll_repr h1 l1 (xs @ [(?c, v)])" and i1: "inserted h (fst ` set xs) h1"
    using ll_emplace_back_repr [OF r] by blast
  have fr: "?c \<notin> fst ` set es" using ll_repr_fresh [OF s] .
  have same: "cells h1 a = cells h a" if "a \<in> fst ` set es" for a
  proof -
    have "a \<notin> insert ?c (fst ` set xs)" using that dis fr by blast
    then show ?thesis using i1 unfolding inserted_def by blast
  qed
  have s1: "ll_repr h1 other es" using ll_repr_cong [OF s ll_repr_heap_ok [OF r1] same] .
  have s1': "ll_repr h1 other ([] @ (b, v) # es')" using s1 Cons e by simp
  have dv: "it_deref h (Some b) = Some v" using ll_repr_deref [OF s] Cons e by simp
  have nx: "it_next h1 (Some b) = Some (first_ptr es' None)" using ll_repr_next [OF s1'] .
  have bo: "mBegin other = Some b" using ll_repr_begin [OF s] Cons e by simp
  show ?thesis
  proof (cases "es' = []")
    case True
    then have "ll_insert None (mBegin other) None h l = Some (h1, l1)"
      using bo dv nx b1 by (simp add: ll_insert_def ll_emplace_before_end)
    then show ?thesis using r1 s1 Cons True e by (auto intro!: exI [of _ "[(?c, v)]"])
  next
    case False
    have ch: "chain (cells h1) (Some b) es' None" "distinct (map fst es')"
      using s1' by (auto simp: ll_repr_def)
    have dis': "fst ` set es' \<inter> insert ?c (fst ` set xs) = {}" using dis fr Cons by auto
    obtain h' l' ns where ia: "ll_insertAfter (Some ?c) (first_ptr es' None) None h1 l1 = Some (h', l')"
      and vs: "map snd ns = map snd es'" and r2: "ll_repr h' l' (xs @ (?c, v) # ns)"
      and old: "\<forall>b. b < brk h1 \<longrightarrow> b \<noteq> ?c \<longrightarrow> cells h' b = cells h1 b"
      using ll_insertAfter_last [OF r1 ch dis' False] by blast
    have ne: "first_ptr es' None \<noteq> None" using False by simp
    have "ll_insert None (mBegin other) None h l = Some (h', l')"
      using bo dv nx b1 ia ne by (simp add: ll_insert_def ll_emplace_before_end)
    moreover have "ll_repr h' other es"
    proof (rule ll_repr_cong [OF s1 ll_repr_heap_ok [OF r2]])
      fix a assume a: "a \<in> fst ` set es"
      have "chain (cells h1) None es None" using s1 by (simp add: ll_repr_def)
      then have "a < brk h1" using chain_bound [OF ll_repr_heap_ok [OF s1] _ a] by blast
      then show "cells h' a = cells h1 a" using old a fr by metis
    qed
    ultimately show ?thesis using vs r2 Cons e by (intro exI [of _ h'] exI [of _ l'] exI [of _ "(?c, v) # ns"]) simp
  qed
qed

lemma ll_copy_repr:
  assumes s: "ll_repr h other es"
  shows "\<exists>h' l' ns. ll_copy h other = Some (h', l')
           \<and> map snd ns = map snd es \<and> ll_repr h' l' ns \<and> ll_repr h' other es"
  using ll_insert_end [OF ll_repr_empty [OF ll_repr_heap_ok [OF s]] s]
  by (simp add: ll_copy_def ll_empty_def ll_cend_def)

lemma ll_assign_repr:
  assumes r: "ll_repr h self xs" and s: "ll_repr h other es"
    and dis: "fst ` set xs \<inter> fst ` set es = {}"
  shows "\<exists>h' l' ns. ll_assign False h self other = Some (h', l')
           \<and> map snd ns = map snd es \<and> ll_repr h' l' ns \<and> ll_repr h' other es"
proof -
  obtain l1 where c: "ll_clear h self = Some (erased h (fst ` set xs), l1)"
    and r1: "ll_repr (erased h (fst ` set xs)) l1 []" using ll_clear_repr [OF r] by blast
  have s1: "ll_repr (erased h (fst ` set xs)) other es"
    using dis by (intro ll_repr_cong [OF s ll_repr_heap_ok [OF r1]]) auto
  show ?thesis using ll_insert_end [OF r1 s1] c by (simp add: ll_assign_def ll_cend_def)
qed

lemma ll_assign_self:
  assumes r: "ll_repr h l xs"
  shows "\<exists>h' l'. ll_assign True h l l = Some (h', l') \<and> ll_repr h' l' []"
  using ll_clear_repr [OF r] by (auto simp: ll_assign_def ll_insert_def ll_cend_def ll_repr_begin)

text \<open>A write through an iterator.\<close>

lemma ll_repr_write:
  assumes r: "ll_repr h l (xs @ (a, v) # ys)"
  shows "\<exists>h'. it_assign h (Some a) w = Some h' \<and> ll_repr h' l (xs @ (a, w) # ys)"
proof -
  have d: "a \<notin> fst ` set xs" "a \<notin> fst ` set ys" using ll_repr_distinct [OF r] by auto
  have ca: "cells h a = Some \<lparr>nd_data = v, nd_previous = last_ptr xs None, nd_next = first_ptr ys None\<rparr>"
    using r by (rule ll_repr_load)
  let ?h = "h\<lparr>cells := (cells h)(a \<mapsto> \<lparr>nd_data = w, nd_previous = last_ptr xs None, nd_next = first_ptr ys None\<rparr>)\<rparr>"
  have "heap_ok ?h" using heap_ok_upd [OF ll_repr_heap_ok [OF r]] ca by simp
  then have "ll_repr ?h l (xs @ (a, w) # ys)" using r d by (simp add: ll_repr_def)
  then show ?thesis using ca by (simp add: it_assign_def modify_Some)
qed

section \<open>Ends of the list\<close>

lemma ll_emplace_front_repr:
  assumes r: "ll_repr h l es"
  shows "\<exists>h' l'. ll_emplace_front v h l = Some (Some (brk h), h', l')
           \<and> ll_repr h' l' ((brk h, v) # es) \<and> inserted h (fst ` set es) h'"
proof (cases es)
  case Nil
  then show ?thesis using ll_emplace_back_repr [OF r, of v] r
    by (simp add: ll_emplace_front_def ll_repr_begin ll_emplace_before_end)
next
  case (Cons e xs)
  obtain a u where e: "e = (a, u)" by (cases e)
  with r Cons have "ll_repr h l ([] @ (a, u) # xs)" by simp
  from ll_emplace_before_node [OF this, of v] show ?thesis
    using r Cons e by (simp add: ll_emplace_front_def ll_repr_begin)
qed

lemma ll_pop_front_repr:
  assumes "ll_repr h l (e # es)"
  shows "\<exists>h' l'. ll_pop_front h l = Some (h', l') \<and> ll_repr h' l' es"
  using ll_erase_repr [of h l "[]" "fst e" "snd e" es] assms
  by (auto simp: ll_pop_front_def ll_repr_begin)

lemma ll_pop_back_repr:
  assumes "ll_repr h l (es @ [e])"
  shows "\<exists>h' l'. ll_pop_back h l = Some (h', l') \<and> ll_repr h' l' es"
  using ll_erase_repr [of h l es "fst e" "snd e" "[]"] assms
  by (auto simp: ll_pop_back_def ll_repr_beforeEnd)

lemma ll_pop_empty: "ll_repr h l [] \<Longrightarrow> ll_pop_front h l = None \<and> ll_pop_back h l = None"
  by (simp add: ll_pop_front_def ll_pop_back_def ll_erase_def ll_repr_begin ll_repr_beforeEnd)

lemma ll_front_repr: "ll_repr h l (e # es) \<Longrightarrow> ll_front h l = Some (snd e)"
  using ll_repr_deref [of h l "e # es" "fst e" "snd e"] by (simp add: ll_front_def ll_repr_begin)

lemma ll_back_repr: "ll_repr h l (es @ [e]) \<Longrightarrow> ll_back h l = Some (snd e)"
  using ll_repr_deref [of h l "es @ [e]" "fst e" "snd e"] by (simp add: ll_back_def ll_repr_beforeEnd)

lemma ll_isEmpty_repr: "ll_repr h l es \<Longrightarrow> ll_isEmpty l \<longleftrightarrow> es = []"
  by (simp add: ll_isEmpty_def ll_cend_def ll_repr_begin)

lemma ll_swap_repr:
  "ll_repr h a xs \<Longrightarrow> ll_repr h b ys \<Longrightarrow> ll_swap a b = (a', b') \<Longrightarrow> ll_repr h a' ys \<and> ll_repr h b' xs"
  by (auto simp: ll_swap_def ll_repr_def)

section \<open>The list as a queue\<close>

text \<open>
  The contract of a first-in first-out container: \<open>holds s vs\<close> relates a state to its values. Its
  clients push at the back and drain from the front.
\<close>

primrec push_all :: "('v \<Rightarrow> 's \<Rightarrow> 's option) \<Rightarrow> 'v list \<Rightarrow> 's \<Rightarrow> 's option" where
  "push_all push [] s = Some s"
| "push_all push (v # vs) s = Option.bind (push v s) (push_all push vs)"

primrec drain ::
  "('s \<Rightarrow> bool) \<Rightarrow> ('s \<Rightarrow> 'v option) \<Rightarrow> ('s \<Rightarrow> 's option) \<Rightarrow> nat \<Rightarrow> 's \<Rightarrow> ('v list \<times> 's) option" where
  "drain isEmpty front pop 0 s = (if isEmpty s then Some ([], s) else None)"
| "drain isEmpty front pop (Suc n) s =
     (if isEmpty s then Some ([], s)
      else do {
        v \<leftarrow> front s;
        s1 \<leftarrow> pop s;
        (vs, s2) \<leftarrow> drain isEmpty front pop n s1;
        Some (v # vs, s2)
      })"

locale fifo =
  fixes holds :: "'s \<Rightarrow> 'v list \<Rightarrow> bool"
    and push :: "'v \<Rightarrow> 's \<Rightarrow> 's option"
    and pop :: "'s \<Rightarrow> 's option"
    and front :: "'s \<Rightarrow> 'v option"
    and isEmpty :: "'s \<Rightarrow> bool"
  assumes push_law: "holds s vs \<Longrightarrow> \<exists>s'. push v s = Some s' \<and> holds s' (vs @ [v])"
    and pop_law: "holds s (v # vs) \<Longrightarrow> \<exists>s'. pop s = Some s' \<and> holds s' vs"
    and front_law: "holds s (v # vs) \<Longrightarrow> front s = Some v"
    and empty_law: "holds s vs \<Longrightarrow> isEmpty s \<longleftrightarrow> vs = []"
begin

lemma push_all_holds:
  "holds s vs \<Longrightarrow> \<exists>s'. push_all push ws s = Some s' \<and> holds s' (vs @ ws)"
proof (induction ws arbitrary: s vs)
  case (Cons w ws)
  then obtain s1 where "push w s = Some s1" "holds s1 (vs @ [w])" using push_law by blast
  with Cons.IH show ?case by fastforce
qed simp

lemma drain_holds:
  "holds s vs \<Longrightarrow> length vs \<le> n \<Longrightarrow> \<exists>s'. drain isEmpty front pop n s = Some (vs, s') \<and> holds s' []"
proof (induction n arbitrary: s vs)
  case (Suc n)
  show ?case
  proof (cases vs)
    case Nil
    then show ?thesis using Suc.prems empty_law by auto
  next
    case (Cons v ws)
    then obtain s1 where "pop s = Some s1" "holds s1 ws" using Suc.prems pop_law by blast
    with Suc Cons show ?thesis using empty_law [of s] front_law [of s] by fastforce
  qed
qed (simp add: empty_law)

lemma push_all_drain:
  assumes "holds s vs" and "push_all push ws s = Some s1"
  shows "\<exists>s2. drain isEmpty front pop (length vs + length ws) s1 = Some (vs @ ws, s2) \<and> holds s2 []"
  using push_all_holds [OF assms(1), of ws] drain_holds [of s1 "vs @ ws"] assms(2) by auto

end

text \<open>\<open>LinkedList\<close> with \<open>emplace_back\<close>, \<open>pop_front\<close> and \<open>front\<close> meets the contract.\<close>

definition ll_holds :: "'a dll_heap \<times> linked_list \<Rightarrow> 'a list \<Rightarrow> bool" where
  "ll_holds s vs \<longleftrightarrow> (\<exists>es. ll_repr (fst s) (snd s) es \<and> map snd es = vs)"

definition ll_push :: "'a \<Rightarrow> 'a dll_heap \<times> linked_list \<Rightarrow> ('a dll_heap \<times> linked_list) option" where
  "ll_push v s = map_option snd (ll_emplace_back v (fst s) (snd s))"

interpretation ll: fifo ll_holds ll_push
  "\<lambda>s. ll_pop_front (fst s) (snd s)" "\<lambda>s. ll_front (fst s) (snd s)" "\<lambda>s. ll_isEmpty (snd s)"
proof unfold_locales
  fix s :: "'a dll_heap \<times> linked_list" and v :: 'a and vs
  show "ll_holds s vs \<Longrightarrow> \<exists>s'. ll_push v s = Some s' \<and> ll_holds s' (vs @ [v])"
    using ll_emplace_back_repr [of "fst s" "snd s" _ v] by (fastforce simp: ll_holds_def ll_push_def)
  show "ll_holds s (v # vs) \<Longrightarrow> \<exists>s'. ll_pop_front (fst s) (snd s) = Some s' \<and> ll_holds s' vs"
    using ll_pop_front_repr [of "fst s" "snd s"] by (fastforce simp: ll_holds_def)
  show "ll_holds s (v # vs) \<Longrightarrow> ll_front (fst s) (snd s) = Some v"
    using ll_front_repr [of "fst s" "snd s"] by (fastforce simp: ll_holds_def)
  show "ll_holds s vs \<Longrightarrow> ll_isEmpty (snd s) \<longleftrightarrow> vs = []"
    using ll_isEmpty_repr [of "fst s" "snd s"] by (auto simp: ll_holds_def)
qed

section \<open>Properties\<close>

text \<open>A list of three elements, on which the properties are also applied.\<close>

definition sample_heap :: "nat dll_heap" where
  "sample_heap = \<lparr>cells = [0 \<mapsto> \<lparr>nd_data = 10, nd_previous = None, nd_next = Some 1\<rparr>,
                           1 \<mapsto> \<lparr>nd_data = 11, nd_previous = Some 0, nd_next = Some 2\<rparr>,
                           2 \<mapsto> \<lparr>nd_data = 12, nd_previous = Some 1, nd_next = None\<rparr>], brk = 3\<rparr>"

definition sample_list :: linked_list where
  "sample_list = \<lparr>mBegin = Some 0, mBeforeEnd = Some 2, mSize = 3\<rparr>"

lemma sample_list_repr: "ll_repr sample_heap sample_list ([(0, 10)] @ [(1, 11)] @ [(2, 12)])"
  by (auto simp: ll_repr_def sample_heap_def sample_list_def heap_ok_def split: if_splits)

text \<open>
  \<open>emplace_before\<close> at any position of a well-formed list (before a node, or at \<open>end ()\<close>) puts
  the new element right there: the result is again a well-formed list (both link directions, begin,
  before-end and size agree), and every other entry keeps its place, its address and its value.
\<close>

theorem linked_list_emplace_before:
  assumes "ll_repr h l (xs @ ys)"
  shows "\<exists>h' l'. ll_emplace_before (first_ptr ys None) v h l = Some (Some (brk h), h', l')
           \<and> ll_repr h' l' (xs @ (brk h, v) # ys)"
  using ll_emplace_before_at [OF assms] by blast

lemma linked_list_emplace_before_witness:
  "\<exists>h' l'. ll_emplace_before (Some 1) 77 sample_heap sample_list = Some (Some 3, h', l')
     \<and> ll_repr h' l' [(0, 10), (3, 77), (1, 11), (2, 12)]"
  using linked_list_emplace_before [of sample_heap sample_list "[(0, 10)]" "[(1, 11), (2, 12)]" 77]
    sample_list_repr by (simp add: sample_heap_def)

text \<open>
  C29: \<open>erase (iterator)\<close> removes exactly that element and deletes its node; the list stays
  well-formed. It returns the iterator to the following element, except for the last element, where
  it returns the new last element and not \<open>end ()\<close>.
\<close>

theorem linked_list_erase:
  assumes "ll_repr h l (xs @ (a, u) # ys)"
  shows "\<exists>h' l'. ll_erase (Some a) h l
             = Some (if ys = [] then last_ptr xs None else first_ptr ys None, h', l')
           \<and> ll_repr h' l' (xs @ ys) \<and> cells h' a = None"
  using ll_erase_repr [OF assms] by blast

lemma linked_list_erase_witness:
  "\<exists>h' l'. ll_erase (Some 2) sample_heap sample_list = Some (Some 1, h', l')
     \<and> ll_repr h' l' [(0, 10), (1, 11)] \<and> cells h' 2 = None"
  using linked_list_erase [of sample_heap sample_list "[(0, 10), (1, 11)]" 2 12 "[]"]
    sample_list_repr by simp

text \<open>
  The copy constructor and the copy assignment from another list give a well-formed list with
  the same values in the same order, in fresh nodes, and leave the source as it was; the assigned
  list's old elements are gone. The assignment of a list to itself, which the code does not guard
  against, empties it.
\<close>

theorem linked_list_copies:
  assumes "ll_repr h self xs" and "ll_repr h other es" and "fst ` set xs \<inter> fst ` set es = {}"
  shows "(\<exists>h' l' ns. ll_copy h other = Some (h', l') \<and> map snd ns = map snd es
             \<and> ll_repr h' l' ns \<and> ll_repr h' other es)
       \<and> (\<exists>h' l' ns. ll_assign False h self other = Some (h', l') \<and> map snd ns = map snd es
             \<and> ll_repr h' l' ns \<and> ll_repr h' other es)
       \<and> (\<exists>h' l'. ll_assign True h other other = Some (h', l') \<and> ll_repr h' l' [])"
  using ll_copy_repr [OF assms(2)] ll_assign_repr [OF assms] ll_assign_self [OF assms(2)] by blast

lemma linked_list_copies_witness:
  "\<exists>h' l' ns. ll_assign False sample_heap ll_empty sample_list = Some (h', l')
     \<and> map snd ns = [10, 11, 12] \<and> ll_repr h' l' ns \<and> ll_repr h' sample_list [(0, 10), (1, 11), (2, 12)]"
  using linked_list_copies [of sample_heap ll_empty "[]" sample_list "[(0, 10), (1, 11), (2, 12)]"]
    sample_list_repr ll_repr_heap_ok [OF sample_list_repr] by simp

text \<open>
  \<open>erase (begin, end)\<close> of a non-empty range: erasing all of the list empties it and deletes
  every node, and a range strictly inside is cut out. A range that ends at \<open>end ()\<close> but does not
  start at \<open>begin ()\<close> dereferences the null end iterator. A range from \<open>begin ()\<close> that leaves a
  rest leaves the first remaining node with a \<open>previous\<close> that points to a deleted node.
\<close>

theorem linked_list_erase_range:
  assumes "ll_repr h l (xs @ ms @ ys)" and "ms \<noteq> []"
  shows "case (xs, ys) of
      ([], []) \<Rightarrow> \<exists>h' l'. ll_erase_range (first_ptr ms None) None h l = Some (h', l')
                    \<and> ll_repr h' l' [] \<and> (\<forall>e. e \<in> set ms \<longrightarrow> cells h' (fst e) = None)
    | (_ # _, []) \<Rightarrow> ll_erase_range (first_ptr ms None) None h l = None
    | ([], y # _) \<Rightarrow> \<exists>h' l' d. ll_erase_range (first_ptr ms None) (Some (fst y)) h l = Some (h', l')
                    \<and> mBegin l' = Some (fst y) \<and> it_previous h' (mBegin l') = Some (Some d) \<and> cells h' d = None
    | (_ # _, y # _) \<Rightarrow> \<exists>h' l'. ll_erase_range (first_ptr ms None) (Some (fst y)) h l = Some (h', l')
                    \<and> ll_repr h' l' (xs @ ys)"
proof (cases xs; cases ys)
  assume xs: "xs = []" and ys: "ys = []"
  then have r: "ll_repr h l ms" using assms(1) by simp
  have "ll_repr (erased h (fst ` set ms)) (l\<lparr>mSize := 0, mBegin := None, mBeforeEnd := None\<rparr>) []"
    using ll_repr_heap_ok [OF r] by (simp add: ll_repr_def heap_ok_erased)
  then show ?thesis
    using ll_erase_range_all [OF r assms(2)] ll_repr_begin [OF r] xs ys by (force simp: image_iff)
next
  fix y zs assume xs: "xs = []" and ys: "ys = y # zs"
  have r: "ll_repr h l (ms @ (fst y, snd y) # zs)" using assms(1) xs ys by simp
  show ?thesis
    using ll_erase_range_prefix [OF r assms(2)] ll_repr_begin [OF r] assms(2) xs ys
    by (cases ms) auto
next
  fix x ws assume xs: "xs = x # ws" and ys: "ys = []"
  then show ?thesis using ll_erase_range_suffix [of h l xs ms] assms by simp
next
  fix x ws y zs assume xs: "xs = x # ws" and ys: "ys = y # zs"
  have r: "ll_repr h l (xs @ ms @ (fst y, snd y) # zs)" using assms(1) ys by simp
  show ?thesis using ll_erase_range_middle [OF r _ assms(2)] xs ys by simp
qed

lemma linked_list_erase_range_witness:
  "ll_erase_range (Some 1) None sample_heap sample_list = None"
  using linked_list_erase_range [of sample_heap sample_list "[(0, 10)]" "[(1, 11), (2, 12)]" "[]"]
    sample_list_repr by simp



end
