(* ===== verification/HashTables.thy ===== *)
theory HashTables
  imports LinkedLists
begin

text \<open>
  Base/HashTable.hpp: the hash table. All entries are in one linked list, \<open>mKeysList\<close>; the entries
  of one hash slot are next to each other, and \<open>mTable\<close> holds for each slot the iterator of its
  first entry. \<open>tableIterator\<close>, an iterator into \<open>mTable\<close>, is the index of the slot. The template
  parameters \<open>_Hash\<close> and \<open>_IsEqual\<close> are the arguments \<open>H\<close> and \<open>E\<close>.
\<close>

section \<open>Hash functions\<close>

text \<open>djb2, over the bytes of a \<open>RawArray\<close>.\<close>

definition djb2 :: "byte list \<Rightarrow> size_t" where
  "djb2 array = fold (\<lambda>element hash. (push_bit 5 hash + hash) + ucast element) array 5381"

text \<open>The trivial hashes of the integer types: \<open>static_cast<SizeType>\<close>.\<close>

definition trivial_hash_unsigned :: "'w::len word \<Rightarrow> size_t" where
  "trivial_hash_unsigned v = ucast v"

definition trivial_hash_signed :: "'w::len word \<Rightarrow> size_t" where
  "trivial_hash_signed v = scast v"

section \<open>The table\<close>

record ('k, 't) pair_node =
  pt_first :: 'k
  pt_second :: 't
  tableIterator :: nat

record hash_table =
  mTable :: "ptr list"
  mKeysList :: linked_list

type_synonym ('k, 't) ht_heap = "('k, 't) pair_node dll_heap"

text \<open>\<open>DefaultTableSize\<close>, and the constructor that takes a table size.\<close>

definition kVectorInitialSize :: size_t where
  "kVectorInitialSize = 0xfffff"

definition ht_construct :: "size_t \<Rightarrow> hash_table" where
  "ht_construct tableSize = \<lparr>mTable = replicate (unat tableSize) nullptr, mKeysList = ll_empty\<rparr>"

definition ht_construct_default :: hash_table where
  "ht_construct_default = ht_construct kVectorInitialSize"

text \<open>Reading and writing through an iterator into \<open>mTable\<close>.\<close>

definition table_at :: "hash_table \<Rightarrow> nat \<Rightarrow> ptr option" where
  "table_at t i = (if i < length (mTable t) then Some (mTable t ! i) else None)"

definition table_set :: "hash_table \<Rightarrow> nat \<Rightarrow> ptr \<Rightarrow> hash_table option" where
  "table_set t i p =
     (if i < length (mTable t) then Some (t\<lparr>mTable := (mTable t)[i := p]\<rparr>) else None)"

text \<open>\<open>index % mTable.size ()\<close>, undefined for an empty table.\<close>

definition ht_getTableIterator :: "hash_table \<Rightarrow> size_t \<Rightarrow> nat option" where
  "ht_getTableIterator t index =
     (if mTable t = [] then None else Some (unat (index mod of_nat (length (mTable t)))))"

definition ht_getTableEntry :: "hash_table \<Rightarrow> size_t \<Rightarrow> ptr option" where
  "ht_getTableEntry t index = Option.bind (ht_getTableIterator t index) (table_at t)"

partial_function (option) ht_lookup_loop ::
  "('k \<Rightarrow> 'k \<Rightarrow> bool) \<Rightarrow> ('k, 't) ht_heap \<Rightarrow> ptr \<Rightarrow> nat \<Rightarrow> 'k \<Rightarrow> ptr option" where
  "ht_lookup_loop E h listIterator slot key = do {
     n \<leftarrow> it_deref h listIterator;
     (if E (pt_first n) key then Some listIterator
      else do {
        it \<leftarrow> it_next h listIterator;
        (if it = ll_cend then Some ll_cend
         else do {
           m \<leftarrow> it_deref h it;
           (if tableIterator m \<noteq> slot then Some ll_cend
            else ht_lookup_loop E h it slot key)
         })
      })
   }"

definition ht_lookupKeyInKeyList ::
  "('k \<Rightarrow> 'k \<Rightarrow> bool) \<Rightarrow> ('k, 't) ht_heap \<Rightarrow> ptr \<Rightarrow> 'k \<Rightarrow> ptr option" where
  "ht_lookupKeyInKeyList E h listIterator key =
     (if listIterator = ll_cend then Some ll_cend
      else do {
        n \<leftarrow> it_deref h listIterator;
        ht_lookup_loop E h listIterator (tableIterator n) key
      })"

definition ht_find ::
  "('k \<Rightarrow> size_t) \<Rightarrow> ('k \<Rightarrow> 'k \<Rightarrow> bool) \<Rightarrow> 'k \<Rightarrow> ('k, 't) ht_heap \<Rightarrow> hash_table \<Rightarrow> ptr option" where
  "ht_find H E key h t = do {
     firstEntry \<leftarrow> ht_getTableEntry t (H key);
     ht_lookupKeyInKeyList E h firstEntry key
   }"

definition ht_isExist ::
  "('k \<Rightarrow> size_t) \<Rightarrow> ('k \<Rightarrow> 'k \<Rightarrow> bool) \<Rightarrow> 'k \<Rightarrow> ('k, 't) ht_heap \<Rightarrow> hash_table \<Rightarrow> bool option" where
  "ht_isExist H E key h t = map_option (\<lambda>it. it \<noteq> ll_cend) (ht_find H E key h t)"

definition ht_count ::
  "('k \<Rightarrow> size_t) \<Rightarrow> ('k \<Rightarrow> 'k \<Rightarrow> bool) \<Rightarrow> 'k \<Rightarrow> ('k, 't) ht_heap \<Rightarrow> hash_table \<Rightarrow> size_t option" where
  "ht_count H E key h t = map_option (\<lambda>b. if b then 1 else 0) (ht_isExist H E key h t)"

definition ht_size :: "hash_table \<Rightarrow> size_t" where
  "ht_size t = mSize (mKeysList t)"

definition ht_isEmpty :: "hash_table \<Rightarrow> bool" where
  "ht_isEmpty t \<longleftrightarrow> ht_size t = 0"

text \<open>\<open>insert\<close>: the new entry goes right after the first entry of its slot, or to the end.\<close>

definition ht_insert ::
  "('k \<Rightarrow> size_t) \<Rightarrow> ('k \<Rightarrow> 'k \<Rightarrow> bool) \<Rightarrow> 'k \<Rightarrow> 't \<Rightarrow> ('k, 't) ht_heap \<Rightarrow> hash_table
     \<Rightarrow> ((bool \<times> ptr) \<times> ('k, 't) ht_heap \<times> hash_table) option" where
  "ht_insert H E key v h t = do {
     slot \<leftarrow> ht_getTableIterator t (H key);
     firstKeyEntry \<leftarrow> table_at t slot;
     let isEmptyHashEntry = (firstKeyEntry = ll_cend);
     entry \<leftarrow> (if isEmptyHashEntry then Some ll_cend else ht_lookupKeyInKeyList E h firstKeyEntry key);
     (if entry \<noteq> ll_cend then Some ((False, entry), h, t)
      else do {
        where_it \<leftarrow> (if isEmptyHashEntry then Some ll_cend else it_next h firstKeyEntry);
        (newKeyEntry, h1, l1) \<leftarrow>
          ll_emplace_before where_it \<lparr>pt_first = key, pt_second = v, tableIterator = slot\<rparr> h (mKeysList t);
        let t1 = t\<lparr>mKeysList := l1\<rparr>;
        t2 \<leftarrow> (if isEmptyHashEntry then table_set t1 slot newKeyEntry else Some t1);
        Some ((True, newKeyEntry), h1, t2)
      })
   }"

text \<open>\<open>operator[]\<close>: a new entry gets \<open>T\<close>'s default value; the result is the entry's iterator.\<close>

definition ht_subscript ::
  "('k \<Rightarrow> size_t) \<Rightarrow> ('k \<Rightarrow> 'k \<Rightarrow> bool) \<Rightarrow> 't \<Rightarrow> 'k \<Rightarrow> ('k, 't) ht_heap \<Rightarrow> hash_table
     \<Rightarrow> (ptr \<times> ('k, 't) ht_heap \<times> hash_table) option" where
  "ht_subscript H E dflt key h t = do {
     (result, h1, t1) \<leftarrow> ht_insert H E key dflt h t;
     Some (snd result, h1, t1)
   }"

definition ht_insertOrAssign ::
  "('k \<Rightarrow> size_t) \<Rightarrow> ('k \<Rightarrow> 'k \<Rightarrow> bool) \<Rightarrow> 'k \<Rightarrow> 't \<Rightarrow> ('k, 't) ht_heap \<Rightarrow> hash_table
     \<Rightarrow> (ptr \<times> ('k, 't) ht_heap \<times> hash_table) option" where
  "ht_insertOrAssign H E key v h t = do {
     (result, h1, t1) \<leftarrow> ht_insert H E key v h t;
     h2 \<leftarrow> (if \<not> fst result
            then do {
              n \<leftarrow> it_deref h1 (snd result);
              it_assign h1 (snd result) (n\<lparr>pt_second := v\<rparr>)
            }
            else Some h1);
     Some (snd result, h2, t1)
   }"

definition ht_updateEraseFirst ::
  "('k, 't) ht_heap \<Rightarrow> hash_table \<Rightarrow> nat \<Rightarrow> ptr \<Rightarrow> hash_table option" where
  "ht_updateEraseFirst h t slot nextEntry = do {
     same \<leftarrow> (if nextEntry \<noteq> ll_cend then map_option (\<lambda>n. tableIterator n = slot) (it_deref h nextEntry)
             else Some False);
     (if same then table_set t slot nextEntry else table_set t slot ll_cend)
   }"

definition ht_erase ::
  "ptr \<Rightarrow> ('k, 't) ht_heap \<Rightarrow> hash_table \<Rightarrow> (ptr \<times> ('k, 't) ht_heap \<times> hash_table) option" where
  "ht_erase it h t = do {
     n \<leftarrow> it_deref h it;
     let slot = tableIterator n;
     e \<leftarrow> table_at t slot;
     let isFirstEntry = (e = it);
     (nextEntry, h1, l1) \<leftarrow> ll_erase it h (mKeysList t);
     let t1 = t\<lparr>mKeysList := l1\<rparr>;
     t2 \<leftarrow> (if isFirstEntry then ht_updateEraseFirst h1 t1 slot nextEntry else Some t1);
     Some (nextEntry, h1, t2)
   }"

definition ht_erase_key ::
  "('k \<Rightarrow> size_t) \<Rightarrow> ('k \<Rightarrow> 'k \<Rightarrow> bool) \<Rightarrow> 'k \<Rightarrow> ('k, 't) ht_heap \<Rightarrow> hash_table
     \<Rightarrow> (ptr \<times> ('k, 't) ht_heap \<times> hash_table) option" where
  "ht_erase_key H E key h t = do {
     it \<leftarrow> ht_find H E key h t;
     (if it = ll_cend then Some (it, h, t) else ht_erase it h t)
   }"

text \<open>
  \<open>erase (begin, end)\<close>: \<open>pending\<close> is \<open>firstEntryTableIterator\<close> while \<open>isAFirstEntryRemoved\<close> is set.
  When an entry of another slot is met, the pending slot is cleared, and the flag with it; that
  entry itself is not looked at.
\<close>

partial_function (option) ht_erase_scan ::
  "('k, 't) ht_heap \<Rightarrow> ptr \<Rightarrow> ptr \<Rightarrow> hash_table \<Rightarrow> nat option \<Rightarrow> (hash_table \<times> nat option) option" where
  "ht_erase_scan h it stop t pending =
     (if it = stop then Some (t, pending)
      else do {
        n \<leftarrow> it_deref h it;
        let slot = tableIterator n;
        (t', pending') \<leftarrow>
          (case pending of
             None \<Rightarrow> do {
               e \<leftarrow> table_at t slot;
               Some (t, if e = it then Some slot else None)
             }
           | Some firstSlot \<Rightarrow>
               if slot \<noteq> firstSlot then do {
                 t' \<leftarrow> table_set t firstSlot ll_cend;
                 Some (t', None)
               }
               else Some (t, pending));
        it' \<leftarrow> it_next h it;
        ht_erase_scan h it' stop t' pending'
      })"

definition ht_erase_range ::
  "ptr \<Rightarrow> ptr \<Rightarrow> ('k, 't) ht_heap \<Rightarrow> hash_table \<Rightarrow> (('k, 't) ht_heap \<times> hash_table) option" where
  "ht_erase_range first stop h t = do {
     (t1, pending) \<leftarrow> ht_erase_scan h first stop t None;
     t2 \<leftarrow> (case pending of None \<Rightarrow> Some t1 | Some slot \<Rightarrow> ht_updateEraseFirst h t1 slot stop);
     (h1, l1) \<leftarrow> ll_erase_range first stop h (mKeysList t2);
     Some (h1, t2\<lparr>mKeysList := l1\<rparr>)
   }"

section \<open>Groups of entries\<close>

text \<open>Equal elements are next to each other.\<close>

fun grouped :: "'a list \<Rightarrow> bool" where
  "grouped [] \<longleftrightarrow> True"
| "grouped (x # xs) \<longleftrightarrow> grouped xs \<and> (xs = [] \<or> x = hd xs \<or> x \<notin> set xs)"

lemma grouped_insert_same: "grouped (xs @ x # ys) \<Longrightarrow> grouped (xs @ x # x # ys)"
proof (induction xs)
  case (Cons z xs)
  then show ?case by (cases xs) auto
qed simp

lemma grouped_snoc: "grouped xs \<Longrightarrow> x \<notin> set xs \<Longrightarrow> grouped (xs @ [x])"
proof (induction xs)
  case (Cons z xs)
  then show ?case by (cases xs) auto
qed simp

lemma grouped_remove: "grouped (xs @ x # ys) \<Longrightarrow> grouped (xs @ ys)"
proof (induction xs)
  case Nil
  then show ?case by simp
next
  case (Cons z xs)
  then show ?case
  proof (cases xs)
    case Nil
    then show ?thesis using Cons by (cases ys) auto
  qed auto
qed

lemma grouped_split:
  "grouped (map f es) \<Longrightarrow> \<exists>xs ys. es = xs @ filter (\<lambda>e. f e = i) es @ ys
     \<and> (\<forall>e \<in> set xs. f e \<noteq> i) \<and> (\<forall>e \<in> set ys. f e \<noteq> i)"
proof (induction es)
  case (Cons e es)
  then obtain xs ys where es: "es = xs @ filter (\<lambda>e. f e = i) es @ ys"
    "\<forall>e \<in> set xs. f e \<noteq> i" "\<forall>e \<in> set ys. f e \<noteq> i" by auto
  show ?case
  proof (cases "f e = i")
    case False
    then show ?thesis using es by (intro exI [of _ "e # xs"] exI [of _ ys]) auto
  next
    case True
    show ?thesis
    proof (cases "filter (\<lambda>e. f e = i) es = []")
      case True': True
      then show ?thesis using True es by (intro exI [of _ "[]"] exI [of _ es]) (auto simp: filter_empty_conv)
    next
      case False
      then have "i \<in> set (map f es)" "es \<noteq> []" by (auto simp: filter_empty_conv)
      then have "f (hd es) = i" using Cons.prems True by (auto simp: hd_map)
      then have "xs = []" using es False by (metis append_Cons hd_append2 list.sel(1) list.set_intros(1) neq_Nil_conv)
      then show ?thesis using es True by (intro exI [of _ "[]"] exI [of _ ys]) auto
    qed
  qed
qed simp

section \<open>The invariant\<close>

type_synonym ('k, 't) entries = "(nat \<times> ('k, 't) pair_node) list"

definition slot_of :: "('k \<Rightarrow> size_t) \<Rightarrow> hash_table \<Rightarrow> 'k \<Rightarrow> nat" where
  "slot_of H t k = unat (H k mod of_nat (length (mTable t)))"

abbreviation e_slot :: "nat \<times> ('k, 't) pair_node \<Rightarrow> nat" where
  "e_slot e \<equiv> tableIterator (snd e)"

abbreviation e_key :: "nat \<times> ('k, 't) pair_node \<Rightarrow> 'k" where
  "e_key e \<equiv> pt_first (snd e)"

text \<open>
  The list holds the entries \<open>es\<close>; each is in the slot of its key, the entries of a slot are next
  to each other, the table points to the first one of each slot, and no key occurs twice.
\<close>

definition ht_inv :: "('k \<Rightarrow> size_t) \<Rightarrow> ('k, 't) ht_heap \<Rightarrow> hash_table \<Rightarrow> ('k, 't) entries \<Rightarrow> bool" where
  "ht_inv H h t es \<longleftrightarrow> ll_repr h (mKeysList t) es
     \<and> 0 < length (mTable t) \<and> length (mTable t) < 2 ^ 64
     \<and> (\<forall>e \<in> set es. e_slot e = slot_of H t (e_key e))
     \<and> grouped (map e_slot es)
     \<and> (\<forall>i < length (mTable t). mTable t ! i = first_ptr (filter (\<lambda>e. e_slot e = i) es) None)
     \<and> distinct (map e_key es)"

text \<open>The same without the last condition: what the table with equal keys keeps, too.\<close>

definition mt_inv :: "('k \<Rightarrow> size_t) \<Rightarrow> ('k, 't) ht_heap \<Rightarrow> hash_table \<Rightarrow> ('k, 't) entries \<Rightarrow> bool" where
  "mt_inv H h t es \<longleftrightarrow> ll_repr h (mKeysList t) es
     \<and> 0 < length (mTable t) \<and> length (mTable t) < 2 ^ 64
     \<and> (\<forall>e \<in> set es. e_slot e = slot_of H t (e_key e))
     \<and> grouped (map e_slot es)
     \<and> (\<forall>i < length (mTable t). mTable t ! i = first_ptr (filter (\<lambda>e. e_slot e = i) es) None)"

lemma ht_inv_multi: "ht_inv H h t es \<longleftrightarrow> mt_inv H h t es \<and> distinct (map e_key es)"
  by (auto simp: ht_inv_def mt_inv_def)

definition entry_map :: "('k, 't) entries \<Rightarrow> 'k \<Rightarrow> 't option" where
  "entry_map es = map_of (map (\<lambda>e. (e_key e, pt_second (snd e))) es)"

lemma slot_of_less:
  assumes "0 < length (mTable t)" and "length (mTable t) < 2 ^ 64"
  shows "slot_of H t k < length (mTable t)"
proof -
  have "unat (of_nat (length (mTable t)) :: size_t) = length (mTable t)"
    using assms(2) by (simp add: unat_of_nat take_bit_nat_eq_self)
  then show ?thesis using assms(1) by (simp add: slot_of_def unat_mod_distrib)
qed

lemma mt_inv_repr: "mt_inv H h t es \<Longrightarrow> ll_repr h (mKeysList t) es"
  by (simp add: mt_inv_def)

lemma mt_inv_slot: "mt_inv H h t es \<Longrightarrow> e \<in> set es \<Longrightarrow> e_slot e = slot_of H t (e_key e)"
  by (simp add: mt_inv_def)

lemma mt_inv_slot_less: "mt_inv H h t es \<Longrightarrow> slot_of H t k < length (mTable t)"
  by (simp add: mt_inv_def slot_of_less)

lemma mt_inv_getTableIterator:
  "mt_inv H h t es \<Longrightarrow> ht_getTableIterator t (H k) = Some (slot_of H t k)"
  by (auto simp: mt_inv_def ht_getTableIterator_def slot_of_def)

lemma mt_inv_table_at:
  "mt_inv H h t es \<Longrightarrow> table_at t (slot_of H t k) = Some (first_ptr (filter (\<lambda>e. e_slot e = slot_of H t k) es) None)"
  using mt_inv_slot_less [of H h t es k] by (simp add: mt_inv_def table_at_def)

lemma mt_inv_group:
  assumes "mt_inv H h t es"
  shows "\<exists>xs ys. es = xs @ filter (\<lambda>e. e_slot e = i) es @ ys
           \<and> (\<forall>e \<in> set xs. e_slot e \<noteq> i) \<and> (\<forall>e \<in> set ys. e_slot e \<noteq> i)"
  using grouped_split [of e_slot es i] assms by (simp add: mt_inv_def)

lemma ht_inv_mt: "ht_inv H h t es \<Longrightarrow> mt_inv H h t es"
  by (simp add: ht_inv_multi)

lemma ht_inv_grouped: "ht_inv H h t es \<Longrightarrow> grouped (map e_slot es)"
  by (simp add: ht_inv_def)

lemmas ht_inv_repr = mt_inv_repr [OF ht_inv_mt]
lemmas ht_inv_slot = mt_inv_slot [OF ht_inv_mt]
lemmas ht_inv_slot_less = mt_inv_slot_less [OF ht_inv_mt]
lemmas ht_inv_getTableIterator = mt_inv_getTableIterator [OF ht_inv_mt]
lemmas ht_inv_table_at = mt_inv_table_at [OF ht_inv_mt]
lemmas ht_inv_group = mt_inv_group [OF ht_inv_mt]

section \<open>Lookup\<close>

lemma ht_lookup_loop_run:
  assumes "ll_repr h l (xs @ (a, n) # ys)" and "tableIterator n = slot"
  shows "ht_lookup_loop (=) h (Some a) slot key =
    Some (first_ptr (filter (\<lambda>e. e_key e = key) (takeWhile (\<lambda>e. e_slot e = slot) ((a, n) # ys))) None)"
  using assms
proof (induction ys arbitrary: xs a n)
  case Nil
  have "it_deref h (Some a) = Some n" using ll_repr_deref [OF Nil(1), of a n] by simp
  then show ?case
    using ll_repr_next [OF Nil(1)] Nil(2) by (subst ht_lookup_loop.simps) (simp add: ll_cend_def)
next
  case (Cons e ys)
  obtain b m where e: "e = (b, m)" by (cases e)
  have r: "ll_repr h l ((xs @ [(a, n)]) @ (b, m) # ys)" using Cons.prems(1) e by simp
  have d: "it_deref h (Some a) = Some n" "it_deref h (Some b) = Some m"
    using ll_repr_deref [OF Cons.prems(1)] e by simp_all
  show ?case
    using d ll_repr_next [OF Cons.prems(1)] Cons.IH [OF r] Cons.prems(2) e
    by (subst ht_lookup_loop.simps) (auto simp: ll_cend_def)
qed

lemma takeWhile_group:
  "\<forall>e \<in> set gs. P e \<Longrightarrow> \<forall>e \<in> set ys. \<not> P e \<Longrightarrow> takeWhile P (gs @ ys) = gs"
  by (cases ys) (auto simp: takeWhile_append2)

lemma mt_lookupKeyInKeyList_run:
  assumes inv: "mt_inv H h t es" and i: "i = slot_of H t key"
  shows "ht_lookupKeyInKeyList (=) h (first_ptr (filter (\<lambda>e. e_slot e = i) es) None) key =
           Some (first_ptr (filter (\<lambda>e. e_key e = key) es) None)"
proof -
  let ?g = "filter (\<lambda>e. e_slot e = i) es"
  obtain xs ys where es: "es = xs @ ?g @ ys" and nx: "\<forall>e \<in> set xs. e_slot e \<noteq> i"
    and ny: "\<forall>e \<in> set ys. e_slot e \<noteq> i" using mt_inv_group [OF inv] by blast
  have g: "filter (\<lambda>e. e_key e = key) es = filter (\<lambda>e. e_key e = key) ?g"
    using mt_inv_slot [OF inv] i by (auto intro: filter_cong)
  show ?thesis
  proof (cases ?g)
    case Nil
    then show ?thesis using g by (simp add: ht_lookupKeyInKeyList_def ll_cend_def)
  next
    case (Cons e gs)
    obtain a n where e: "e = (a, n)" by (cases e)
    have r: "ll_repr h (mKeysList t) (xs @ (a, n) # (gs @ ys))"
      using mt_inv_repr [OF inv] es Cons e by (metis append_Cons)
    have "\<forall>x \<in> set ?g. e_slot x = i" by simp
    then have gi: "\<forall>x \<in> set ((a, n) # gs). e_slot x = i" using Cons e by simp
    then have ai: "tableIterator n = i" by simp
    have tw: "takeWhile (\<lambda>e. e_slot e = i) (((a, n) # gs) @ ys) = (a, n) # gs"
      by (rule takeWhile_group [OF gi ny])
    have "it_deref h (Some a) = Some n" using ll_repr_deref [OF r] by simp
    then show ?thesis
      using ht_lookup_loop_run [OF r ai, of key] tw ai Cons e g
      by (simp add: ht_lookupKeyInKeyList_def ll_cend_def)
  qed
qed

lemma mt_find_run:
  assumes inv: "mt_inv H h t es"
  shows "ht_find H (=) key h t = Some (first_ptr (filter (\<lambda>e. e_key e = key) es) None)"
  using mt_inv_getTableIterator [OF inv] mt_inv_table_at [OF inv] mt_lookupKeyInKeyList_run [OF inv refl, of key]
  by (simp add: ht_find_def ht_getTableEntry_def)

lemmas ht_lookupKeyInKeyList_run = mt_lookupKeyInKeyList_run [OF ht_inv_mt]
lemmas ht_find_run = mt_find_run [OF ht_inv_mt]

lemma entry_map_None: "entry_map es k = None \<longleftrightarrow> filter (\<lambda>e. e_key e = k) es = []"
  by (auto simp: entry_map_def map_of_eq_None_iff image_iff filter_empty_conv)

lemma entry_map_insert:
  "e_key e \<notin> e_key ` set (xs @ ys) \<Longrightarrow>
     entry_map (xs @ e # ys) = (entry_map (xs @ ys))(e_key e \<mapsto> pt_second (snd e))"
proof (induction xs)
  case (Cons x xs)
  then show ?case by (auto simp: entry_map_def fun_upd_twist)
qed (simp add: entry_map_def)

lemma entry_map_remove:
  "distinct (map e_key (xs @ e # ys)) \<Longrightarrow> entry_map (xs @ ys) = (entry_map (xs @ e # ys))(e_key e := None)"
proof (induction xs)
  case Nil
  then have "map_of (map (\<lambda>e. (e_key e, pt_second (snd e))) ys) (e_key e) = None"
    by (force simp: map_of_eq_None_iff image_iff)
  then show ?case by (auto simp: entry_map_def fun_eq_iff)
next
  case (Cons x xs)
  then show ?case by (auto simp: entry_map_def fun_upd_twist)
qed

lemma entry_found:
  assumes inv: "ht_inv H h t es" and k: "entry_map es k = Some v"
  shows "\<exists>xs a n ys. es = xs @ (a, n) # ys \<and> pt_first n = k \<and> pt_second n = v
           \<and> filter (\<lambda>e. e_key e = k) es = [(a, n)]
           \<and> it_deref h (Some a) = Some n"
proof -
  have "(k, v) \<in> set (map (\<lambda>e. (e_key e, pt_second (snd e))) es)"
    using k unfolding entry_map_def by (rule map_of_SomeD)
  then obtain e where e: "e \<in> set es" "e_key e = k" "pt_second (snd e) = v" by auto
  then obtain xs ys where es: "es = xs @ e # ys" by (meson split_list)
  have "distinct (map e_key es)" using inv by (simp add: ht_inv_def)
  then have "filter (\<lambda>x. e_key x = k) es = [e]"
    using es e(2) by (auto simp: filter_empty_conv image_iff append_eq_Cons_conv)
  moreover have "it_deref h (Some (fst e)) = Some (snd e)"
    using ll_repr_deref [OF ht_inv_repr [OF inv], of "fst e" "snd e"] e(1) by simp
  ultimately show ?thesis using es e by (metis prod.collapse)
qed

lemma ht_isExist_run:
  assumes "ht_inv H h t es"
  shows "ht_isExist H (=) key h t = Some (key \<in> dom (entry_map es))"
  using ht_find_run [OF assms, of key] entry_map_None [of es key]
  by (cases "filter (\<lambda>e. e_key e = key) es") (auto simp: ht_isExist_def ll_cend_def domIff)

lemma ht_size_run: "ht_inv H h t es \<Longrightarrow> ht_size t = of_nat (length es)"
  by (simp add: ht_size_def ll_repr_size [OF ht_inv_repr])

lemma entry_map_card:
  assumes "ht_inv H h t es"
  shows "card (dom (entry_map es)) = length es"
proof -
  have "distinct (map e_key es)" using assms by (simp add: ht_inv_def)
  moreover have "dom (entry_map es) = set (map e_key es)"
    by (auto simp: entry_map_def dom_map_of_conv_image_fst image_image image_iff)
  ultimately show ?thesis by (metis distinct_card length_map)
qed

section \<open>Insertion\<close>

lemma ht_inv_empty_slot:
  assumes "ht_inv H h t es" and "filter (\<lambda>e. e_slot e = i) es = []"
  shows "i \<notin> set (map e_slot es)"
  using assms(2) by (auto simp: filter_empty_conv)

lemma ht_insert_new:
  assumes inv: "ht_inv H h t es" and k: "entry_map es key = None"
  shows "\<exists>h' t' es'. ht_insert H (=) key v h t = Some ((True, Some (brk h)), h', t')
           \<and> ht_inv H h' t' es' \<and> entry_map es' = (entry_map es)(key \<mapsto> v)
           \<and> length (mTable t') = length (mTable t)
           \<and> (brk h, \<lparr>pt_first = key, pt_second = v, tableIterator = slot_of H t key\<rparr>) \<in> set es'"
proof -
  let ?i = "slot_of H t key"
  let ?g = "filter (\<lambda>e. e_slot e = ?i) es"
  let ?m = "\<lparr>pt_first = key, pt_second = v, tableIterator = ?i\<rparr>"
  have nk: "key \<notin> e_key ` set es" using k by (auto simp: entry_map_None filter_empty_conv)
  have lk: "ht_lookupKeyInKeyList (=) h (first_ptr ?g None) key = Some None"
    using ht_lookupKeyInKeyList_run [OF inv refl, of key] k by (simp add: entry_map_None)
  note pre = ht_inv_getTableIterator [OF inv] ht_inv_table_at [OF inv]
  show ?thesis
  proof (cases ?g)
    case Nil
    have r: "ll_repr h (mKeysList t) (es @ [])" using ht_inv_repr [OF inv] by simp
    obtain h1 l1 where ins: "ll_emplace_before None ?m h (mKeysList t) = Some (Some (brk h), h1, l1)"
      and r1: "ll_repr h1 l1 (es @ [(brk h, ?m)])"
      using ll_emplace_before_at [OF r, of ?m] by auto
    let ?t = "\<lparr>mTable = (mTable t)[?i := Some (brk h)], mKeysList = l1\<rparr>"
    have sl: "slot_of H ?t = slot_of H t" by (simp add: slot_of_def fun_eq_iff)
    have "ht_insert H (=) key v h t = Some ((True, Some (brk h)), h1, ?t)"
      using pre Nil ins ht_inv_slot_less [OF inv, of key]
      by (simp add: ht_insert_def ll_cend_def Let_def table_set_def)
    moreover have "ht_inv H h1 ?t (es @ [(brk h, ?m)])"
      using inv r1 sl nk Nil ht_inv_empty_slot [OF inv Nil]
      by (auto simp: ht_inv_def nth_list_update grouped_snoc)
    moreover have "entry_map (es @ [(brk h, ?m)]) = (entry_map es)(key \<mapsto> v)"
      using entry_map_insert [of "(brk h, ?m)" es "[]"] nk by simp
    ultimately show ?thesis by auto
  next
    case (Cons e gs)
    obtain a n where e: "e = (a, n)" by (cases e)
    obtain xs ys where "es = xs @ ?g @ ys" using ht_inv_group [OF inv] by blast
    then have es: "es = xs @ (a, n) # (gs @ ys)" using Cons e by simp
    have "(a, n) \<in> set ?g" using Cons e by simp
    then have ni: "tableIterator n = ?i" by simp
    have r: "ll_repr h (mKeysList t) ((xs @ [(a, n)]) @ (gs @ ys))" using ht_inv_repr [OF inv] es by simp
    obtain h1 l1 where ins: "ll_emplace_before (first_ptr (gs @ ys) None) ?m h (mKeysList t) = Some (Some (brk h), h1, l1)"
      and r1: "ll_repr h1 l1 (xs @ (a, n) # (brk h, ?m) # (gs @ ys))"
      using ll_emplace_before_at [OF r, of ?m] by auto
    let ?es = "xs @ (a, n) # (brk h, ?m) # (gs @ ys)"
    have nx: "it_next h (Some a) = Some (first_ptr (gs @ ys) None)"
      using ll_repr_next ht_inv_repr [OF inv] es by metis
    have "ht_insert H (=) key v h t = Some ((True, Some (brk h)), h1, t\<lparr>mKeysList := l1\<rparr>)"
      using pre Cons e ins lk nx by (simp add: ht_insert_def ll_cend_def Let_def)
    moreover have "ht_inv H h1 (t\<lparr>mKeysList := l1\<rparr>) ?es"
    proof -
      have sl: "slot_of H (t\<lparr>mKeysList := l1\<rparr>) = slot_of H t" by (simp add: slot_of_def fun_eq_iff)
      have "grouped (map e_slot es)" using inv by (simp add: ht_inv_def)
      then have "grouped (map e_slot xs @ ?i # map e_slot (gs @ ys))" using ni by (simp add: es)
      from grouped_insert_same [OF this] have "grouped (map e_slot ?es)" using ni by simp
      moreover have "first_ptr (filter (\<lambda>e. e_slot e = j) ?es) None = first_ptr (filter (\<lambda>e. e_slot e = j) es) None" for j
        using es ni by simp
      moreover have "distinct (map e_key ?es)" using inv nk es by (auto simp: ht_inv_def)
      ultimately show ?thesis using inv r1 sl es by (auto simp: ht_inv_def)
    qed
    moreover have "entry_map ?es = (entry_map es)(key \<mapsto> v)"
      using entry_map_insert [of "(brk h, ?m)" "xs @ [(a, n)]" "gs @ ys"] nk es by simp
    ultimately show ?thesis by auto
  qed
qed

lemma ht_insert_old:
  assumes inv: "ht_inv H h t es" and k: "entry_map es key = Some w"
  shows "\<exists>a n. ht_insert H (=) key v h t = Some ((False, Some a), h, t)
           \<and> it_deref h (Some a) = Some n \<and> pt_first n = key \<and> pt_second n = w
           \<and> filter (\<lambda>e. e_key e = key) es = [(a, n)]"
proof -
  obtain xs a n ys where es: "es = xs @ (a, n) # ys" and n: "pt_first n = key" "pt_second n = w"
    and f: "filter (\<lambda>e. e_key e = key) es = [(a, n)]" and d: "it_deref h (Some a) = Some n"
    using entry_found [OF inv k] by blast
  let ?g = "filter (\<lambda>e. e_slot e = slot_of H t key) es"
  have "(a, n) \<in> set ?g" using es n ht_inv_slot [OF inv, of "(a, n)"] by simp
  then obtain b m gs where g: "?g = (b, m) # gs" by (cases ?g) auto
  have "ht_insert H (=) key v h t = Some ((False, Some a), h, t)"
    using ht_inv_getTableIterator [OF inv] ht_inv_table_at [OF inv] ht_lookupKeyInKeyList_run [OF inv refl, of key] f g
    by (simp add: ht_insert_def ll_cend_def Let_def)
  then show ?thesis using n f d by blast
qed

section \<open>Removal\<close>

lemma grouped_tail: "grouped (xs @ ys) \<Longrightarrow> grouped ys"
  by (induction xs) auto

lemma ht_inv_removed:
  assumes inv: "ht_inv H h t (xs @ (a, n) # ys)" and r: "ll_repr h' l' (xs @ ys)"
    and i: "i = tableIterator n"
  shows "ht_inv H h' \<lparr>mTable = (mTable t)[i := first_ptr (filter (\<lambda>e. e_slot e = i) (xs @ ys)) None], mKeysList = l'\<rparr> (xs @ ys)"
proof -
  let ?t = "\<lparr>mTable = (mTable t)[i := first_ptr (filter (\<lambda>e. e_slot e = i) (xs @ ys)) None], mKeysList = l'\<rparr>"
  have sl: "slot_of H ?t = slot_of H t" by (simp add: slot_of_def fun_eq_iff)
  have "grouped (map e_slot xs @ e_slot (a, n) # map e_slot ys)" using ht_inv_grouped [OF inv] by simp
  then have g: "grouped (map e_slot (xs @ ys))" using grouped_remove by fastforce
  have "mTable ?t ! j = first_ptr (filter (\<lambda>e. e_slot e = j) (xs @ ys)) None" if "j < length (mTable t)" for j
  proof (cases "j = i")
    case False
    then have "filter (\<lambda>e. e_slot e = j) (xs @ ys) = filter (\<lambda>e. e_slot e = j) (xs @ (a, n) # ys)" using i by simp
    then show ?thesis using inv that False by (simp add: ht_inv_def)
  qed (use that in simp)
  moreover have "\<forall>e \<in> set (xs @ ys). e_slot e = slot_of H t (e_key e)"
    using ht_inv_slot [OF inv] by (simp only: set_append set_simps) blast
  moreover have "distinct (map e_key (xs @ (a, n) # ys))" using inv by (simp only: ht_inv_def)
  then have "distinct (map e_key (xs @ ys))" by simp
  moreover have "0 < length (mTable t) \<and> length (mTable t) < 2 ^ 64" using inv by (simp only: ht_inv_def)
  ultimately show ?thesis using r g unfolding ht_inv_def sl by simp
qed

lemma ht_erase_run:
  assumes inv: "ht_inv H h t (xs @ (a, n) # ys)"
  shows "\<exists>h' t'. ht_erase (Some a) h t
             = Some (if ys = [] then last_ptr xs None else first_ptr ys None, h', t')
           \<and> ht_inv H h' t' (xs @ ys) \<and> cells h' a = None \<and> length (mTable t') = length (mTable t)"
proof -
  let ?i = "tableIterator n"
  let ?ret = "if ys = [] then last_ptr xs None else first_ptr ys None"
  let ?f = "filter (\<lambda>e. e_slot e = ?i)"
  note r = ht_inv_repr [OF inv]
  have i: "?i = slot_of H t (pt_first n)" using ht_inv_slot [OF inv, of "(a, n)"] by simp
  have il: "?i < length (mTable t)" using ht_inv_slot_less [OF inv] i by simp
  have at: "table_at t ?i = Some (first_ptr (?f xs) (Some a))"
    using ht_inv_table_at [OF inv, of "pt_first n"] i by simp
  have ta: "mTable t ! ?i = first_ptr (?f xs) (Some a)" using at il by (simp add: table_at_def)
  have d: "it_deref h (Some a) = Some n" using ll_repr_deref [OF r] by simp
  obtain h1 l1 where er: "ll_erase (Some a) h (mKeysList t) = Some (?ret, h1, l1)"
    and r1: "ll_repr h1 l1 (xs @ ys)" and fr: "cells h1 a = None"
    using ll_erase_repr [OF r] by blast
  have na: "a \<notin> fst ` set xs" using ll_repr_distinct [OF r] by auto
  have first: "first_ptr (?f xs) (Some a) = Some a \<longleftrightarrow> ?f xs = []"
    using na by (intro first_ptr_first_iff) auto
  let ?t = "\<lparr>mTable = (mTable t)[?i := first_ptr (?f (xs @ ys)) None], mKeysList = l1\<rparr>"
  have "ht_erase (Some a) h t = Some (?ret, h1, ?t)"
  proof (cases "?f xs = []")
    case False
    then have "first_ptr (?f xs) (Some a) = first_ptr (?f (xs @ ys)) None" by (cases "?f xs") auto
    then have "(mTable t)[?i := first_ptr (?f (xs @ ys)) None] = mTable t" using ta by (metis list_update_id)
    then show ?thesis using False first d at er by (simp add: ht_erase_def Let_def)
  next
    case True
    have up: "ht_updateEraseFirst h1 (t\<lparr>mKeysList := l1\<rparr>) ?i ?ret = Some ?t"
    proof (cases ys)
      case (Cons e zs)
      obtain b m where e: "e = (b, m)" by (cases e)
      have db: "it_deref h1 (Some b) = Some m" using ll_repr_deref [OF r1] Cons e by simp
      show ?thesis
      proof (cases "tableIterator m = ?i")
        case True
        then show ?thesis using \<open>?f xs = []\<close> db Cons e il
          by (simp add: ht_updateEraseFirst_def ll_cend_def table_set_def)
      next
        case False
        have "grouped (map e_slot ((a, n) # ys))"
          using ht_inv_grouped [OF inv] grouped_tail by (metis map_append)
        then have "?i \<notin> e_slot ` set ys" using False Cons e by simp
        then have "?f ys = []" by (metis (mono_tags, lifting) filter_empty_conv imageI)
        then show ?thesis using False \<open>?f xs = []\<close> db Cons e il
          by (simp add: ht_updateEraseFirst_def ll_cend_def table_set_def)
      qed
    next
      case Nil
      show ?thesis
      proof (cases xs rule: rev_cases)
        case Nil
        then show ?thesis using \<open>ys = []\<close> il by (simp add: ht_updateEraseFirst_def ll_cend_def table_set_def)
      next
        case (snoc ws e)
        have "it_deref h1 (Some (fst e)) = Some (snd e)" using ll_repr_deref [OF r1] snoc by simp
        moreover have "e_slot e \<noteq> ?i" using True snoc by (auto split: if_splits)
        ultimately show ?thesis using True \<open>ys = []\<close> snoc il
          by (simp add: ht_updateEraseFirst_def ll_cend_def table_set_def)
      qed
    qed
    show ?thesis using True first d at er up by (simp add: ht_erase_def Let_def)
  qed
  then show ?thesis using ht_inv_removed [OF inv r1 refl] fr by auto
qed

lemma ht_erase_key_run:
  assumes inv: "ht_inv H h t es"
  shows "\<exists>it h' t' es'. ht_erase_key H (=) key h t = Some (it, h', t')
           \<and> ht_inv H h' t' es' \<and> entry_map es' = (entry_map es)(key := None)"
proof (cases "entry_map es key")
  case None
  then show ?thesis using ht_find_run [OF inv, of key] inv
    by (auto simp: ht_erase_key_def ll_cend_def entry_map_None fun_upd_idem)
next
  case (Some v)
  obtain xs a n ys where es: "es = xs @ (a, n) # ys" and n: "pt_first n = key"
    and f: "filter (\<lambda>e. e_key e = key) es = [(a, n)]"
    using entry_found [OF inv Some] by blast
  have inv': "ht_inv H h t (xs @ (a, n) # ys)" using inv es by simp
  obtain h' t' where e: "ht_erase (Some a) h t = Some (if ys = [] then last_ptr xs None else first_ptr ys None, h', t')"
    and i: "ht_inv H h' t' (xs @ ys)" using ht_erase_run [OF inv'] by blast
  have "distinct (map e_key (xs @ (a, n) # ys))" using inv' by (simp add: ht_inv_def)
  then have "entry_map (xs @ ys) = (entry_map es)(key := None)"
    using entry_map_remove [of xs "(a, n)" ys] es n by simp
  then show ?thesis using ht_find_run [OF inv, of key] f e i
    by (auto simp: ht_erase_key_def ll_cend_def)
qed

section \<open>Assignment and construction\<close>

lemma entry_map_assign:
  "distinct (map e_key (xs @ (a, n) # ys)) \<Longrightarrow>
     entry_map (xs @ (a, n\<lparr>pt_second := v\<rparr>) # ys) = (entry_map (xs @ (a, n) # ys))(pt_first n \<mapsto> v)"
  using entry_map_insert [of "(a, n)" xs ys] entry_map_insert [of "(a, n\<lparr>pt_second := v\<rparr>)" xs ys]
  by (simp add: image_Un)

lemma ht_inv_assign:
  assumes inv: "ht_inv H h t (xs @ (a, n) # ys)"
  shows "\<exists>h'. it_assign h (Some a) (n\<lparr>pt_second := v\<rparr>) = Some h' \<and> ht_inv H h' t (xs @ (a, n\<lparr>pt_second := v\<rparr>) # ys)"
proof -
  let ?es = "xs @ (a, n) # ys" and ?es' = "xs @ (a, n\<lparr>pt_second := v\<rparr>) # ys"
  obtain h' where h': "it_assign h (Some a) (n\<lparr>pt_second := v\<rparr>) = Some h'" and r: "ll_repr h' (mKeysList t) ?es'"
    using ll_repr_write [OF ht_inv_repr [OF inv]] by blast
  have "first_ptr (filter (\<lambda>e. e_slot e = j) ?es') None = first_ptr (filter (\<lambda>e. e_slot e = j) ?es) None" for j
    by simp
  moreover have "map e_slot ?es' = map e_slot ?es" "map e_key ?es' = map e_key ?es" by simp_all
  moreover have "\<forall>e \<in> set ?es'. e_slot e = slot_of H t (e_key e)" 
    using ht_inv_slot [OF inv] ht_inv_slot [OF inv, of "(a, n)"] by auto
  ultimately have "ht_inv H h' t ?es'" using inv r unfolding ht_inv_def by metis
  then show ?thesis using h' by blast
qed

lemma ht_insertOrAssign_run:
  assumes inv: "ht_inv H h t es"
  shows "\<exists>it h' t' es'. ht_insertOrAssign H (=) key v h t = Some (it, h', t')
           \<and> ht_inv H h' t' es' \<and> entry_map es' = (entry_map es)(key \<mapsto> v)"
proof (cases "entry_map es key")
  case None
  then show ?thesis using ht_insert_new [OF inv None, of v] by (auto simp: ht_insertOrAssign_def)
next
  case (Some w)
  obtain a n where ins: "ht_insert H (=) key v h t = Some ((False, Some a), h, t)"
    and d: "it_deref h (Some a) = Some n" and k: "pt_first n = key" and f: "filter (\<lambda>e. e_key e = key) es = [(a, n)]"
    using ht_insert_old [OF inv Some] by blast
  have "(a, n) \<in> set es" using f by (metis filter_eq_Cons_iff in_set_conv_decomp)
  then obtain xs ys where es: "es = xs @ (a, n) # ys" by (meson split_list)
  obtain h' where "it_assign h (Some a) (n\<lparr>pt_second := v\<rparr>) = Some h'"
    and "ht_inv H h' t (xs @ (a, n\<lparr>pt_second := v\<rparr>) # ys)"
    using ht_inv_assign [of H h t xs a n ys v] inv es by auto
  moreover have "distinct (map e_key (xs @ (a, n) # ys))" using inv es by (simp only: ht_inv_def)
  ultimately show ?thesis using ins d es k entry_map_assign [of xs a n ys v]
    by (auto simp: ht_insertOrAssign_def)
qed

text \<open>\<open>operator[]\<close>: the result is the iterator of the key's entry, which is new if there was none.\<close>

lemma ht_subscript_run:
  assumes inv: "ht_inv H h t es"
  shows "\<exists>a n h' t' xs ys. ht_subscript H (=) d key h t = Some (Some a, h', t')
           \<and> ht_inv H h' t' (xs @ (a, n) # ys) \<and> pt_first n = key
           \<and> entry_map (xs @ (a, n) # ys) = (entry_map es)(key \<mapsto> (case entry_map es key of None \<Rightarrow> d | Some w \<Rightarrow> w))"
proof (cases "entry_map es key")
  case None
  let ?n = "\<lparr>pt_first = key, pt_second = d, tableIterator = slot_of H t key\<rparr>"
  obtain h' t' es' where ins: "ht_insert H (=) key d h t = Some ((True, Some (brk h)), h', t')"
    and es': "ht_inv H h' t' es'" "entry_map es' = (entry_map es)(key \<mapsto> d)" "(brk h, ?n) \<in> set es'"
    using ht_insert_new [OF inv None, of d] by blast
  obtain xs ys where "es' = xs @ (brk h, ?n) # ys" using es'(3) by (meson split_list)
  then show ?thesis using ins es'(1,2) None
    by (intro exI [of _ "brk h"] exI [of _ ?n] exI [of _ h'] exI [of _ t'] exI [of _ xs] exI [of _ ys])
      (simp add: ht_subscript_def)
next
  case (Some w)
  obtain a n where ins: "ht_insert H (=) key d h t = Some ((False, Some a), h, t)"
    and n: "pt_first n = key" "filter (\<lambda>e. e_key e = key) es = [(a, n)]"
    using ht_insert_old [OF inv Some] by blast
  have "(a, n) \<in> set es" using n(2) by (metis filter_eq_Cons_iff in_set_conv_decomp)
  then obtain xs ys where "es = xs @ (a, n) # ys" by (meson split_list)
  then show ?thesis using ins n(1) Some inv
    by (intro exI [of _ a] exI [of _ n] exI [of _ h] exI [of _ t] exI [of _ xs] exI [of _ ys])
      (simp add: ht_subscript_def fun_upd_idem)
qed

lemma ht_construct_inv:
  assumes "heap_ok h" and "0 < n"
  shows "ht_inv H h (ht_construct n) []"
  using assms unsigned_less [of n] by (simp add: ht_inv_def ht_construct_def unat_gt_0 word_neq_0_conv)

section \<open>The table as a finite map\<close>

text \<open>
  The contract the clients of the table rely on: \<open>holds s m\<close> relates a state to a finite map, and
  the operations do to the state what the map operations do to the map, without failing.
\<close>

datatype ('k, 'v) map_cmd = Insert 'k 'v | Assign 'k 'v | Remove 'k

fun cmd_spec :: "('k, 'v) map_cmd \<Rightarrow> ('k \<Rightarrow> 'v option) \<Rightarrow> ('k \<Rightarrow> 'v option)" where
  "cmd_spec (Insert k v) m = (if m k = None then m(k \<mapsto> v) else m)"
| "cmd_spec (Assign k v) m = m(k \<mapsto> v)"
| "cmd_spec (Remove k) m = m(k := None)"

fun run_cmds :: "(('k, 'v) map_cmd \<Rightarrow> 's \<Rightarrow> 's option) \<Rightarrow> ('k, 'v) map_cmd list \<Rightarrow> 's \<Rightarrow> 's option" where
  "run_cmds step [] s = Some s"
| "run_cmds step (c # cs) s = Option.bind (step c s) (run_cmds step cs)"

locale finite_map =
  fixes holds :: "'s \<Rightarrow> ('k \<Rightarrow> 'v option) \<Rightarrow> bool"
    and step :: "('k, 'v) map_cmd \<Rightarrow> 's \<Rightarrow> 's option"
    and look :: "'k \<Rightarrow> 's \<Rightarrow> 'v option option"
    and count :: "'s \<Rightarrow> size_t"
  assumes step_law: "holds s m \<Longrightarrow> \<exists>s'. step c s = Some s' \<and> holds s' (cmd_spec c m)"
    and look_law: "holds s m \<Longrightarrow> look k s = Some (m k)"
    and count_law: "holds s m \<Longrightarrow> count s = of_nat (card (dom m))"
begin

lemma run_cmds_holds:
  "holds s m \<Longrightarrow> \<exists>s'. run_cmds step cs s = Some s' \<and> holds s' (fold cmd_spec cs m)"
proof (induction cs arbitrary: s m)
  case (Cons c cs)
  then obtain s1 where "step c s = Some s1" "holds s1 (cmd_spec c m)" using step_law by blast
  with Cons.IH show ?case by fastforce
qed simp

lemma run_cmds_observed:
  assumes "holds s m"
  shows "\<exists>s'. run_cmds step cs s = Some s' \<and> (\<forall>k. look k s' = Some (fold cmd_spec cs m k))
           \<and> count s' = of_nat (card (dom (fold cmd_spec cs m)))"
  using run_cmds_holds [OF assms, of cs] look_law count_law by blast

lemma assign_look:
  assumes "holds s m" and "step (Assign k v) s = Some s'"
  shows "look k s' = Some (Some v) \<and> (k' \<noteq> k \<longrightarrow> look k' s' = look k' s)"
  using step_law [OF assms(1), of "Assign k v"] assms look_law by auto

lemma remove_look:
  assumes "holds s m" and "step (Remove k) s = Some s'"
  shows "look k s' = Some None \<and> (k' \<noteq> k \<longrightarrow> look k' s' = look k' s)"
  using step_law [OF assms(1), of "Remove k"] assms look_law by auto

end

type_synonym ('k, 't) ht_state = "('k, 't) ht_heap \<times> hash_table"

definition ht_holds :: "('k \<Rightarrow> size_t) \<Rightarrow> ('k, 't) ht_state \<Rightarrow> ('k \<Rightarrow> 't option) \<Rightarrow> bool" where
  "ht_holds H s m \<longleftrightarrow> (\<exists>es. ht_inv H (fst s) (snd s) es \<and> entry_map es = m)"

fun ht_step ::
  "('k \<Rightarrow> size_t) \<Rightarrow> ('k, 't) map_cmd \<Rightarrow> ('k, 't) ht_state \<Rightarrow> ('k, 't) ht_state option" where
  "ht_step H (Insert k v) s = map_option snd (ht_insert H (=) k v (fst s) (snd s))"
| "ht_step H (Assign k v) s = map_option snd (ht_insertOrAssign H (=) k v (fst s) (snd s))"
| "ht_step H (Remove k) s = map_option snd (ht_erase_key H (=) k (fst s) (snd s))"

text \<open>Looking a key up as the clients do: \<open>find\<close>, the test against \<open>end ()\<close>, then \<open>second\<close>.\<close>

definition ht_look :: "('k \<Rightarrow> size_t) \<Rightarrow> 'k \<Rightarrow> ('k, 't) ht_state \<Rightarrow> 't option option" where
  "ht_look H k s = do {
     it \<leftarrow> ht_find H (=) k (fst s) (snd s);
     (if it = ll_cend then Some None
      else map_option (\<lambda>n. Some (pt_second n)) (it_deref (fst s) it))
   }"

lemma ht_step_law:
  assumes "ht_holds H s m"
  shows "\<exists>s'. ht_step H c s = Some s' \<and> ht_holds H s' (cmd_spec c m)"
proof -
  obtain es where inv: "ht_inv H (fst s) (snd s) es" and m: "entry_map es = m"
    using assms by (auto simp: ht_holds_def)
  have intro: "ht_holds H (h', t') m'" if "ht_inv H h' t' es'" "entry_map es' = m'" for h' t' es' m'
    using that by (auto simp: ht_holds_def)
  show ?thesis
  proof (cases c)
    case (Insert k v)
    show ?thesis
    proof (cases "m k")
      case None
      then have "entry_map es k = None" using m by simp
      from ht_insert_new [OF inv this, of v] show ?thesis using Insert None m intro by force
    next
      case (Some w)
      then have "entry_map es k = Some w" using m by simp
      from ht_insert_old [OF inv this, of v] show ?thesis using Insert Some assms by (cases s) auto
    qed
  next
    case (Assign k v)
    from ht_insertOrAssign_run [OF inv, of k v] show ?thesis using Assign m intro by force
  next
    case (Remove k)
    from ht_erase_key_run [OF inv, of k] show ?thesis using Remove m intro by force
  qed
qed

lemma ht_look_law:
  assumes "ht_holds H s m"
  shows "ht_look H k s = Some (m k)"
proof -
  obtain es where inv: "ht_inv H (fst s) (snd s) es" and m: "entry_map es = m"
    using assms by (auto simp: ht_holds_def)
  show ?thesis
  proof (cases "m k")
    case None
    then show ?thesis using ht_find_run [OF inv, of k] entry_map_None [of es k] m
      by (simp add: ht_look_def ll_cend_def)
  next
    case (Some v)
    then show ?thesis using ht_find_run [OF inv, of k] entry_found [OF inv, of k v] m
      by (auto simp: ht_look_def ll_cend_def)
  qed
qed

interpretation ht: finite_map "ht_holds H" "ht_step H" "ht_look H" "\<lambda>s. ht_size (snd s)"
  for H :: "'k \<Rightarrow> size_t"
proof unfold_locales
  fix s :: "('k, 't) ht_state" and m :: "'k \<Rightarrow> 't option" and c k
  assume holds: "ht_holds H s m"
  show "\<exists>s'. ht_step H c s = Some s' \<and> ht_holds H s' (cmd_spec c m)" using ht_step_law [OF holds] .
  show "ht_look H k s = Some (m k)" using ht_look_law [OF holds] .
  show "ht_size (snd s) = of_nat (card (dom m))"
    using holds ht_size_run entry_map_card by (fastforce simp: ht_holds_def)
qed

section \<open>Erasing a range\<close>

text \<open>
  A table with two entries in two slots. The scan clears the slot of the first entry when it meets
  the second one, and does not look at that entry itself: its slot keeps the iterator of a node
  that \<open>mKeysList.erase\<close> deletes.
\<close>

lemma ht_erase_range_two:
  assumes inv: "ht_inv H h t [(a, n), (b, m)]" and ne: "tableIterator n \<noteq> tableIterator m"
  shows "\<exists>h' t'. ht_erase_range (Some a) ll_cend h t = Some (h', t')
           \<and> ht_isEmpty t' \<and> table_at t' (tableIterator m) = Some (Some b) \<and> cells h' b = None
           \<and> ht_find H (=) (pt_first m) h' t' = None"
proof -
  note r = ht_inv_repr [OF inv]
  have d: "it_deref h (Some a) = Some n" "it_deref h (Some b) = Some m"
    using ll_repr_deref [OF r] by simp_all
  have nx: "it_next h (Some a) = Some (Some b)" "it_next h (Some b) = Some None"
    using ll_repr_next [of h _ "[]" a n "[(b, m)]"] ll_repr_next [of h _ "[(a, n)]" b m "[]"] r by auto
  have sl: "tableIterator n = slot_of H t (pt_first n)" "tableIterator m = slot_of H t (pt_first m)"
    using ht_inv_slot [OF inv, of "(a, n)"] ht_inv_slot [OF inv, of "(b, m)"] by simp_all
  have tn: "table_at t (tableIterator n) = Some (Some a)" "table_at t (tableIterator m) = Some (Some b)"
    using ht_inv_table_at [OF inv] sl ne by simp_all
  have len: "tableIterator n < length (mTable t)" "tableIterator m < length (mTable t)"
    using ht_inv_slot_less [OF inv] sl by simp_all
  let ?t = "t\<lparr>mTable := (mTable t)[tableIterator n := None]\<rparr>"
  have s1: "ht_erase_scan h None None ?t None = Some (?t, None)"
    by (subst ht_erase_scan.simps) simp
  have s2: "ht_erase_scan h (Some b) None t (Some (tableIterator n)) = Some (?t, None)"
    using d nx ne len s1 by (subst ht_erase_scan.simps) (simp add: table_set_def ll_cend_def Let_def)
  have s3: "ht_erase_scan h (Some a) None t None = Some (?t, None)"
    using d nx tn s2 by (subst ht_erase_scan.simps) (simp add: Let_def)
  let ?h = "erased h {a, b}" and ?l = "(mKeysList t)\<lparr>mSize := 0, mBegin := None, mBeforeEnd := None\<rparr>"
  have mb: "mBegin (mKeysList t) = Some a" using ll_repr_begin [OF r] by simp
  have run: "ht_erase_range (Some a) ll_cend h t = Some (?h, ?t\<lparr>mKeysList := ?l\<rparr>)"
    using s3 ll_erase_range_all [OF r] mb by (simp add: ht_erase_range_def ll_cend_def insert_commute)
  have "table_at (?t\<lparr>mKeysList := ?l\<rparr>) (tableIterator m) = Some (Some b)"
    using tn ne len by (simp add: table_at_def)
  moreover have "ht_find H (=) (pt_first m) ?h (?t\<lparr>mKeysList := ?l\<rparr>) = None"
    using calculation ht_inv_getTableIterator [OF inv] sl ht_inv_slot_less [OF inv]
    by (auto simp: ht_find_def ht_getTableEntry_def ht_getTableIterator_def slot_of_def
        ht_lookupKeyInKeyList_def ll_cend_def it_deref_def split: if_splits)
  ultimately show ?thesis using run by (auto simp: ht_isEmpty_def ht_size_def)
qed

section \<open>Properties\<close>

definition sample_hash :: "nat \<Rightarrow> size_t" where
  "sample_hash k = of_nat k"

definition sample_table_heap :: "(nat, nat) ht_heap" where
  "sample_table_heap =
     \<lparr>cells = [0 \<mapsto> \<lparr>nd_data = \<lparr>pt_first = 5, pt_second = 50, tableIterator = 1\<rparr>, nd_previous = None, nd_next = Some 1\<rparr>,
               1 \<mapsto> \<lparr>nd_data = \<lparr>pt_first = 6, pt_second = 60, tableIterator = 2\<rparr>, nd_previous = Some 0, nd_next = None\<rparr>],
      brk = 2\<rparr>"

definition sample_table :: hash_table where
  "sample_table = \<lparr>mTable = [None, Some 0, Some 1, None],
                   mKeysList = \<lparr>mBegin = Some 0, mBeforeEnd = Some 1, mSize = 2\<rparr>\<rparr>"

abbreviation sample_entries :: "(nat, nat) entries" where
  "sample_entries \<equiv> [(0, \<lparr>pt_first = 5, pt_second = 50, tableIterator = 1\<rparr>),
                     (1, \<lparr>pt_first = 6, pt_second = 60, tableIterator = 2\<rparr>)]"

lemma sample_table_inv: "ht_inv sample_hash sample_table_heap sample_table sample_entries"
proof -
  have "ll_repr sample_table_heap (mKeysList sample_table) sample_entries"
    by (auto simp: ll_repr_def sample_table_heap_def sample_table_def heap_ok_def split: if_splits)
  moreover have "(\<forall>i < length (mTable sample_table). mTable sample_table ! i
      = first_ptr (filter (\<lambda>e. e_slot e = i) sample_entries) None)"
    by (auto simp: sample_table_def less_Suc_eq numeral_eq_Suc)
  moreover have "(5::size_t) mod 4 = 1" "(6::size_t) mod 4 = 2" by simp_all
  ultimately show ?thesis
    by (simp add: ht_inv_def sample_table_def slot_of_def sample_hash_def)
qed

text \<open>
  C1: the hash table refines a finite map. On a table constructed with any positive size, every
  sequence of \<open>insert\<close>, \<open>insertOrAssign\<close> and \<open>erase (key)\<close> runs without an invalid access, with any
  hash function (colliding keys included); afterwards \<open>find\<close> gives for every key exactly the value
  the map has, and \<open>size\<close> is the number of keys.
\<close>

theorem hash_table_refines_map:
  assumes "0 < n"
  shows "\<exists>s. run_cmds (ht_step H) cs (empty_heap, ht_construct n) = Some s
           \<and> (\<forall>k. ht_look H k s = Some (fold cmd_spec cs (\<lambda>_. None) k))
           \<and> ht_size (snd s) = of_nat (card (dom (fold cmd_spec cs (\<lambda>_. None))))"
proof (rule ht.run_cmds_observed)
  have "ht_inv H (empty_heap :: ('a, 'b) ht_heap) (ht_construct n) []"
    using ht_construct_inv [OF heap_ok_empty assms] .
  then show "ht_holds H (empty_heap :: ('a, 'b) ht_heap, ht_construct n) (\<lambda>_. None)"
    by (auto simp: ht_holds_def entry_map_def)
qed

lemma hash_table_refines_map_witness:
  "\<exists>s. run_cmds (ht_step sample_hash) [Insert 1 10, Insert 5 50, Assign 1 (11::nat), Remove 5, Insert 9 90]
          (empty_heap, ht_construct 4) = Some s
     \<and> ht_look sample_hash 1 s = Some (Some 11) \<and> ht_look sample_hash 5 s = Some None
     \<and> ht_look sample_hash 9 s = Some (Some 90)"
  using hash_table_refines_map [of 4 sample_hash "[Insert 1 10, Insert 5 50, Assign 1 (11::nat), Remove 5, Insert 9 90]"]
  by auto

text \<open>
  \<open>insert\<close> keeps the table's invariant and reports what it did: for a new key it returns
  \<open>true\<close> with the new entry's iterator and the map gets the binding; for a key that exists it
  returns \<open>false\<close> with the iterator of the entry that has the key, and changes nothing.
\<close>

theorem hash_table_insert:
  assumes "ht_inv H h t es"
  shows "case entry_map es key of
      None \<Rightarrow> \<exists>it h' t' es'. ht_insert H (=) key v h t = Some ((True, it), h', t')
                \<and> ht_inv H h' t' es' \<and> entry_map es' = (entry_map es)(key \<mapsto> v)
    | Some w \<Rightarrow> \<exists>it n. ht_insert H (=) key v h t = Some ((False, it), h, t)
                \<and> it_deref h it = Some n \<and> pt_first n = key \<and> pt_second n = w"
proof (cases "entry_map es key")
  case None
  then show ?thesis using ht_insert_new [OF assms None, of v] by auto
next
  case (Some w)
  then show ?thesis using ht_insert_old [OF assms Some, of v] by auto
qed

lemma hash_table_insert_witness:
  "\<exists>it h' t' es'. ht_insert sample_hash (=) 9 90 sample_table_heap sample_table = Some ((True, it), h', t')
     \<and> ht_inv sample_hash h' t' es' \<and> entry_map es' = [5 \<mapsto> 50, 6 \<mapsto> 60, 9 \<mapsto> 90]"
  using hash_table_insert [OF sample_table_inv, of 9 90] by (simp add: entry_map_def fun_upd_twist)

text \<open>
  C30: \<open>erase (iterator)\<close> removes exactly that entry, deletes its node and keeps the invariant (the
  table entry of its slot moves to the next entry of the slot or is cleared). What it returns is
  \<open>++iterator\<close>, as documented, unless the entry is the last one of the list: then it returns the
  iterator of the entry before it instead of \<open>end ()\<close>.
\<close>

theorem hash_table_erase:
  assumes "ht_inv H h t (xs @ (a, n) # ys)"
  shows "\<exists>h' t'. ht_erase (Some a) h t
             = Some (if ys = [] then last_ptr xs None else first_ptr ys None, h', t')
           \<and> ht_inv H h' t' (xs @ ys) \<and> cells h' a = None
           \<and> entry_map (xs @ ys) = (entry_map (xs @ (a, n) # ys))(pt_first n := None)"
proof -
  have "distinct (map e_key (xs @ (a, n) # ys))" using assms by (simp only: ht_inv_def)
  from entry_map_remove [OF this] show ?thesis using ht_erase_run [OF assms] by auto
qed

lemma hash_table_erase_witness:
  "\<exists>h' t'. ht_erase (Some 1) sample_table_heap sample_table = Some (Some 0, h', t')
     \<and> ht_inv sample_hash h' t' [(0, \<lparr>pt_first = 5, pt_second = 50, tableIterator = 1\<rparr>)]"
  using hash_table_erase [of sample_hash sample_table_heap sample_table
      "[(0, \<lparr>pt_first = 5, pt_second = 50, tableIterator = 1\<rparr>)]" 1
      "\<lparr>pt_first = 6, pt_second = 60, tableIterator = 2\<rparr>" "[]"] sample_table_inv by auto

text \<open>
  \<open>erase (begin, end)\<close> of a table that holds two entries of different slots empties the list,
  but leaves the second entry's slot pointing to its deleted node, so that the next \<open>find\<close> of that
  key dereferences a dangling pointer.
\<close>

theorem hash_table_erase_range_dangling:
  assumes "ht_inv H h t [(a, n), (b, m)]" and "tableIterator n \<noteq> tableIterator m"
  shows "\<exists>h' t'. ht_erase_range (Some a) ll_cend h t = Some (h', t') \<and> ht_isEmpty t'
           \<and> table_at t' (tableIterator m) = Some (Some b) \<and> cells h' b = None
           \<and> ht_find H (=) (pt_first m) h' t' = None"
  using ht_erase_range_two [OF assms] .

lemma hash_table_erase_range_dangling_witness:
  "\<exists>h' t'. ht_erase_range (Some 0) ll_cend sample_table_heap sample_table = Some (h', t')
     \<and> ht_isEmpty t' \<and> ht_find sample_hash (=) 6 h' t' = None"
  using hash_table_erase_range_dangling [OF sample_table_inv] by auto

end
