(* ===== verification/Vectors.thy ===== *)
theory Vectors
  imports ZqPrelude
begin

text \<open>
  Base/Vector.hpp with Base/Constructor.hpp and Base/Allocator.hpp: a buffer is a block of slots
  from the allocator, and the vector constructs and destructs its elements in place. A slot without
  a constructed object is \<open>Raw\<close>; destructing or reading a \<open>Raw\<close> slot, or touching a slot outside of
  the block, is undefined. A range of input iterators is the list of the values it yields (a range
  outside of the vector's own buffer). \<open>mv\<close> is the state in which moving leaves an element.
\<close>

section \<open>Buffers\<close>

datatype 'a slot = Raw | Live 'a

type_synonym 'a memory = "'a slot list heap"

text \<open>\<open>Allocator::allocate\<close>: \<open>n * sizeof(T)\<close> bytes, computed in 64 bits.\<close>

definition al_allocate :: "size_t \<Rightarrow> size_t \<Rightarrow> 'a memory \<Rightarrow> nat \<times> 'a memory" where
  "al_allocate sizeofT n m = new m (replicate (unat (n * sizeofT) div unat sizeofT) Raw)"

definition al_deallocate :: "ptr \<Rightarrow> 'a memory \<Rightarrow> 'a memory option" where
  "al_deallocate p m = free m p"

definition slot_at :: "'a memory \<Rightarrow> ptr \<Rightarrow> nat \<Rightarrow> 'a slot option" where
  "slot_at m p i = Option.bind (load m p) (\<lambda>b. if i < length b then Some (b ! i) else None)"

definition slot_put :: "'a memory \<Rightarrow> ptr \<Rightarrow> nat \<Rightarrow> 'a slot \<Rightarrow> 'a memory option" where
  "slot_put m p i s = do {
     _ \<leftarrow> slot_at m p i;
     modify m p (\<lambda>b. b[i := s])
   }"

definition slot_read :: "'a memory \<Rightarrow> ptr \<Rightarrow> nat \<Rightarrow> 'a option" where
  "slot_read m p i = Option.bind (slot_at m p i) (case_slot None Some)"

text \<open>\<open>Constructor::construct\<close> and \<open>destruct (pointer, n)\<close>, which goes backwards.\<close>

definition co_construct :: "'a memory \<Rightarrow> ptr \<Rightarrow> size_t \<Rightarrow> 'a \<Rightarrow> 'a memory option" where
  "co_construct m p i v = slot_put m p (unat i) (Live v)"

fun co_destruct :: "'a memory \<Rightarrow> ptr \<Rightarrow> nat \<Rightarrow> 'a memory option" where
  "co_destruct m p 0 = Some m"
| "co_destruct m p (Suc n) = do {
     _ \<leftarrow> slot_read m p n;
     m1 \<leftarrow> slot_put m p n Raw;
     co_destruct m1 p n
   }"

text \<open>
  \<open>constructN\<close>: \<open>new (pointer) T[n]{args...}\<close> initialises the first element from the argument (when
  there is one) and value-initialises (\<open>zero\<close>) the others.
\<close>

definition co_array :: "'a \<Rightarrow> 'a option \<Rightarrow> nat \<Rightarrow> 'a list" where
  "co_array zero arg n =
     (case (arg, n) of (Some v, Suc k) \<Rightarrow> v # replicate k zero | _ \<Rightarrow> replicate n zero)"

section \<open>The vector\<close>

record vector =
  mPointer :: ptr
  mSize :: size_t

definition vec_empty :: vector where
  "vec_empty = \<lparr>mPointer = nullptr, mSize = 0\<rparr>"

definition vec_deleteAll :: "ptr \<Rightarrow> size_t \<Rightarrow> 'a memory \<Rightarrow> 'a memory option" where
  "vec_deleteAll pointer sz m =
     (if sz = 0 then Some m
      else do {
        m1 \<leftarrow> co_destruct m pointer (unat sz);
        al_deallocate pointer m1
      })"

fun vec_insertToUninitilized ::
  "size_t \<Rightarrow> 'a list \<Rightarrow> ptr \<Rightarrow> 'a memory \<Rightarrow> 'a memory option" where
  "vec_insertToUninitilized i [] p m = Some m"
| "vec_insertToUninitilized i (x # xs) p m = do {
     m1 \<leftarrow> co_construct m p i x;
     vec_insertToUninitilized (i + 1) xs p m1
   }"

text \<open>
  \<open>moveOldBufferToNew\<close>: the first \<open>min (oldSize, newSize)\<close> elements are read through a move
  iterator (which leaves \<open>mv\<close> of them behind) and constructed in the new buffer.
\<close>

fun vec_moveLoop ::
  "('a \<Rightarrow> 'a) \<Rightarrow> nat \<Rightarrow> nat \<Rightarrow> ptr \<Rightarrow> ptr \<Rightarrow> 'a memory \<Rightarrow> 'a memory option" where
  "vec_moveLoop mv i 0 old p m = Some m"
| "vec_moveLoop mv i (Suc n) old p m = do {
     x \<leftarrow> slot_read m old i;
     m1 \<leftarrow> slot_put m old i (Live (mv x));
     m2 \<leftarrow> slot_put m1 p i (Live x);
     vec_moveLoop mv (Suc i) n old p m2
   }"

definition vec_resizeBuffer ::
  "('a \<Rightarrow> 'a) \<Rightarrow> size_t \<Rightarrow> size_t \<Rightarrow> 'a memory \<Rightarrow> vector \<Rightarrow> ('a memory \<times> vector) option" where
  "vec_resizeBuffer mv sizeofT newSize m v =
     (if mSize v = newSize then do {
        m1 \<leftarrow> co_destruct m (mPointer v) (unat (mSize v));
        Some (m1, v)
      }
      else do {
        let pointer = mPointer v;
        let pointerSize = mSize v;
        let (m1, v1) =
          (if newSize \<noteq> 0
           then (let (p, m1) = al_allocate sizeofT newSize m in (m1, \<lparr>mPointer = Some p, mSize = newSize\<rparr>))
           else (m, vec_empty));
        m3 \<leftarrow> (if pointerSize \<noteq> 0
               then do {
                 m2 \<leftarrow> vec_moveLoop mv 0 (unat (min pointerSize newSize)) pointer (mPointer v1) m1;
                 vec_deleteAll pointer pointerSize m2
               }
               else Some m1);
        Some (m3, v1)
      })"

definition vec_assign ::
  "('a \<Rightarrow> 'a) \<Rightarrow> size_t \<Rightarrow> 'a list \<Rightarrow> 'a memory \<Rightarrow> vector \<Rightarrow> ('a memory \<times> vector) option" where
  "vec_assign mv sizeofT xs m v = do {
     (m1, v1) \<leftarrow> vec_resizeBuffer mv sizeofT (of_nat (length xs)) m v;
     m2 \<leftarrow> vec_insertToUninitilized 0 xs (mPointer v1) m1;
     Some (m2, v1)
   }"

definition vec_resize ::
  "('a \<Rightarrow> 'a) \<Rightarrow> size_t \<Rightarrow> 'a \<Rightarrow> 'a option \<Rightarrow> size_t \<Rightarrow> 'a memory \<Rightarrow> vector \<Rightarrow> ('a memory \<times> vector) option" where
  "vec_resize mv sizeofT zero arg newSize m v =
     (if newSize = mSize v then Some (m, v)
      else if newSize = 0 then do {
        m1 \<leftarrow> vec_deleteAll (mPointer v) (mSize v) m;
        Some (m1, vec_empty)
      }
      else do {
        let oldSize = mSize v;
        (m1, v1) \<leftarrow> vec_resizeBuffer mv sizeofT newSize m v;
        m2 \<leftarrow> (if newSize > oldSize
               then vec_insertToUninitilized oldSize (co_array zero arg (unat (newSize - oldSize))) (mPointer v1) m1
               else Some m1);
        Some (m2, v1)
      })"

definition vec_shrinkWithoutFree :: "size_t \<Rightarrow> vector \<Rightarrow> vector" where
  "vec_shrinkWithoutFree howMuch v = v\<lparr>mSize := mSize v - howMuch\<rparr>"

definition vec_expand ::
  "('a \<Rightarrow> 'a) \<Rightarrow> size_t \<Rightarrow> 'a \<Rightarrow> 'a option \<Rightarrow> size_t \<Rightarrow> 'a memory \<Rightarrow> vector \<Rightarrow> ('a memory \<times> vector) option" where
  "vec_expand mv sizeofT zero arg n m v = vec_resize mv sizeofT zero arg (mSize v + n) m v"

definition vec_expand_range ::
  "('a \<Rightarrow> 'a) \<Rightarrow> size_t \<Rightarrow> 'a list \<Rightarrow> 'a memory \<Rightarrow> vector \<Rightarrow> ('a memory \<times> vector) option" where
  "vec_expand_range mv sizeofT xs m v = do {
     let oldSize = mSize v;
     (m1, v1) \<leftarrow> vec_resizeBuffer mv sizeofT (mSize v + of_nat (length xs)) m v;
     m2 \<leftarrow> vec_insertToUninitilized oldSize xs (mPointer v1) m1;
     Some (m2, v1)
   }"

text \<open>
  The copy constructor and the copy assignment: \<open>assign\<close> with the range of the other vector's
  elements, which are read from its buffer after \<open>resizeBuffer\<close>.
\<close>

fun vec_copyLoop :: "nat \<Rightarrow> nat \<Rightarrow> ptr \<Rightarrow> ptr \<Rightarrow> 'a memory \<Rightarrow> 'a memory option" where
  "vec_copyLoop i 0 src p m = Some m"
| "vec_copyLoop i (Suc n) src p m = do {
     x \<leftarrow> slot_read m src i;
     m1 \<leftarrow> slot_put m p i (Live x);
     vec_copyLoop (Suc i) n src p m1
   }"

definition vec_copy_assign ::
  "('a \<Rightarrow> 'a) \<Rightarrow> size_t \<Rightarrow> 'a memory \<Rightarrow> vector \<Rightarrow> vector \<Rightarrow> ('a memory \<times> vector) option" where
  "vec_copy_assign mv sizeofT m self other = do {
     (m1, v1) \<leftarrow> vec_resizeBuffer mv sizeofT (mSize other) m self;
     m2 \<leftarrow> vec_copyLoop 0 (unat (mSize other)) (mPointer other) (mPointer v1) m1;
     Some (m2, v1)
   }"

definition vec_copy_construct ::
  "('a \<Rightarrow> 'a) \<Rightarrow> size_t \<Rightarrow> 'a memory \<Rightarrow> vector \<Rightarrow> ('a memory \<times> vector) option" where
  "vec_copy_construct mv sizeofT m other = vec_copy_assign mv sizeofT m vec_empty other"

text \<open>\<open>operator[]\<close> and the destructor.\<close>

definition vec_at :: "'a memory \<Rightarrow> vector \<Rightarrow> size_t \<Rightarrow> 'a option" where
  "vec_at m v i = slot_read m (mPointer v) (unat i)"

definition vec_destroy :: "'a memory \<Rightarrow> vector \<Rightarrow> 'a memory option" where
  "vec_destroy m v = vec_deleteAll (mPointer v) (mSize v) m"

text \<open>Construction and assignment: move construction, swap, and the move assignment, which deletes
  the target's elements and then exchanges the members (those of the deleted buffer included).\<close>

definition vec_move_construct :: "vector \<Rightarrow> vector \<times> vector" where
  "vec_move_construct other = (\<lparr>mPointer = mPointer other, mSize = mSize other\<rparr>, vec_empty)"

definition vec_swap :: "vector \<Rightarrow> vector \<Rightarrow> vector \<times> vector" where
  "vec_swap self other =
     (\<lparr>mPointer = mPointer other, mSize = mSize other\<rparr>, \<lparr>mPointer = mPointer self, mSize = mSize self\<rparr>)"

definition vec_move_assign :: "'a memory \<Rightarrow> vector \<Rightarrow> vector \<Rightarrow> ('a memory \<times> vector \<times> vector) option" where
  "vec_move_assign m self other = do {
     m1 \<leftarrow> vec_deleteAll (mPointer self) (mSize self) m;
     let (self1, other1) = vec_swap self other;
     Some (m1, self1, other1)
   }"

section \<open>Blocks\<close>

definition set_block :: "'n heap \<Rightarrow> nat \<Rightarrow> 'n \<Rightarrow> 'n heap" where
  "set_block m p b = m\<lparr>cells := (cells m)(p \<mapsto> b)\<rparr>"

lemma set_block_simps [simp]:
  "cells (set_block m p b) q = (if q = p then Some b else cells m q)"
  "brk (set_block m p b) = brk m"
  "set_block (set_block m p b) p c = set_block m p c"
  by (simp_all add: set_block_def)

lemma set_block_same: "cells m p = Some b \<Longrightarrow> set_block m p b = m"
  by (cases m) (auto simp: set_block_def fun_upd_idem)

lemma heap_ok_set_block: "heap_ok m \<Longrightarrow> cells m p \<noteq> None \<Longrightarrow> heap_ok (set_block m p b)"
  by (auto simp: heap_ok_def)

lemma slot_at_block [simp]:
  "cells m p = Some b \<Longrightarrow> slot_at m (Some p) i = (if i < length b then Some (b ! i) else None)"
  by (simp add: slot_at_def)

lemma slot_put_block [simp]:
  "cells m p = Some b \<Longrightarrow> i < length b \<Longrightarrow> slot_put m (Some p) i s = Some (set_block m p (b[i := s]))"
  by (simp add: slot_put_def modify_Some set_block_def)

lemma slot_read_block [simp]:
  "cells m p = Some b \<Longrightarrow> slot_read m (Some p) i = (if i < length b then case_slot None Some (b ! i) else None)"
  by (simp add: slot_read_def)

lemma co_destruct_run:
  "cells m p = Some (map Live xs @ rest) \<Longrightarrow>
     co_destruct m (Some p) (length xs) = Some (set_block m p (replicate (length xs) Raw @ rest))"
proof (induction xs arbitrary: m rest rule: rev_induct)
  case (snoc x xs)
  let ?m = "set_block m p (map Live xs @ Raw # rest)"
  have "co_destruct ?m (Some p) (length xs) = Some (set_block ?m p (replicate (length xs) Raw @ Raw # rest))"
    by (rule snoc.IH) simp
  then show ?case using snoc.prems
    by (simp add: nth_append list_update_append replicate_app_Cons_same)
qed (simp add: set_block_same)

lemma co_destruct_raw:
  assumes "cells m p = Some (xs @ Raw # rest)"
  shows "co_destruct m (Some p) (Suc (length xs)) = None"
  using assms by (simp add: bind_None_iff)

lemma vec_insert_run:
  assumes "cells m p = Some (pre @ mid @ post)" and "length mid = length xs"
    and "unat i = length pre" and "length pre + length xs < 2 ^ 64"
  shows "vec_insertToUninitilized i xs (Some p) m = Some (set_block m p (pre @ map Live xs @ post))"
  using assms
proof (induction xs arbitrary: m i pre mid)
  case Nil
  then show ?case by (simp add: set_block_same)
next
  case (Cons x xs)
  obtain s mid' where mid: "mid = s # mid'" using Cons.prems(2) by (cases mid) auto
  let ?m = "set_block m p (pre @ Live x # mid' @ post)"
  have i1: "unat (i + 1) = length (pre @ [Live x])"
    using Cons.prems(3,4) by (simp add: unat_word_ariths)
  have "vec_insertToUninitilized (i + 1) xs (Some p) ?m
          = Some (set_block ?m p ((pre @ [Live x]) @ map Live xs @ post))"
    using Cons.prems mid by (intro Cons.IH [where mid = mid']) (simp_all add: i1)
  then show ?case using Cons.prems mid
    by (simp add: co_construct_def list_update_append)
qed

lemma vec_copyLoop_run:
  assumes "cells m src = Some (map Live (ys @ xs) @ rest)" and "cells m p = Some (map Live ys @ mid @ post)"
    and "length mid = length xs" and "src \<noteq> p"
  shows "vec_copyLoop (length ys) (length xs) (Some src) (Some p) m
           = Some (set_block m p (map Live (ys @ xs) @ post))"
  using assms
proof (induction xs arbitrary: m ys mid)
  case Nil
  then show ?case by (simp add: set_block_same)
next
  case (Cons x xs)
  obtain s mid' where mid: "mid = s # mid'" using Cons.prems(3) by (cases mid) auto
  let ?m = "set_block m p (map Live (ys @ [x]) @ mid' @ post)"
  have "vec_copyLoop (length (ys @ [x])) (length xs) (Some src) (Some p) ?m
          = Some (set_block ?m p (map Live ((ys @ [x]) @ xs) @ post))"
    using Cons.prems mid by (intro Cons.IH [where mid = mid']) simp_all
  then show ?case using Cons.prems mid
    by (simp add: nth_append list_update_append)
qed

lemma vec_moveLoop_run:
  assumes "cells m src = Some (map Live (map mv ys @ xs) @ rest)" and "cells m p = Some (map Live ys @ mid @ post)"
    and "length mid = length xs" and "src \<noteq> p"
  shows "vec_moveLoop mv (length ys) (length xs) (Some src) (Some p) m
           = Some (set_block (set_block m src (map Live (map mv (ys @ xs)) @ rest)) p (map Live (ys @ xs) @ post))"
  using assms
proof (induction xs arbitrary: m ys mid)
  case Nil
  then show ?case by (simp add: set_block_same)
next
  case (Cons x xs)
  obtain s mid' where mid: "mid = s # mid'" using Cons.prems(3) by (cases mid) auto
  let ?m = "set_block (set_block m src (map Live (map mv (ys @ [x]) @ xs) @ rest)) p (map Live (ys @ [x]) @ mid' @ post)"
  have "vec_moveLoop mv (length (ys @ [x])) (length xs) (Some src) (Some p) ?m
          = Some (set_block (set_block ?m src (map Live (map mv ((ys @ [x]) @ xs)) @ rest)) p (map Live ((ys @ [x]) @ xs) @ post))"
    using Cons.prems mid by (intro Cons.IH [where mid = mid']) simp_all
  moreover have "set_block (set_block ?m src b) p c = set_block (set_block m src b) p c" for b c
    using Cons.prems(4) by (simp add: set_block_def fun_upd_twist)
  ultimately show ?case using Cons.prems mid
    by (simp add: nth_append list_update_append)
qed

section \<open>The vector's contents\<close>

text \<open>
  \<open>vec_repr m v xs\<close>: the vector holds the elements \<open>xs\<close>; behind them its block may have more slots
  (after \<open>shrinkWithoutFree\<close>).
\<close>

definition vec_repr :: "'a memory \<Rightarrow> vector \<Rightarrow> 'a list \<Rightarrow> bool" where
  "vec_repr m v xs \<longleftrightarrow> heap_ok m \<and> unat (mSize v) = length xs
     \<and> (xs \<noteq> [] \<longrightarrow> (\<exists>p rest. mPointer v = Some p \<and> cells m p = Some (map Live xs @ rest)))"

lemma vec_repr_size: "vec_repr m v xs \<Longrightarrow> mSize v = of_nat (length xs)"
  by (rule eq_of_nat_unat) (simp add: vec_repr_def)

lemma vec_repr_length: "vec_repr m v xs \<Longrightarrow> length xs < 2 ^ 64"
  using unat_less_2p64 [of "mSize v"] by (simp add: vec_repr_def)

lemma vec_repr_empty [simp]: "heap_ok m \<Longrightarrow> vec_repr m vec_empty []"
  by (simp add: vec_repr_def vec_empty_def)

text \<open>An allocation of \<open>n\<close> elements that fits in the address space has \<open>n\<close> slots.\<close>

definition alloc_fits :: "size_t \<Rightarrow> nat \<Rightarrow> bool" where
  "alloc_fits sizeofT n \<longleftrightarrow> 0 < unat sizeofT \<and> n * unat sizeofT < 2 ^ 64"

lemma al_allocate_run:
  assumes "alloc_fits sizeofT n"
  shows "al_allocate sizeofT (of_nat n) m = new m (replicate n Raw)"
proof -
  have pos: "0 < unat sizeofT" and lt: "n * unat sizeofT < 2 ^ 64" using assms by (simp_all add: alloc_fits_def)
  have "unat (of_nat n * sizeofT) = n * unat sizeofT"
    using lt unat_of_nat_small [of "n * unat sizeofT"] by simp
  then show ?thesis using pos by (simp add: al_allocate_def)
qed

lemma vec_deleteAll_run:
  assumes "cells m p = Some (map Live xs @ rest)" and "unat sz = length xs" and "xs \<noteq> []"
  shows "vec_deleteAll (Some p) sz m = Some (m\<lparr>cells := (cells m)(p := None)\<rparr>)"
proof -
  have "sz \<noteq> 0" using assms(2,3) by auto
  then show ?thesis using co_destruct_run [OF assms(1)] assms(2)
    by (simp add: vec_deleteAll_def al_deallocate_def free_def set_block_def)
qed

text \<open>
  \<open>resizeBuffer\<close> to another size moves the elements that fit into a new buffer of the new size and
  deletes the old one; the slots behind them are \<open>Raw\<close>.
\<close>

definition grown :: "'a memory \<Rightarrow> vector \<Rightarrow> 'a list \<Rightarrow> nat \<Rightarrow> bool" where
  "grown m v xs n \<longleftrightarrow> heap_ok m \<and> unat (mSize v) = length xs + n
     \<and> (xs \<noteq> [] \<or> n \<noteq> 0 \<longrightarrow> (\<exists>p. mPointer v = Some p \<and> cells m p = Some (map Live xs @ replicate n Raw)))"

lemma vec_resizeBuffer_other:
  assumes r: "vec_repr m v xs" and ne: "n \<noteq> length xs" and fits: "alloc_fits sizeofT n"
  shows "\<exists>m' v'. vec_resizeBuffer mv sizeofT (of_nat n) m v = Some (m', v')
           \<and> grown m' v' (take n xs) (n - length xs)
           \<and> (\<forall>q. q < brk m \<longrightarrow> mPointer v \<noteq> Some q \<longrightarrow> cells m' q = cells m q) \<and> brk m \<le> brk m'"
proof -
  have hok: "heap_ok m" and sz: "unat (mSize v) = length xs" using r by (simp_all add: vec_repr_def)
  have nlt: "n < 2 ^ 64" using fits unfolding alloc_fits_def
    by (metis le_less_trans mult.right_neutral mult_le_mono2 Suc_leI One_nat_def)
  have un: "unat (of_nat n :: size_t) = n" using nlt by (rule unat_of_nat_small)
  have neq: "mSize v \<noteq> of_nat n" using sz ne un by auto
  have mn: "unat (min (mSize v) (of_nat n :: size_t)) = min (length xs) n"
    using sz un by (simp add: min_def word_le_nat_alt)
  have fresh: "cells m (brk m) = None" using hok by (rule heap_ok_brk)
  let ?m1 = "\<lparr>cells = (cells m)(brk m \<mapsto> replicate n Raw), brk = Suc (brk m)\<rparr>"
  have ok1: "heap_ok ?m1" using hok by (rule heap_ok_new)
  show ?thesis
  proof (cases "xs = []")
    case True
    then have "n \<noteq> 0" using ne by simp
    moreover have "(of_nat n :: size_t) \<noteq> 0" using un \<open>n \<noteq> 0\<close> by auto
    moreover have "mSize v = 0" using sz True by (simp add: unat_eq_0)
    ultimately have "vec_resizeBuffer mv sizeofT (of_nat n) m v = Some (?m1, \<lparr>mPointer = Some (brk m), mSize = of_nat n\<rparr>)"
      using neq al_allocate_run [OF fits, of m] by (simp add: vec_resizeBuffer_def new_def)
    then show ?thesis using True ok1 un by (auto simp: grown_def)
  next
    case False
    then obtain p rest where p: "mPointer v = Some p" and cp: "cells m p = Some (map Live xs @ rest)"
      using r by (auto simp: vec_repr_def)
    have pb: "p \<noteq> brk m" using fresh cp by auto
    have s0: "mSize v \<noteq> 0" using sz False by auto
    show ?thesis
    proof (cases "n = 0")
      case True
      have "vec_deleteAll (Some p) (mSize v) m = Some (m\<lparr>cells := (cells m)(p := None)\<rparr>)"
        using vec_deleteAll_run [OF cp sz False] .
      then have "vec_resizeBuffer mv sizeofT (of_nat n) m v = Some (m\<lparr>cells := (cells m)(p := None)\<rparr>, vec_empty)"
        using True s0 p by (simp add: vec_resizeBuffer_def Let_def)
      moreover have "heap_ok (m\<lparr>cells := (cells m)(p := None)\<rparr>)" using hok by (auto simp: heap_ok_def)
      ultimately show ?thesis using True p by (auto simp: grown_def vec_empty_def)
    next
      case n0: False
      have w0: "(of_nat n :: size_t) \<noteq> 0" using un n0 by auto
      let ?t = "take n xs" and ?d = "drop n xs"
      have c1: "cells ?m1 p = Some (map Live (map mv [] @ ?t) @ (map Live ?d @ rest))"
        using cp pb by (simp add: append_assoc [symmetric] flip: map_append)
      have c2: "cells ?m1 (brk m) = Some (map Live [] @ replicate (length ?t) Raw @ replicate (n - length xs) Raw)"
        by (simp add: min_def flip: replicate_add)
      let ?m2 = "set_block (set_block ?m1 p (map Live (map mv ?t) @ map Live ?d @ rest)) (brk m)
                   (map Live ?t @ replicate (n - length xs) Raw)"
      have mvd: "vec_moveLoop mv 0 (min (length xs) n) (Some p) (Some (brk m)) ?m1 = Some ?m2"
        using vec_moveLoop_run [OF c1 c2] pb by (simp add: min.commute)
      have cp2: "cells ?m2 p = Some (map Live (map mv ?t @ ?d) @ rest)" using pb by simp
      have szt: "unat (mSize v) = length (map mv ?t @ ?d)" using sz by simp
      have del: "vec_deleteAll (Some p) (mSize v) ?m2 = Some (?m2\<lparr>cells := (cells ?m2)(p := None)\<rparr>)"
        using False by (intro vec_deleteAll_run [OF cp2 szt]) auto
      have "vec_resizeBuffer mv sizeofT (of_nat n) m v
          = Some (?m2\<lparr>cells := (cells ?m2)(p := None)\<rparr>, \<lparr>mPointer = Some (brk m), mSize = of_nat n\<rparr>)"
        using neq w0 s0 p al_allocate_run [OF fits, of m] mn mvd del
        by (simp add: vec_resizeBuffer_def new_def)
      moreover have "heap_ok (?m2\<lparr>cells := (cells ?m2)(p := None)\<rparr>)"
        using ok1 by (auto simp: heap_ok_def)
      ultimately show ?thesis using p pb un n0 by (auto simp: grown_def min_def)
    qed
  qed
qed

lemma vec_resizeBuffer_same:
  assumes r: "vec_repr m v xs" and ne: "xs \<noteq> []"
  shows "\<exists>m' p rest. vec_resizeBuffer mv sizeofT (mSize v) m v = Some (m', v) \<and> heap_ok m'
           \<and> mPointer v = Some p \<and> cells m' p = Some (replicate (length xs) Raw @ rest)
           \<and> (\<forall>q. q \<noteq> p \<longrightarrow> cells m' q = cells m q)"
proof -
  obtain p rest where p: "mPointer v = Some p" "cells m p = Some (map Live xs @ rest)" "heap_ok m"
    "unat (mSize v) = length xs" using r ne by (auto simp: vec_repr_def)
  then show ?thesis using co_destruct_run [of m p xs rest]
    by (auto simp: vec_resizeBuffer_def heap_ok_set_block)
qed

lemma vec_fill:
  assumes "heap_ok m" and "cells m p = Some (map Live xs @ mid @ post)" and "length mid = length ys"
    and "mPointer v = Some p" and "unat (mSize v) = length xs + length ys" and "i = of_nat (length xs)"
  shows "\<exists>m'. vec_insertToUninitilized i ys (mPointer v) m = Some m' \<and> vec_repr m' v (xs @ ys)
           \<and> (\<forall>q. q \<noteq> p \<longrightarrow> cells m' q = cells m q)"
proof -
  have lt: "length xs + length ys < 2 ^ 64" using unat_less_2p64 [of "mSize v"] assms(5) by simp
  then have "unat i = length xs" using assms(6) by (simp add: unat_of_nat_small)
  then have "vec_insertToUninitilized i ys (Some p) m = Some (set_block m p (map Live xs @ map Live ys @ post))"
    using vec_insert_run [OF assms(2,3)] lt by simp
  then show ?thesis using assms by (auto simp: vec_repr_def heap_ok_set_block)
qed

lemma vec_grown_fill:
  assumes g: "grown m v xs (length ys)"
  shows "\<exists>m'. vec_insertToUninitilized (of_nat (length xs)) ys (mPointer v) m = Some m' \<and> vec_repr m' v (xs @ ys)"
proof (cases "xs = [] \<and> ys = []")
  case True
  then show ?thesis using g by (simp add: grown_def vec_repr_def)
next
  case False
  then obtain p where p: "heap_ok m" "mPointer v = Some p" "cells m p = Some (map Live xs @ replicate (length ys) Raw @ [])"
    "unat (mSize v) = length xs + length ys" using g by (auto simp: grown_def)
  from vec_fill [OF p(1,3) _ p(2,4) refl] show ?thesis by auto
qed

lemma alloc_fits_less: "alloc_fits sizeofT n \<Longrightarrow> n < 2 ^ 64"
  unfolding alloc_fits_def
  by (metis le_less_trans mult.right_neutral mult_le_mono2 Suc_leI One_nat_def)

lemma vec_expand_range_repr:
  assumes r: "vec_repr m v xs" and ne: "ys \<noteq> []" and fits: "alloc_fits sizeofT (length xs + length ys)"
  shows "\<exists>m' v'. vec_expand_range mv sizeofT ys m v = Some (m', v') \<and> vec_repr m' v' (xs @ ys)"
proof -
  have sz: "mSize v + of_nat (length ys) = of_nat (length xs + length ys)" using vec_repr_size [OF r] by simp
  have neq: "length xs + length ys \<noteq> length xs" using ne by simp
  obtain m1 v1 where rb: "vec_resizeBuffer mv sizeofT (of_nat (length xs + length ys)) m v = Some (m1, v1)"
    and g: "grown m1 v1 xs (length ys)"
    using vec_resizeBuffer_other [OF r neq fits, of mv] by auto
  from vec_grown_fill [OF g] show ?thesis
    using rb sz vec_repr_size [OF r] by (auto simp: vec_expand_range_def Let_def)
qed

lemma vec_expand_range_nothing:
  assumes r: "vec_repr m v xs" and i: "i < length xs"
  shows "\<exists>m'. vec_expand_range mv sizeofT [] m v = Some (m', v) \<and> vec_at m' v (of_nat i) = None"
proof -
  have "xs \<noteq> []" using i by auto
  from vec_resizeBuffer_same [OF r this, of mv sizeofT] obtain m' p rest where
    "vec_resizeBuffer mv sizeofT (mSize v) m v = Some (m', v)" "mPointer v = Some p"
    "cells m' p = Some (replicate (length xs) Raw @ rest)" by blast
  moreover have "unat (of_nat i :: size_t) = i" using i vec_repr_length [OF r] by (simp add: unat_of_nat_small)
  ultimately show ?thesis using i by (simp add: vec_expand_range_def Let_def vec_at_def nth_append)
qed

lemma vec_assign_repr:
  assumes r: "vec_repr m v xs" and fits: "alloc_fits sizeofT (length ys)"
  shows "\<exists>m' v'. vec_assign mv sizeofT ys m v = Some (m', v') \<and> vec_repr m' v' ys"
proof (cases "length ys = length xs")
  case True
  show ?thesis
  proof (cases "xs = []")
    case True
    then show ?thesis using r \<open>length ys = length xs\<close> vec_repr_size [OF r]
      by (auto simp: vec_assign_def vec_resizeBuffer_def)
  next
    case False
    obtain m1 p rest where rb: "vec_resizeBuffer mv sizeofT (mSize v) m v = Some (m1, v)" and ok: "heap_ok m1"
      and p: "mPointer v = Some p" and c: "cells m1 p = Some (map Live [] @ replicate (length ys) Raw @ rest)"
      using vec_resizeBuffer_same [OF r False, of mv sizeofT] True by auto
    have "unat (mSize v) = length [] + length ys" using r True by (simp add: vec_repr_def)
    from vec_fill [OF ok c _ p this] show ?thesis
      using rb vec_repr_size [OF r] True by (auto simp: vec_assign_def)
  qed
next
  case False
  obtain m1 v1 where rb: "vec_resizeBuffer mv sizeofT (of_nat (length ys)) m v = Some (m1, v1)"
    and g: "grown m1 v1 (take (length ys) xs) (length ys - length xs)"
    using vec_resizeBuffer_other [OF r False fits] by blast
  have sz: "unat (mSize v1) = length [] + length ys" using g by (auto simp: grown_def)
  have "\<exists>m'. vec_insertToUninitilized 0 ys (mPointer v1) m1 = Some m' \<and> vec_repr m' v1 ys"
  proof (cases "ys = []")
    case True
    then show ?thesis using g by (simp add: grown_def vec_repr_def)
  next
    case ne: False
    then have "take (length ys) xs \<noteq> [] \<or> length ys - length xs \<noteq> 0" by (cases xs) auto
    then obtain p where p: "mPointer v1 = Some p"
      and c: "cells m1 p = Some (map Live (take (length ys) xs) @ replicate (length ys - length xs) Raw)"
      using g unfolding grown_def by blast
    have c': "cells m1 p = Some (map Live [] @ (map Live (take (length ys) xs) @ replicate (length ys - length xs) Raw) @ [])"
      using c by simp
    have ok: "heap_ok m1" using g by (simp add: grown_def)
    have len: "length (map Live (take (length ys) xs) @ replicate (length ys - length xs) Raw) = length ys"
      by (simp add: min_def)
    from vec_fill [OF ok c' len p sz refl] show ?thesis by auto
  qed
  then show ?thesis using rb by (auto simp: vec_assign_def)
qed

lemma vec_at_repr:
  assumes r: "vec_repr m v xs" and i: "i < length xs"
  shows "vec_at m v (of_nat i) = Some (xs ! i)"
proof -
  have "unat (of_nat i :: size_t) = i" using i vec_repr_length [OF r] by (simp add: unat_of_nat_small)
  moreover have "xs \<noteq> []" using i by auto
  ultimately show ?thesis using r i by (auto simp: vec_repr_def vec_at_def nth_append)
qed

lemma length_co_array [simp]: "length (co_array zero arg n) = n"
  by (cases arg; cases n) (simp_all add: co_array_def)

lemma vec_resize_repr:
  assumes r: "vec_repr m v xs" and fits: "alloc_fits sizeofT n"
  shows "\<exists>m' v'. vec_resize mv sizeofT zero arg (of_nat n) m v = Some (m', v')
           \<and> vec_repr m' v' (take n xs @ co_array zero arg (n - length xs))"
proof -
  have un: "unat (of_nat n :: size_t) = n" using alloc_fits_less [OF fits] by (rule unat_of_nat_small)
  have sz: "unat (mSize v) = length xs" using r by (simp add: vec_repr_def)
  have co0: "co_array zero arg 0 = []" by (cases arg) (simp_all add: co_array_def)
  have eq: "of_nat n = mSize v \<longleftrightarrow> n = length xs" using un sz vec_repr_size [OF r] by metis
  have lt: "mSize v < of_nat n \<longleftrightarrow> length xs < n" using un sz by (simp add: word_less_nat_alt)
  show ?thesis
  proof (cases "n = length xs")
    case True
    then show ?thesis using r eq co0 by (simp add: vec_resize_def)
  next
    case ne: False
    show ?thesis
    proof (cases "n = 0")
      case True
      then obtain p rest where p: "mPointer v = Some p" and c: "cells m p = Some (map Live xs @ rest)"
        using r ne by (auto simp: vec_repr_def)
      have "heap_ok (m\<lparr>cells := (cells m)(p := None)\<rparr>)" using r by (auto simp: vec_repr_def heap_ok_def)
      then show ?thesis using True ne eq p vec_deleteAll_run [OF c sz] co0
        by (auto simp: vec_resize_def)
    next
      case False
      then have n0: "(of_nat n :: size_t) \<noteq> 0" using un by auto
      obtain m1 v1 where rb: "vec_resizeBuffer mv sizeofT (of_nat n) m v = Some (m1, v1)"
        and g: "grown m1 v1 (take n xs) (n - length xs)"
        using vec_resizeBuffer_other [OF r ne fits] by blast
      show ?thesis
      proof (cases "length xs < n")
        case True
        have diff: "unat (of_nat n - mSize v) = n - length xs"
          using lt True un sz by (subst unat_sub) (simp_all add: word_less_nat_alt word_le_nat_alt)
        have g': "grown m1 v1 xs (length (co_array zero arg (n - length xs)))" using g True by simp
        from vec_grown_fill [OF g'] show ?thesis
          using rb ne eq n0 lt True diff vec_repr_size [OF r] by (auto simp: vec_resize_def Let_def)
      next
        case False
        then show ?thesis using rb ne eq n0 lt g co0 by (auto simp: vec_resize_def Let_def grown_def vec_repr_def)
      qed
    qed
  qed
qed

text \<open>Copies, from a vector with its own buffer and from the vector itself.\<close>

lemma vec_copy_construct_repr:
  assumes r: "vec_repr m other xs" and fits: "alloc_fits sizeofT (length xs)"
  shows "\<exists>m' v'. vec_copy_construct mv sizeofT m other = Some (m', v') \<and> vec_repr m' v' xs \<and> vec_repr m' other xs"
proof (cases "xs = []")
  case True
  then show ?thesis using r vec_repr_size [OF r]
    by (auto simp: vec_copy_construct_def vec_copy_assign_def vec_resizeBuffer_def vec_empty_def vec_repr_def)
next
  case False
  have hok: "heap_ok m" using r by (simp add: vec_repr_def)
  obtain p rest where p: "mPointer other = Some p" and c: "cells m p = Some (map Live xs @ rest)"
    using r False by (auto simp: vec_repr_def)
  have pb: "p < brk m" using heap_ok_less [OF hok c] .
  have e: "vec_repr m vec_empty []" using hok by simp
  have ne: "length xs \<noteq> length []" using False by simp
  obtain m1 v1 where rb: "vec_resizeBuffer mv sizeofT (of_nat (length xs)) m vec_empty = Some (m1, v1)"
    and g: "grown m1 v1 [] (length xs)" and keep: "cells m1 p = cells m p"
    using vec_resizeBuffer_other [OF e ne fits, of mv] pb by (auto simp: vec_empty_def)
  obtain q where q: "mPointer v1 = Some q" and cq: "cells m1 q = Some (replicate (length xs) Raw)"
    and ok1: "heap_ok m1" and sz1: "unat (mSize v1) = length xs" using g False by (auto simp: grown_def)
  obtain x xs' where xs: "xs = x # xs'" using False by (cases xs) auto
  have pq: "p \<noteq> q" using c cq keep xs by auto
  have "cells m1 p = Some (map Live ([] @ xs) @ rest)" "cells m1 q = Some (map Live [] @ replicate (length xs) Raw @ [])"
    using c cq keep by simp_all
  from vec_copyLoop_run [OF this _ pq] have
    "vec_copyLoop 0 (length xs) (Some p) (Some q) m1 = Some (set_block m1 q (map Live xs))" by simp
  moreover have "unat (mSize other) = length xs" using r by (simp add: vec_repr_def)
  ultimately have "vec_copy_construct mv sizeofT m other = Some (set_block m1 q (map Live xs), v1)"
    using rb p q vec_repr_size [OF r] by (simp add: vec_copy_construct_def vec_copy_assign_def)
  moreover have "heap_ok (set_block m1 q (map Live xs))" using ok1 cq by (simp add: heap_ok_set_block)
  ultimately show ?thesis using q sz1 p c pq keep r by (auto simp: vec_repr_def)
qed

lemma vec_copy_assign_self:
  assumes r: "vec_repr m v xs" and ne: "xs \<noteq> []"
  shows "vec_copy_assign mv sizeofT m v v = None"
proof -
  obtain m' p rest where "vec_resizeBuffer mv sizeofT (mSize v) m v = Some (m', v)" "mPointer v = Some p"
    "cells m' p = Some (replicate (length xs) Raw @ rest)"
    using vec_resizeBuffer_same [OF r ne, of mv sizeofT] by blast
  moreover obtain k where "unat (mSize v) = Suc k" "length xs = Suc k" using r ne by (cases xs) (auto simp: vec_repr_def)
  ultimately show ?thesis by (simp add: vec_copy_assign_def)
qed

text \<open>After a move assignment the source still points to the buffer that was deleted.\<close>

lemma vec_move_assign_repr:
  assumes r: "vec_repr m self xs" and s: "vec_repr m other ys" and ne: "xs \<noteq> []"
    and sep: "mPointer self \<noteq> mPointer other"
  shows "\<exists>m' self' other'. vec_move_assign m self other = Some (m', self', other')
           \<and> vec_repr m' self' ys \<and> vec_destroy m' other' = None"
proof -
  obtain p rest where p: "mPointer self = Some p" and c: "cells m p = Some (map Live xs @ rest)"
    using r ne by (auto simp: vec_repr_def)
  have sz: "unat (mSize self) = length xs" using r by (simp add: vec_repr_def)
  obtain k where k: "unat (mSize self) = Suc k" using sz ne by (cases xs) auto
  then have z: "mSize self \<noteq> 0" by auto
  let ?m = "m\<lparr>cells := (cells m)(p := None)\<rparr>"
  have del: "vec_deleteAll (Some p) (mSize self) m = Some ?m" using vec_deleteAll_run [OF c sz ne] .
  have "heap_ok ?m" using r by (auto simp: vec_repr_def heap_ok_def)
  then have "vec_repr ?m \<lparr>mPointer = mPointer other, mSize = mSize other\<rparr> ys"
    using s sep p by (auto simp: vec_repr_def)
  moreover have "vec_deleteAll (Some p) (mSize self) ?m = None"
    using k z by (simp add: vec_deleteAll_def slot_read_def slot_at_def)
  ultimately show ?thesis using del p by (simp add: vec_move_assign_def vec_swap_def vec_destroy_def)
qed

section \<open>Properties\<close>

definition sample_memory :: "nat memory" where
  "sample_memory = \<lparr>cells = [0 \<mapsto> [Live 10, Live 11, Live 12]], brk = 1\<rparr>"

definition sample_vector :: vector where
  "sample_vector = \<lparr>mPointer = Some 0, mSize = 3\<rparr>"

lemma sample_vector_repr: "vec_repr sample_memory sample_vector [10, 11, 12]"
  by (auto simp: vec_repr_def sample_memory_def sample_vector_def heap_ok_def split: if_splits)



text \<open>
  Three operations break the vector. \<open>expand (begin, end)\<close> with an empty range destructs the
  elements and keeps the vector's size, so that reading any element afterwards is undefined. The
  copy assignment of a non-empty vector to itself reads elements it has just destructed. And after
  a move assignment to a non-empty vector the source holds the deleted buffer: its destructor
  destructs and frees it again.
\<close>

theorem vector_hazards:
  assumes "vec_repr m v xs" and "xs \<noteq> []"
  shows "(\<exists>m'. vec_expand_range mv sizeofT [] m v = Some (m', v) \<and> (\<forall>i < length xs. vec_at m' v (of_nat i) = None))
       \<and> vec_copy_assign mv sizeofT m v v = None
       \<and> (\<forall>other ys. vec_repr m other ys \<and> mPointer v \<noteq> mPointer other \<longrightarrow>
            (\<exists>m' v' other'. vec_move_assign m v other = Some (m', v', other')
               \<and> vec_repr m' v' ys \<and> vec_destroy m' other' = None))"
proof -
  have "0 < length xs" using assms(2) by simp
  then obtain m' where m': "vec_expand_range mv sizeofT [] m v = Some (m', v)"
    using vec_expand_range_nothing [OF assms(1)] by blast
  have "vec_at m' v (of_nat i) = None" if "i < length xs" for i
    using vec_expand_range_nothing [OF assms(1) that, of mv sizeofT] m' by auto
  then show ?thesis
    using m' vec_copy_assign_self [OF assms] vec_move_assign_repr [OF assms(1) _ assms(2)] by blast
qed

lemma vector_hazards_witness:
  "(\<exists>m'. vec_expand_range id 4 [] sample_memory sample_vector = Some (m', sample_vector)
      \<and> vec_at m' sample_vector (of_nat 0) = None)
    \<and> vec_copy_assign id 4 sample_memory sample_vector sample_vector = None"
  using vector_hazards [OF sample_vector_repr, of id 4] by auto

end
