(* ===== verification/ExtendedVectors.thy ===== *)
theory ExtendedVectors
  imports ZqPrelude
begin

text \<open>
  Base/ExtendedVector.hpp: a window \<open>[mIndexBegin, mIndexEnd)\<close> into a vector. Of the vector only its
  elements matter here; \<open>getVector ().expand (n)\<close> appends \<open>n\<close> value-initialised elements (\<open>zero\<close>),
  and \<open>operator[]\<close> outside of the vector is undefined. Indexes are computed in 64 bits.
\<close>

record 'a ext_vector =
  ev_vector :: "'a list"
  mIndexBegin :: size_t
  mIndexEnd :: size_t

definition kNoIndex :: size_t where
  "kNoIndex = - 1"

definition ev_new :: "'a ext_vector" where
  "ev_new = \<lparr>ev_vector = [], mIndexBegin = 0, mIndexEnd = 0\<rparr>"

definition ev_of_vector :: "'a list \<Rightarrow> 'a ext_vector" where
  "ev_of_vector v = \<lparr>ev_vector = v, mIndexBegin = 0, mIndexEnd = of_nat (length v)\<rparr>"

definition ev_of_range :: "'a list \<Rightarrow> size_t \<Rightarrow> size_t \<Rightarrow> 'a ext_vector" where
  "ev_of_range v indexBegin indexEnd =
     \<lparr>ev_vector = v, mIndexBegin = indexBegin,
      mIndexEnd = (if indexEnd = kNoIndex then of_nat (length v) else indexEnd)\<rparr>"

definition ev_at :: "'a ext_vector \<Rightarrow> size_t \<Rightarrow> 'a option" where
  "ev_at ev i =
     (let k = unat (i + mIndexBegin ev)
      in if k < length (ev_vector ev) then Some (ev_vector ev ! k) else None)"

definition ev_put :: "size_t \<Rightarrow> 'a \<Rightarrow> 'a ext_vector \<Rightarrow> 'a ext_vector option" where
  "ev_put i x ev =
     (let k = unat (i + mIndexBegin ev)
      in if k < length (ev_vector ev) then Some (ev\<lparr>ev_vector := (ev_vector ev)[k := x]\<rparr>) else None)"

definition ev_size :: "'a ext_vector \<Rightarrow> size_t" where
  "ev_size ev = mIndexEnd ev - mIndexBegin ev"

definition ev_hasLength :: "'a ext_vector \<Rightarrow> size_t \<Rightarrow> bool" where
  "ev_hasLength ev n \<longleftrightarrow> ev_size ev \<ge> n"

definition ev_increaseBegin :: "size_t \<Rightarrow> 'a ext_vector \<Rightarrow> 'a ext_vector" where
  "ev_increaseBegin howMuch ev = ev\<lparr>mIndexBegin := mIndexBegin ev + howMuch\<rparr>"

definition ev_setEnd :: "size_t \<Rightarrow> 'a ext_vector \<Rightarrow> 'a ext_vector" where
  "ev_setEnd newEnd ev = ev\<lparr>mIndexEnd := newEnd\<rparr>"

definition ev_setBegin :: "size_t \<Rightarrow> 'a ext_vector \<Rightarrow> 'a ext_vector" where
  "ev_setBegin newBegin ev = ev\<lparr>mIndexBegin := newBegin\<rparr>"

definition ev_front :: "'a ext_vector \<Rightarrow> 'a option" where
  "ev_front ev = ev_at ev 0"

definition ev_back :: "'a ext_vector \<Rightarrow> 'a option" where
  "ev_back ev = ev_at ev (mIndexEnd ev - 1)"

fun ev_put_all :: "size_t \<Rightarrow> 'a list \<Rightarrow> 'a ext_vector \<Rightarrow> (size_t \<times> 'a ext_vector) option" where
  "ev_put_all i [] ev = Some (i, ev)"
| "ev_put_all i (x # xs) ev = do {
     ev1 \<leftarrow> ev_put i x ev;
     ev_put_all (i + 1) xs ev1
   }"

definition ev_insertVectorAtBegin :: "'a list \<Rightarrow> 'a ext_vector \<Rightarrow> 'a ext_vector option" where
  "ev_insertVectorAtBegin xs ev = do {
     (i, ev1) \<leftarrow> ev_put_all 0 xs ev;
     Some (ev_increaseBegin i ev1)
   }"

definition ev_expand :: "'a \<Rightarrow> size_t \<Rightarrow> 'a ext_vector \<Rightarrow> 'a ext_vector" where
  "ev_expand zero howMuch ev =
     (let newSize = ev_size ev + howMuch;
          underlying = of_nat (length (ev_vector ev));
          (newSize, ev1) =
            (if mIndexEnd ev \<noteq> underlying then
               let available = underlying - mIndexEnd ev;
                   virtual = min howMuch available
               in (newSize - virtual, ev\<lparr>mIndexEnd := available - virtual\<rparr>)
             else (newSize, ev))
      in if newSize > 0
         then ev1\<lparr>ev_vector := ev_vector ev1 @ replicate (unat howMuch) zero\<rparr>
         else ev1)"

text \<open>What a range-for loop over the window reads: \<open>[begin (), end ())\<close>.\<close>

definition ev_elements :: "'a ext_vector \<Rightarrow> 'a list option" where
  "ev_elements ev =
     (if unat (mIndexBegin ev) \<le> unat (mIndexEnd ev) \<and> unat (mIndexEnd ev) \<le> length (ev_vector ev)
      then Some (drop (unat (mIndexBegin ev)) (take (unat (mIndexEnd ev)) (ev_vector ev)))
      else None)"

section \<open>The window\<close>

definition ev_ok :: "'a ext_vector \<Rightarrow> bool" where
  "ev_ok ev \<longleftrightarrow> unat (mIndexBegin ev) \<le> unat (mIndexEnd ev)
     \<and> unat (mIndexEnd ev) \<le> length (ev_vector ev) \<and> length (ev_vector ev) < 2 ^ 64"

definition ev_view :: "'a ext_vector \<Rightarrow> 'a list" where
  "ev_view ev = drop (unat (mIndexBegin ev)) (take (unat (mIndexEnd ev)) (ev_vector ev))"

lemma ev_elements_view: "ev_ok ev \<Longrightarrow> ev_elements ev = Some (ev_view ev)"
  by (simp add: ev_ok_def ev_elements_def ev_view_def)

lemma ev_view_length: "ev_ok ev \<Longrightarrow> length (ev_view ev) = unat (mIndexEnd ev) - unat (mIndexBegin ev)"
  by (simp add: ev_ok_def ev_view_def)

lemma ev_view_bound: "ev_ok ev \<Longrightarrow> length (ev_view ev) < 2 ^ 64"
  using unat_less_2p64 [of "mIndexEnd ev"] by (simp add: ev_view_length)

lemma ev_size_view:
  assumes "ev_ok ev"
  shows "unat (ev_size ev) = length (ev_view ev)"
  using assms ev_view_length [OF assms] by (simp add: ev_size_def ev_ok_def unat_sub word_le_nat_alt)

lemma ev_bound:
  assumes "ev_ok ev" and "i \<le> length (ev_view ev)"
  shows "i + unat (mIndexBegin ev) \<le> unat (mIndexEnd ev)"
proof -
  have "unat (mIndexBegin ev) \<le> unat (mIndexEnd ev)" using assms(1) by (simp add: ev_ok_def)
  then show ?thesis using assms(2) ev_view_length [OF assms(1)] by linarith
qed

lemma ev_index:
  assumes "ev_ok ev" and "i \<le> length (ev_view ev)"
  shows "unat (of_nat i + mIndexBegin ev) = i + unat (mIndexBegin ev)"
    and "unat (mIndexBegin ev + of_nat i) = i + unat (mIndexBegin ev)"
proof -
  have "i + unat (mIndexBegin ev) < 2 ^ 64"
    using ev_bound [OF assms] unat_less_2p64 [of "mIndexEnd ev"] by linarith
  moreover have "of_nat i + mIndexBegin ev = of_nat (i + unat (mIndexBegin ev))" by simp
  ultimately show "unat (of_nat i + mIndexBegin ev) = i + unat (mIndexBegin ev)"
    by (simp only: unat_of_nat_small)
  then show "unat (mIndexBegin ev + of_nat i) = i + unat (mIndexBegin ev)" by (simp only: add.commute)
qed

lemma ev_at_view:
  assumes "ev_ok ev" and "i < length (ev_view ev)"
  shows "ev_at ev (of_nat i) = Some (ev_view ev ! i)"
proof -
  have le: "i \<le> length (ev_view ev)" using assms(2) by simp
  have "i + unat (mIndexBegin ev) < unat (mIndexEnd ev)"
    using assms(2) ev_view_length [OF assms(1)] by simp
  then show ?thesis using assms(1)
    by (simp only: ev_at_def Let_def ev_index(1) [OF assms(1) le]) (simp add: ev_ok_def ev_view_def add.commute)
qed

lemma ev_increaseBegin_view:
  assumes "ev_ok ev" and "n \<le> length (ev_view ev)"
  shows "ev_ok (ev_increaseBegin (of_nat n) ev) \<and> ev_view (ev_increaseBegin (of_nat n) ev) = drop n (ev_view ev)"
  using ev_bound [OF assms] assms(1)
  by (simp add: ev_increaseBegin_def ev_ok_def ev_view_def ev_index(2) [OF assms])

lemma ev_hasLength_view:
  "ev_ok ev \<Longrightarrow> n < 2 ^ 64 \<Longrightarrow> ev_hasLength ev (of_nat n) \<longleftrightarrow> n \<le> length (ev_view ev)"
  using ev_size_view [of ev] by (simp add: ev_hasLength_def word_le_nat_alt unat_of_nat_small)

lemma ev_put_view:
  assumes "ev_ok ev" and "i < length (ev_view ev)"
  shows "\<exists>ev'. ev_put (of_nat i) x ev = Some ev' \<and> ev_ok ev' \<and> ev_view ev' = (ev_view ev)[i := x]
           \<and> mIndexBegin ev' = mIndexBegin ev \<and> mIndexEnd ev' = mIndexEnd ev"
proof -
  have le: "i \<le> length (ev_view ev)" using assms(2) by simp
  have lt: "i + unat (mIndexBegin ev) < unat (mIndexEnd ev)"
    using assms(2) ev_view_length [OF assms(1)] by simp
  let ?ev = "ev\<lparr>ev_vector := (ev_vector ev)[i + unat (mIndexBegin ev) := x]\<rparr>"
  have "ev_view ?ev = (ev_view ev)[i := x]"
    using lt by (simp add: ev_view_def take_update_swap drop_update_swap)
  moreover have "ev_put (of_nat i) x ev = Some ?ev"
    using lt assms(1) by (simp only: ev_put_def Let_def ev_index(1) [OF assms(1) le]) (simp add: ev_ok_def)
  ultimately show ?thesis using assms(1) by (auto simp: ev_ok_def)
qed

lemma ev_of_vector_ok: "length v < 2 ^ 64 \<Longrightarrow> ev_ok (ev_of_vector v) \<and> ev_view (ev_of_vector v) = v"
  by (simp add: ev_of_vector_def ev_ok_def ev_view_def unat_of_nat_small)

section \<open>Properties\<close>

lemma ev_expand_full:
  assumes ok: "ev_ok ev" and full: "unat (mIndexEnd ev) = length (ev_vector ev)"
    and n: "0 < n" "length (ev_vector ev) + n < 2 ^ 64"
  shows "ev_expand z (of_nat n) ev = ev\<lparr>ev_vector := ev_vector ev @ replicate n z\<rparr>"
proof -
  have u: "mIndexEnd ev = of_nat (length (ev_vector ev))" using full by (rule eq_of_nat_unat)
  have un: "unat (of_nat n :: size_t) = n" using n(2) by (intro unat_of_nat_small) linarith
  have "unat (ev_size ev) + unat (of_nat n :: size_t) < 2 ^ 64"
    using n(2) ev_size_view [OF ok] ev_view_length [OF ok] full un by linarith
  then have "unat (ev_size ev + of_nat n) = unat (ev_size ev) + n" using un by (simp add: unat_word_ariths)
  then have "0 < ev_size ev + of_nat n" using n(1) by (simp add: word_less_nat_alt)
  then show ?thesis using u un by (simp add: ev_expand_def Let_def)
qed

text \<open>
  \<open>expand (n)\<close> of a window that ends where its vector ends makes the vector longer but leaves
  the window, and so \<open>size ()\<close>, as it was. And \<open>back ()\<close> adds the begin index twice: on a window
  that does not start at 0 and ends at the vector's end it reads outside of the vector.
\<close>

theorem ext_vector_expand_back:
  assumes "ev_ok ev" and "unat (mIndexEnd ev) = length (ev_vector ev)"
    and "0 < n" and "length (ev_vector ev) + n < 2 ^ 63"
  shows "length (ev_vector (ev_expand z (of_nat n) ev)) = length (ev_vector ev) + n
       \<and> ev_size (ev_expand z (of_nat n) ev) = ev_size ev
       \<and> ev_view (ev_expand z (of_nat n) ev) = ev_view ev
       \<and> (0 < unat (mIndexBegin ev) \<longrightarrow> ev_back ev = None)"
proof -
  have lt: "length (ev_vector ev) + n < 2 ^ 64" using assms(4) by simp
  note ex = ev_expand_full [OF assms(1,2,3) lt, of z]
  have "ev_back ev = None" if "0 < unat (mIndexBegin ev)"
  proof -
    have le: "unat (mIndexBegin ev) \<le> unat (mIndexEnd ev)" using assms(1) by (simp add: ev_ok_def)
    then have e1: "unat (mIndexEnd ev - 1) = unat (mIndexEnd ev) - 1"
      using that by (subst unat_sub) (simp_all add: word_le_nat_alt)
    have "unat (mIndexEnd ev - 1) + unat (mIndexBegin ev) < 2 ^ 64" using e1 le assms(2,4) by simp
    then have "unat (mIndexEnd ev - 1 + mIndexBegin ev) = unat (mIndexEnd ev - 1) + unat (mIndexBegin ev)"
      by (simp only: unat_word_ariths) simp
    then have "length (ev_vector ev) \<le> unat (mIndexEnd ev - 1 + mIndexBegin ev)"
      using e1 le that assms(2) by linarith
    then show ?thesis by (simp only: ev_back_def ev_at_def Let_def) simp
  qed
  then show ?thesis using ex assms(2) by (simp add: ev_size_def ev_view_def)
qed

lemma ext_vector_expand_back_witness:
  "ev_size (ev_expand 0 (of_nat 4) \<lparr>ev_vector = [1, 2, 3 :: byte], mIndexBegin = 1, mIndexEnd = 3\<rparr>) = 2
     \<and> ev_back \<lparr>ev_vector = [1, 2, 3 :: byte], mIndexBegin = 1, mIndexEnd = 3\<rparr> = None"
  using ext_vector_expand_back [of "\<lparr>ev_vector = [1, 2, 3 :: byte], mIndexBegin = 1, mIndexEnd = 3\<rparr>" 4 0]
  by (simp add: ev_ok_def ev_size_def)

end
