(* ===== verification/FieldCodecs.thy ===== *)
theory FieldCodecs
  imports ExtendedVectors
begin

text \<open>
  Base/FieldReader.hpp and Base/FieldWriter.hpp: integers as bytes. The readers and writers are
  templates over the vector they work on; here the vector's \<open>operator[]\<close>, \<open>increaseBegin\<close> and
  \<open>hasLength\<close> are arguments (\<open>at\<close>, \<open>adv\<close>, \<open>has\<close>), and a writer is the list of the
  assignments \<open>vector[i] = byte\<close> it makes, in its order.
\<close>

unbundle bit_operations_syntax

section \<open>Byte order\<close>

subsection \<open>Readers\<close>

type_synonym reader = "size_t \<Rightarrow> byte option"

definition read8 :: "reader \<Rightarrow> 8 word option" where
  "read8 vec = vec 0"

definition le_read16 :: "reader \<Rightarrow> 16 word option" where
  "le_read16 vec = do {
     b1 \<leftarrow> vec 1; b0 \<leftarrow> vec 0;
     Some (ucast (push_bit 8 (ucast b1 :: 32 word) OR (ucast b0 :: 32 word)))
   }"

definition le_read32 :: "reader \<Rightarrow> 32 word option" where
  "le_read32 vec = do {
     b3 \<leftarrow> vec 3; b2 \<leftarrow> vec 2; b1 \<leftarrow> vec 1; b0 \<leftarrow> vec 0;
     Some (push_bit 24 (ucast b3) OR push_bit 16 (ucast b2) OR push_bit 8 (ucast b1) OR ucast b0)
   }"

definition le_read64 :: "reader \<Rightarrow> 64 word option" where
  "le_read64 vec = do {
     b7 \<leftarrow> vec 7; b6 \<leftarrow> vec 6; b5 \<leftarrow> vec 5; b4 \<leftarrow> vec 4;
     b3 \<leftarrow> vec 3; b2 \<leftarrow> vec 2; b1 \<leftarrow> vec 1; b0 \<leftarrow> vec 0;
     Some (push_bit 56 (ucast b7) OR push_bit 48 (ucast b6) OR push_bit 40 (ucast b5)
           OR push_bit 32 (ucast b4) OR push_bit 24 (ucast b3) OR push_bit 16 (ucast b2)
           OR push_bit 8 (ucast b1) OR ucast b0)
   }"

definition be_read16 :: "reader \<Rightarrow> 16 word option" where
  "be_read16 vec = do {
     b0 \<leftarrow> vec 0; b1 \<leftarrow> vec 1;
     Some (ucast (push_bit 8 (ucast b0 :: 32 word) OR (ucast b1 :: 32 word)))
   }"

definition be_read32 :: "reader \<Rightarrow> 32 word option" where
  "be_read32 vec = do {
     b0 \<leftarrow> vec 0; b1 \<leftarrow> vec 1; b2 \<leftarrow> vec 2; b3 \<leftarrow> vec 3;
     Some (push_bit 24 (ucast b0) OR push_bit 16 (ucast b1) OR push_bit 8 (ucast b2) OR ucast b3)
   }"

definition be_read64 :: "reader \<Rightarrow> 64 word option" where
  "be_read64 vec = do {
     b0 \<leftarrow> vec 0; b1 \<leftarrow> vec 1; b2 \<leftarrow> vec 2; b3 \<leftarrow> vec 3;
     b4 \<leftarrow> vec 4; b5 \<leftarrow> vec 5; b6 \<leftarrow> vec 6; b7 \<leftarrow> vec 7;
     Some (push_bit 56 (ucast b0) OR push_bit 48 (ucast b1) OR push_bit 40 (ucast b2)
           OR push_bit 32 (ucast b3) OR push_bit 24 (ucast b4) OR push_bit 16 (ucast b5)
           OR push_bit 8 (ucast b6) OR ucast b7)
   }"

subsection \<open>Writers\<close>

type_synonym writes = "(nat \<times> byte) list"

definition write8 :: "8 word \<Rightarrow> writes" where
  "write8 v = [(0, v)]"

definition be_write16 :: "16 word \<Rightarrow> writes" where
  "be_write16 v = [(0, ucast (drop_bit 8 ((ucast v :: 32 word) AND 0xff00))),
                   (1, ucast ((ucast v :: 32 word) AND 0x00ff))]"

definition be_write32 :: "32 word \<Rightarrow> writes" where
  "be_write32 v = [(0, ucast (drop_bit 24 (v AND 0xff000000))), (1, ucast (drop_bit 16 (v AND 0x00ff0000))),
                   (2, ucast (drop_bit 8 (v AND 0x0000ff00))), (3, ucast (v AND 0x000000ff))]"

definition be_write64 :: "64 word \<Rightarrow> writes" where
  "be_write64 v =
     [(0, ucast (drop_bit 56 (v AND 0xff00000000000000))), (1, ucast (drop_bit 48 (v AND 0x00ff000000000000))),
      (2, ucast (drop_bit 40 (v AND 0x0000ff0000000000))), (3, ucast (drop_bit 32 (v AND 0x000000ff00000000))),
      (4, ucast (drop_bit 24 (v AND 0x00000000ff000000))), (5, ucast (drop_bit 16 (v AND 0x0000000000ff0000))),
      (6, ucast (drop_bit 8 (v AND 0x000000000000ff00))), (7, ucast (v AND 0x00000000000000ff))]"

definition le_write16 :: "16 word \<Rightarrow> writes" where
  "le_write16 v = [(1, ucast (drop_bit 8 ((ucast v :: 32 word) AND 0xff00))),
                   (0, ucast ((ucast v :: 32 word) AND 0x00ff))]"

definition le_write32 :: "32 word \<Rightarrow> writes" where
  "le_write32 v = [(3, ucast (drop_bit 24 (v AND 0xff000000))), (2, ucast (drop_bit 16 (v AND 0x00ff0000))),
                   (1, ucast (drop_bit 8 (v AND 0x0000ff00))), (0, ucast (v AND 0x000000ff))]"

definition le_write64 :: "64 word \<Rightarrow> writes" where
  "le_write64 v =
     [(7, ucast (drop_bit 56 (v AND 0xff00000000000000))), (6, ucast (drop_bit 48 (v AND 0x00ff000000000000))),
      (5, ucast (drop_bit 40 (v AND 0x0000ff0000000000))), (4, ucast (drop_bit 32 (v AND 0x000000ff00000000))),
      (3, ucast (drop_bit 24 (v AND 0x00000000ff000000))), (2, ucast (drop_bit 16 (v AND 0x0000000000ff0000))),
      (1, ucast (drop_bit 8 (v AND 0x000000000000ff00))), (0, ucast (v AND 0x00000000000000ff))]"

section \<open>The field reader\<close>

datatype read_error = NoEnoguhLength

text \<open>\<open>readT\<close>: \<open>rd\<close> is the value reader's \<open>readValue\<close> for the type, \<open>n\<close> its \<open>sizeof\<close>.\<close>

definition fr_readT ::
  "('s \<Rightarrow> reader) \<Rightarrow> (size_t \<Rightarrow> 's \<Rightarrow> 's option) \<Rightarrow> (reader \<Rightarrow> 'v option) \<Rightarrow> size_t \<Rightarrow> 's \<Rightarrow> ('v \<times> 's) option" where
  "fr_readT at adv rd n s = do {
     value \<leftarrow> rd (at s);
     s1 \<leftarrow> adv n s;
     Some (value, s1)
   }"

definition fr_hasBytes :: "('s \<Rightarrow> size_t \<Rightarrow> bool) \<Rightarrow> size_t \<Rightarrow> 's \<Rightarrow> bool" where
  "fr_hasBytes has n s = has s n"

definition fr_canReadVectorT :: "('s \<Rightarrow> size_t \<Rightarrow> bool) \<Rightarrow> size_t \<Rightarrow> size_t \<Rightarrow> 's \<Rightarrow> bool" where
  "fr_canReadVectorT has n numberOfElements s = fr_hasBytes has (numberOfElements * n) s"

text \<open>\<open>readTVector\<close>: the loop of \<open>numberOfElements\<close> reads.\<close>

fun fr_readTVector ::
  "('s \<Rightarrow> reader) \<Rightarrow> (size_t \<Rightarrow> 's \<Rightarrow> 's option) \<Rightarrow> (reader \<Rightarrow> 'v option) \<Rightarrow> size_t \<Rightarrow> nat \<Rightarrow> 's
     \<Rightarrow> ('v list \<times> 's) option" where
  "fr_readTVector at adv rd n 0 s = Some ([], s)"
| "fr_readTVector at adv rd n (Suc k) s = do {
     (value, s1) \<leftarrow> fr_readT at adv rd n s;
     (vs, s2) \<leftarrow> fr_readTVector at adv rd n k s1;
     Some (value # vs, s2)
   }"

definition fr_tryReadT ::
  "('s \<Rightarrow> reader) \<Rightarrow> (size_t \<Rightarrow> 's \<Rightarrow> 's option) \<Rightarrow> ('s \<Rightarrow> size_t \<Rightarrow> bool) \<Rightarrow> (reader \<Rightarrow> 'v option) \<Rightarrow> size_t
     \<Rightarrow> 's \<Rightarrow> ((read_error + 'v) \<times> 's) option" where
  "fr_tryReadT at adv has rd n s =
     (if \<not> fr_hasBytes has n s then Some (Inl NoEnoguhLength, s)
      else do {
        (value, s1) \<leftarrow> fr_readT at adv rd n s;
        Some (Inr value, s1)
      })"

definition fr_tryReadTVector ::
  "('s \<Rightarrow> reader) \<Rightarrow> (size_t \<Rightarrow> 's \<Rightarrow> 's option) \<Rightarrow> ('s \<Rightarrow> size_t \<Rightarrow> bool) \<Rightarrow> (reader \<Rightarrow> 'v option) \<Rightarrow> size_t
     \<Rightarrow> size_t \<Rightarrow> 's \<Rightarrow> ((read_error + 'v list) \<times> 's) option" where
  "fr_tryReadTVector at adv has rd n numberOfElements s =
     (if \<not> fr_canReadVectorT has n numberOfElements s then Some (Inl NoEnoguhLength, s)
      else do {
        (vs, s1) \<leftarrow> fr_readTVector at adv rd n (unat numberOfElements) s;
        Some (Inr vs, s1)
      })"

definition fr_skipBytes :: "(size_t \<Rightarrow> 's \<Rightarrow> 's option) \<Rightarrow> size_t \<Rightarrow> 's \<Rightarrow> 's option" where
  "fr_skipBytes adv n s = adv n s"

section \<open>The field writer\<close>

text \<open>The arguments of \<open>writeT\<close>: integers, and containers of bytes.\<close>

datatype field = F8 "8 word" | F16 "16 word" | F32 "32 word" | F64 "64 word" | FBytes "byte list"

text \<open>\<open>mySizeOfArgs\<close>.\<close>

fun field_size :: "field \<Rightarrow> size_t" where
  "field_size (F8 _) = 1"
| "field_size (F16 _) = 2"
| "field_size (F32 _) = 4"
| "field_size (F64 _) = 8"
| "field_size (FBytes bs) = of_nat (length bs) * 1"

fun mySizeOfArgs :: "field list \<Rightarrow> size_t" where
  "mySizeOfArgs [] = 0"
| "mySizeOfArgs (f # fs) = field_size f + mySizeOfArgs fs"

fun fw_put :: "writes \<Rightarrow> byte ext_vector \<Rightarrow> byte ext_vector option" where
  "fw_put [] ev = Some ev"
| "fw_put ((i, b) # ws) ev = Option.bind (ev_put (of_nat i) b ev) (fw_put ws)"

definition fw_write :: "writes \<Rightarrow> size_t \<Rightarrow> byte ext_vector \<Rightarrow> byte ext_vector option" where
  "fw_write ws n ev = map_option (ev_increaseBegin n) (fw_put ws ev)"

text \<open>The writer type: \<open>BigEndianWriter\<close> or \<open>LittleEndianWriter\<close>.\<close>

record byte_writer =
  w16 :: "16 word \<Rightarrow> writes"
  w32 :: "32 word \<Rightarrow> writes"
  w64 :: "64 word \<Rightarrow> writes"

definition BigEndianWriter :: byte_writer where
  "BigEndianWriter = \<lparr>w16 = be_write16, w32 = be_write32, w64 = be_write64\<rparr>"

definition LittleEndianWriter :: byte_writer where
  "LittleEndianWriter = \<lparr>w16 = le_write16, w32 = le_write32, w64 = le_write64\<rparr>"

text \<open>The two aliases of \<open>FieldWriter\<close>; both name \<open>BigEndianWriter\<close>.\<close>

definition BigEndianFieldWriter :: byte_writer where
  "BigEndianFieldWriter = BigEndianWriter"

definition LittleEndianFieldWriter :: byte_writer where
  "LittleEndianFieldWriter = BigEndianWriter"

fun fw_writeBytes :: "byte list \<Rightarrow> byte ext_vector \<Rightarrow> byte ext_vector option" where
  "fw_writeBytes [] ev = Some ev"
| "fw_writeBytes (b # bs) ev = Option.bind (fw_write (write8 b) 1 ev) (fw_writeBytes bs)"

fun fw_writeOneT :: "byte_writer \<Rightarrow> field \<Rightarrow> byte ext_vector \<Rightarrow> byte ext_vector option" where
  "fw_writeOneT w (F8 v) ev = fw_write (write8 v) 1 ev"
| "fw_writeOneT w (F16 v) ev = fw_write (w16 w v) 2 ev"
| "fw_writeOneT w (F32 v) ev = fw_write (w32 w v) 4 ev"
| "fw_writeOneT w (F64 v) ev = fw_write (w64 w v) 8 ev"
| "fw_writeOneT w (FBytes bs) ev = fw_writeBytes bs ev"

fun fw_writeAll :: "byte_writer \<Rightarrow> field list \<Rightarrow> byte ext_vector \<Rightarrow> byte ext_vector option" where
  "fw_writeAll w [] ev = Some ev"
| "fw_writeAll w (f # fs) ev = Option.bind (fw_writeOneT w f ev) (fw_writeAll w fs)"

definition fw_writeT :: "byte_writer \<Rightarrow> field list \<Rightarrow> byte ext_vector \<Rightarrow> byte ext_vector option" where
  "fw_writeT w fs ev =
     (let argsSize = mySizeOfArgs fs;
          ev1 = (if ev_size ev < argsSize then ev_expand 0 (argsSize - ev_size ev) ev else ev)
      in fw_writeAll w fs ev1)"

section \<open>Bytes of a word\<close>

lemma byte_at:
  "k + 8 \<le> LENGTH('a::len) \<Longrightarrow> (ucast (drop_bit k ((v :: 'a word) AND push_bit k (mask 8))) :: byte) = ucast (drop_bit k v)"
  by (rule bit_word_eqI) (auto simp: bit_simps)

lemma byte_at0:
  "8 \<le> LENGTH('a::len) \<Longrightarrow> (ucast ((v :: 'a word) AND mask 8) :: byte) = ucast v"
  by (rule bit_word_eqI) (auto simp: bit_simps)

lemma bit_byte_back:
  "bit (push_bit k (ucast (ucast (drop_bit k (v :: 'a::len word)) :: byte)) :: 'a word) n \<longleftrightarrow> k \<le> n \<and> n < k + 8 \<and> bit v n"
  by (auto simp: bit_simps dest: bit_imp_le_length)

lemma bit_byte_back0:
  "bit (ucast (ucast (v :: 'a::len word) :: byte) :: 'a word) n \<longleftrightarrow> n < 8 \<and> bit v n"
  by (auto simp: bit_simps dest: bit_imp_le_length)

lemma masks64:
  "(0xff00000000000000 :: 64 word) = push_bit 56 (mask 8)" "(0x00ff000000000000 :: 64 word) = push_bit 48 (mask 8)"
  "(0x0000ff0000000000 :: 64 word) = push_bit 40 (mask 8)" "(0x000000ff00000000 :: 64 word) = push_bit 32 (mask 8)"
  "(0xff000000 :: 64 word) = push_bit 24 (mask 8)" "(0x00ff0000 :: 64 word) = push_bit 16 (mask 8)"
  "(0x0000ff00 :: 64 word) = push_bit 8 (mask 8)" "(0x000000ff :: 64 word) = mask 8"
  by (simp_all add: mask_eq_exp_minus_1 push_bit_eq_mult)

lemma masks32:
  "(0xff000000 :: 32 word) = push_bit 24 (mask 8)" "(0x00ff0000 :: 32 word) = push_bit 16 (mask 8)"
  "(0x0000ff00 :: 32 word) = push_bit 8 (mask 8)" "(0x000000ff :: 32 word) = mask 8"
  by (simp_all add: mask_eq_exp_minus_1 push_bit_eq_mult)

lemma bytes32:
  fixes v :: "32 word"
  shows "(ucast (drop_bit 24 (v AND 0xff000000)) :: byte) = ucast (drop_bit 24 v)"
    "(ucast (drop_bit 16 (v AND 0x00ff0000)) :: byte) = ucast (drop_bit 16 v)"
    "(ucast (drop_bit 8 (v AND 0x0000ff00)) :: byte) = ucast (drop_bit 8 v)"
    "(ucast (v AND 0x000000ff) :: byte) = ucast v"
  unfolding masks32 by (rule byte_at byte_at0, simp)+

lemma bytes64:
  fixes v :: "64 word"
  shows "(ucast (drop_bit 56 (v AND 0xff00000000000000)) :: byte) = ucast (drop_bit 56 v)"
    "(ucast (drop_bit 48 (v AND 0x00ff000000000000)) :: byte) = ucast (drop_bit 48 v)"
    "(ucast (drop_bit 40 (v AND 0x0000ff0000000000)) :: byte) = ucast (drop_bit 40 v)"
    "(ucast (drop_bit 32 (v AND 0x000000ff00000000)) :: byte) = ucast (drop_bit 32 v)"
    "(ucast (drop_bit 24 (v AND 0xff000000)) :: byte) = ucast (drop_bit 24 v)"
    "(ucast (drop_bit 16 (v AND 0x00ff0000)) :: byte) = ucast (drop_bit 16 v)"
    "(ucast (drop_bit 8 (v AND 0x0000ff00)) :: byte) = ucast (drop_bit 8 v)"
    "(ucast (v AND 0x000000ff) :: byte) = ucast v"
  unfolding masks64 by (rule byte_at byte_at0, simp)+

lemma join64: "push_bit 56 (ucast (ucast (drop_bit 56 v) :: byte)) OR push_bit 48 (ucast (ucast (drop_bit 48 v) :: byte))
   OR push_bit 40 (ucast (ucast (drop_bit 40 v) :: byte)) OR push_bit 32 (ucast (ucast (drop_bit 32 v) :: byte))
   OR push_bit 24 (ucast (ucast (drop_bit 24 v) :: byte)) OR push_bit 16 (ucast (ucast (drop_bit 16 v) :: byte))
   OR push_bit 8 (ucast (ucast (drop_bit 8 v) :: byte)) OR ucast (ucast v :: byte) = (v :: 64 word)"
  apply (rule bit_word_eqI)
  unfolding bit_or_iff bit_byte_back bit_byte_back0
  by simp arith

lemma join32: "push_bit 24 (ucast (ucast (drop_bit 24 v) :: byte)) OR push_bit 16 (ucast (ucast (drop_bit 16 v) :: byte))
   OR push_bit 8 (ucast (ucast (drop_bit 8 v) :: byte)) OR ucast (ucast v :: byte) = (v :: 32 word)"
  apply (rule bit_word_eqI)
  unfolding bit_or_iff bit_byte_back bit_byte_back0
  by simp arith

lemmas bytes16 = bytes32 [where v = "ucast (v :: 16 word)" for v]

lemma join16: "ucast (push_bit 8 (ucast (ucast (drop_bit 8 (ucast v :: 32 word)) :: byte) :: 32 word)
    OR (ucast (ucast (ucast v :: 32 word) :: byte) :: 32 word)) = (v :: 16 word)"
proof (rule bit_word_eqI)
  fix n assume n: "n < LENGTH(16)"
  then show "bit (ucast (push_bit 8 (ucast (ucast (drop_bit 8 (ucast v :: 32 word)) :: byte) :: 32 word)
      OR (ucast (ucast (ucast v :: 32 word) :: byte) :: 32 word)) :: 16 word) n = bit v n"
    unfolding bit_ucast_iff bit_or_iff bit_byte_back bit_byte_back0 by (simp add: bit_ucast_iff) arith
qed

section \<open>Fixed-width codecs\<close>

text \<open>The contract of an integer type: what its writer writes and what its reader reads.\<close>

definition enc_bytes :: "writes \<Rightarrow> byte list" where
  "enc_bytes ws = map (\<lambda>i. the (map_of ws i)) [0..<length ws]"

lemma enc_bytes_length [simp]: "length (enc_bytes ws) = length ws"
  by (simp add: enc_bytes_def)

locale codec =
  fixes writes :: "'v \<Rightarrow> writes" and rd :: "reader \<Rightarrow> 'v option" and width :: nat
  assumes length_law: "length (writes v) = width"
    and index_law: "set (map fst (writes v)) = {..<width}"
    and width_law: "0 < width \<and> width \<le> 8"
    and roundtrip_law: "\<forall>(i, b) \<in> set (writes v). vec (of_nat i) = Some b \<Longrightarrow> rd vec = Some v"
    and total_law: "\<forall>i \<in> {..<width}. vec (of_nat i) \<noteq> None \<Longrightarrow> rd vec \<noteq> None"
begin

lemma writes_distinct: "distinct (map fst (writes v))"
  by (metis card_distinct card_lessThan index_law length_law length_map)

lemma writes_enc: "(i, b) \<in> set (writes v) \<Longrightarrow> i < width \<and> enc_bytes (writes v) ! i = b"
proof -
  assume ib: "(i, b) \<in> set (writes v)"
  have "i \<in> set (map fst (writes v))" using ib by force
  then have "i < width" using index_law by blast
  then show ?thesis using map_of_is_SomeI [OF writes_distinct ib] length_law by (simp add: enc_bytes_def)
qed

lemma rd_enc:
  assumes "\<And>i. i < width \<Longrightarrow> vec (of_nat i) = Some (enc_bytes (writes v) ! i)"
  shows "rd vec = Some v"
  using assms writes_enc by (intro roundtrip_law) auto

lemma enc_length [simp]: "length (enc_bytes (writes v)) = width"
  by (simp add: length_law)

lemma width_word: "unat (of_nat width :: size_t) = width"
  using width_law by (intro unat_of_nat_small) simp

end

text \<open>
  The contract of the vectors the reader works on: \<open>view s\<close> is what is still to be read, and at
  least \<open>slack\<close> bytes must stay after an \<open>increaseBegin\<close>.
\<close>

locale byte_source =
  fixes ok :: "'s \<Rightarrow> bool" and view :: "'s \<Rightarrow> byte list" and at :: "'s \<Rightarrow> reader"
    and adv :: "size_t \<Rightarrow> 's \<Rightarrow> 's option" and has :: "'s \<Rightarrow> size_t \<Rightarrow> bool" and slack :: nat
  assumes at_law: "ok s \<Longrightarrow> i < length (view s) \<Longrightarrow> at s (of_nat i) = Some (view s ! i)"
    and adv_law: "ok s \<Longrightarrow> n + slack \<le> length (view s) \<Longrightarrow>
                    \<exists>s'. adv (of_nat n) s = Some s' \<and> ok s' \<and> view s' = drop n (view s)"
    and has_law: "ok s \<Longrightarrow> n < 2 ^ 64 \<Longrightarrow> has s (of_nat n) \<longleftrightarrow> n \<le> length (view s)"

text \<open>The field reader, over any source and any codec.\<close>

locale field_source = byte_source ok view at adv has slack + codec writes rd width
  for ok :: "'s \<Rightarrow> bool" and view at adv has slack and writes :: "'v \<Rightarrow> writes" and rd width
begin

lemma readT_enc:
  assumes "ok s" and "view s = enc_bytes (writes v) @ rest" and "slack \<le> length rest"
  shows "\<exists>s'. fr_readT at adv rd (of_nat width) s = Some (v, s') \<and> ok s' \<and> view s' = rest"
proof -
  have "rd (at s) = Some v"
    using at_law [OF assms(1)] assms(2) by (intro rd_enc) (simp add: nth_append length_law)
  moreover obtain s' where "adv (of_nat width) s = Some s'" "ok s'" "view s' = drop width (view s)"
    using adv_law [OF assms(1), of width] assms(2,3) by (auto simp: length_law)
  ultimately show ?thesis using assms(2) length_law by (simp add: fr_readT_def)
qed

lemma readT_total:
  assumes "ok s" and "width + slack \<le> length (view s)"
  shows "\<exists>v s'. fr_readT at adv rd (of_nat width) s = Some (v, s') \<and> ok s' \<and> view s' = drop width (view s)"
proof -
  have "rd (at s) \<noteq> None" using at_law [OF assms(1)] assms(2) by (intro total_law) simp
  then show ?thesis using adv_law [OF assms] by (auto simp: fr_readT_def)
qed

lemma tryReadT_short:
  assumes "ok s" and "length (view s) < width"
  shows "fr_tryReadT at adv has rd (of_nat width) s = Some (Inl NoEnoguhLength, s)"
proof -
  have "\<not> has s (of_nat width)" using has_law [OF assms(1), of width] width_law assms(2) by simp
  then show ?thesis by (simp add: fr_tryReadT_def fr_hasBytes_def)
qed

lemma tryReadT_enough:
  assumes "ok s" and "width + slack \<le> length (view s)"
  shows "\<exists>v s'. fr_tryReadT at adv has rd (of_nat width) s = Some (Inr v, s') \<and> ok s' \<and> view s' = drop width (view s)"
proof -
  have "has s (of_nat width)" using has_law [OF assms(1), of width] width_law assms(2) by simp
  then show ?thesis using readT_total [OF assms] by (auto simp: fr_tryReadT_def fr_hasBytes_def)
qed

lemma readTVector_enc:
  assumes "ok s" and "view s = concat (map (\<lambda>v. enc_bytes (writes v)) vs) @ rest" and "slack \<le> length rest"
  shows "\<exists>s'. fr_readTVector at adv rd (of_nat width) (length vs) s = Some (vs, s') \<and> ok s' \<and> view s' = rest"
  using assms
proof (induction vs arbitrary: s)
  case (Cons v vs)
  have sl: "slack \<le> length (concat (map (\<lambda>v. enc_bytes (writes v)) vs) @ rest)" using Cons.prems(3) by simp
  have vw: "view s = enc_bytes (writes v) @ (concat (map (\<lambda>v. enc_bytes (writes v)) vs) @ rest)"
    using Cons.prems(2) by simp
  obtain s1 where s1: "fr_readT at adv rd (of_nat width) s = Some (v, s1)" "ok s1"
    "view s1 = concat (map (\<lambda>v. enc_bytes (writes v)) vs) @ rest"
    using readT_enc [OF Cons.prems(1) vw sl] by blast
  from Cons.IH [OF s1(2,3) Cons.prems(3)] show ?case using s1(1) by auto
qed simp

end

section \<open>The model's codecs and vectors\<close>

lemma lessThan_widths:
  "{..<1} = {0 :: nat}" "{..<2} = {0, 1 :: nat}" "{..<4} = {0, 1, 2, 3 :: nat}"
  "{..<8} = {0, 1, 2, 3, 4, 5, 6, 7 :: nat}"
  by (simp_all add: lessThan_Suc eval_nat_numeral insert_commute)

interpretation c8: codec write8 read8 1
  by unfold_locales (auto simp: write8_def read8_def lessThan_widths)

interpretation le16: codec le_write16 le_read16 2
proof
  fix v :: "16 word" and vec :: reader
  show "length (le_write16 v) = 2" "set (map fst (le_write16 v)) = {..<2}"
    by (auto simp: le_write16_def lessThan_widths)
  show "0 < (2 :: nat) \<and> 2 \<le> (8 :: nat)" by simp
  show "\<forall>(i, b) \<in> set (le_write16 v). vec (of_nat i) = Some b \<Longrightarrow> le_read16 vec = Some v"
    by (simp add: le_write16_def le_read16_def bytes16 join16 del: drop_bit_and)
  show "\<forall>i \<in> {..<2}. vec (of_nat i) \<noteq> None \<Longrightarrow> le_read16 vec \<noteq> None"
    by (auto simp: lessThan_widths le_read16_def)
qed

interpretation le32: codec le_write32 le_read32 4
proof
  fix v :: "32 word" and vec :: reader
  show "length (le_write32 v) = 4" "set (map fst (le_write32 v)) = {..<4}"
    by (auto simp: le_write32_def lessThan_widths)
  show "0 < (4 :: nat) \<and> 4 \<le> (8 :: nat)" by simp
  show "\<forall>(i, b) \<in> set (le_write32 v). vec (of_nat i) = Some b \<Longrightarrow> le_read32 vec = Some v"
    by (simp add: le_write32_def le_read32_def bytes32 join32 del: drop_bit_and)
  show "\<forall>i \<in> {..<4}. vec (of_nat i) \<noteq> None \<Longrightarrow> le_read32 vec \<noteq> None"
    by (auto simp: lessThan_widths le_read32_def)
qed

interpretation le64: codec le_write64 le_read64 8
proof
  fix v :: "64 word" and vec :: reader
  show "length (le_write64 v) = 8" "set (map fst (le_write64 v)) = {..<8}"
    by (auto simp: le_write64_def lessThan_widths)
  show "0 < (8 :: nat) \<and> 8 \<le> (8 :: nat)" by simp
  show "\<forall>(i, b) \<in> set (le_write64 v). vec (of_nat i) = Some b \<Longrightarrow> le_read64 vec = Some v"
    by (simp add: le_write64_def le_read64_def bytes64 join64 del: drop_bit_and)
  show "\<forall>i \<in> {..<8}. vec (of_nat i) \<noteq> None \<Longrightarrow> le_read64 vec \<noteq> None"
    by (auto simp: lessThan_widths le_read64_def)
qed

interpretation be16: codec be_write16 be_read16 2
proof
  fix v :: "16 word" and vec :: reader
  show "length (be_write16 v) = 2" "set (map fst (be_write16 v)) = {..<2}"
    by (auto simp: be_write16_def lessThan_widths)
  show "0 < (2 :: nat) \<and> 2 \<le> (8 :: nat)" by simp
  show "\<forall>(i, b) \<in> set (be_write16 v). vec (of_nat i) = Some b \<Longrightarrow> be_read16 vec = Some v"
    by (simp add: be_write16_def be_read16_def bytes16 join16 del: drop_bit_and)
  show "\<forall>i \<in> {..<2}. vec (of_nat i) \<noteq> None \<Longrightarrow> be_read16 vec \<noteq> None"
    by (auto simp: lessThan_widths be_read16_def)
qed

interpretation be32: codec be_write32 be_read32 4
proof
  fix v :: "32 word" and vec :: reader
  show "length (be_write32 v) = 4" "set (map fst (be_write32 v)) = {..<4}"
    by (auto simp: be_write32_def lessThan_widths)
  show "0 < (4 :: nat) \<and> 4 \<le> (8 :: nat)" by simp
  show "\<forall>(i, b) \<in> set (be_write32 v). vec (of_nat i) = Some b \<Longrightarrow> be_read32 vec = Some v"
    by (simp add: be_write32_def be_read32_def bytes32 join32 del: drop_bit_and)
  show "\<forall>i \<in> {..<4}. vec (of_nat i) \<noteq> None \<Longrightarrow> be_read32 vec \<noteq> None"
    by (auto simp: lessThan_widths be_read32_def)
qed

interpretation be64: codec be_write64 be_read64 8
proof
  fix v :: "64 word" and vec :: reader
  show "length (be_write64 v) = 8" "set (map fst (be_write64 v)) = {..<8}"
    by (auto simp: be_write64_def lessThan_widths)
  show "0 < (8 :: nat) \<and> 8 \<le> (8 :: nat)" by simp
  show "\<forall>(i, b) \<in> set (be_write64 v). vec (of_nat i) = Some b \<Longrightarrow> be_read64 vec = Some v"
    by (simp add: be_write64_def be_read64_def bytes64 join64 del: drop_bit_and)
  show "\<forall>i \<in> {..<8}. vec (of_nat i) \<noteq> None \<Longrightarrow> be_read64 vec \<noteq> None"
    by (auto simp: lessThan_widths be_read64_def)
qed

text \<open>\<open>ExtendedVector\<close> as the reader's vector; it may be read up to its end.\<close>

definition ev_advance :: "size_t \<Rightarrow> byte ext_vector \<Rightarrow> byte ext_vector option" where
  "ev_advance n ev = Some (ev_increaseBegin n ev)"

interpretation ev: byte_source ev_ok ev_view ev_at ev_advance ev_hasLength 0
  by unfold_locales (simp_all add: ev_at_view ev_increaseBegin_view ev_hasLength_view ev_advance_def)

interpretation ev8: field_source ev_ok ev_view ev_at ev_advance ev_hasLength 0 write8 read8 1 ..
interpretation evle16: field_source ev_ok ev_view ev_at ev_advance ev_hasLength 0 le_write16 le_read16 2 ..
interpretation evle32: field_source ev_ok ev_view ev_at ev_advance ev_hasLength 0 le_write32 le_read32 4 ..
interpretation evle64: field_source ev_ok ev_view ev_at ev_advance ev_hasLength 0 le_write64 le_read64 8 ..
interpretation evbe16: field_source ev_ok ev_view ev_at ev_advance ev_hasLength 0 be_write16 be_read16 2 ..
interpretation evbe32: field_source ev_ok ev_view ev_at ev_advance ev_hasLength 0 be_write32 be_read32 4 ..
interpretation evbe64: field_source ev_ok ev_view ev_at ev_advance ev_hasLength 0 be_write64 be_read64 8 ..

section \<open>Writing\<close>

lemma fw_put_run:
  assumes "unat (mIndexBegin ev) + k \<le> length (ev_vector ev)" and "length (ev_vector ev) < 2 ^ 64"
    and "fst ` set ws \<subseteq> {..<k}"
  shows "fw_put ws ev = Some (ev\<lparr>ev_vector :=
           fold (\<lambda>(i, b) xs. xs[i + unat (mIndexBegin ev) := b]) ws (ev_vector ev)\<rparr>)"
  using assms
proof (induction ws arbitrary: ev)
  case Nil
  then show ?case by simp
next
  case (Cons p ws)
  obtain i b where p: "p = (i, b)" by (cases p)
  have i: "i < k" using Cons.prems(3) p by simp
  have "of_nat i + mIndexBegin ev = of_nat (i + unat (mIndexBegin ev))" by simp
  moreover have "i + unat (mIndexBegin ev) < 2 ^ 64" using i Cons.prems(1,2) by linarith
  ultimately have k: "unat (of_nat i + mIndexBegin ev) = i + unat (mIndexBegin ev)"
    by (simp only: unat_of_nat_small)
  have put: "ev_put (of_nat i) b ev = Some (ev\<lparr>ev_vector := (ev_vector ev)[i + unat (mIndexBegin ev) := b]\<rparr>)"
    using i Cons.prems(1) by (simp only: ev_put_def Let_def k) simp
  show ?case
    using Cons.IH [of "ev\<lparr>ev_vector := (ev_vector ev)[i + unat (mIndexBegin ev) := b]\<rparr>"] Cons.prems p put by simp
qed

lemma length_fold_update [simp]:
  "length (fold (\<lambda>(i, b) xs. xs[i + d := b]) ws xs) = length xs"
  by (induction ws arbitrary: xs) auto

lemma nth_fold_update:
  "distinct (map fst ws) \<Longrightarrow> j < length xs \<Longrightarrow>
     fold (\<lambda>(i, b) xs. xs[i + d := b]) ws xs ! j =
       (case (if d \<le> j then map_of ws (j - d) else None) of None \<Rightarrow> xs ! j | Some b \<Rightarrow> b)"
proof (induction ws arbitrary: xs)
  case (Cons p ws)
  obtain i b where p: "p = (i, b)" by (cases p)
  have "map_of ws i = None" using Cons.prems(1) p by (simp add: map_of_eq_None_iff image_def)
  then show ?case using Cons p by (auto simp: nth_list_update split: option.splits)
qed simp

context codec
begin

lemma fold_update_enc:
  assumes "length old = width"
  shows "fold (\<lambda>(i, b) xs. xs[i + length pre := b]) (writes v) (pre @ old @ post) = pre @ enc_bytes (writes v) @ post"
proof (rule nth_equalityI)
  show "length (fold (\<lambda>(i, b) xs. xs[i + length pre := b]) (writes v) (pre @ old @ post))
          = length (pre @ enc_bytes (writes v) @ post)" using assms length_law by simp
  fix j assume "j < length (fold (\<lambda>(i, b) xs. xs[i + length pre := b]) (writes v) (pre @ old @ post))"
  then have j: "j < length (pre @ old @ post)" by simp
  have in_dom: "map_of (writes v) i \<noteq> None \<longleftrightarrow> i < width" for i
    using index_law [of v] by (force simp: map_of_eq_None_iff)
  show "fold (\<lambda>(i, b) xs. xs[i + length pre := b]) (writes v) (pre @ old @ post) ! j
          = (pre @ enc_bytes (writes v) @ post) ! j"
    unfolding nth_fold_update [OF writes_distinct j]
    using assms length_law in_dom [of "j - length pre"]
    by (auto simp: nth_append enc_bytes_def split: option.splits)
qed

lemma fw_write_run:
  assumes "ev_vector ev = pre @ old @ post" and "length old = width" and "unat (mIndexBegin ev) = length pre"
    and "length (pre @ old @ post) < 2 ^ 64"
  shows "fw_write (writes v) (of_nat width) ev =
           Some (ev\<lparr>ev_vector := pre @ enc_bytes (writes v) @ post, mIndexBegin := of_nat (length (pre @ old))\<rparr>)"
proof -
  have b: "mIndexBegin ev = of_nat (length pre)" using assms(3) by (rule eq_of_nat_unat)
  have "fst ` set (writes v) \<subseteq> {..<width}" using index_law [of v] by simp
  then have "fw_put (writes v) ev = Some (ev\<lparr>ev_vector := pre @ enc_bytes (writes v) @ post\<rparr>)"
    using fw_put_run [of ev width "writes v"] assms fold_update_enc by simp
  then show ?thesis using b assms(2) by (simp add: fw_write_def ev_increaseBegin_def)
qed

end

text \<open>The bytes a sequence of fields stands for.\<close>

fun field_bytes :: "byte_writer \<Rightarrow> field \<Rightarrow> byte list" where
  "field_bytes w (F8 v) = [v]"
| "field_bytes w (F16 v) = enc_bytes (w16 w v)"
| "field_bytes w (F32 v) = enc_bytes (w32 w v)"
| "field_bytes w (F64 v) = enc_bytes (w64 w v)"
| "field_bytes w (FBytes bs) = bs"

definition fields_bytes :: "byte_writer \<Rightarrow> field list \<Rightarrow> byte list" where
  "fields_bytes w fs = concat (map (field_bytes w) fs)"

text \<open>\<open>pre\<close> is before the window's begin, \<open>old\<close> is overwritten, \<open>post\<close> stays.\<close>

definition at_window :: "byte ext_vector \<Rightarrow> byte list \<Rightarrow> byte list \<Rightarrow> bool" where
  "at_window ev pre rest \<longleftrightarrow> ev_vector ev = pre @ rest \<and> mIndexBegin ev = of_nat (length pre)
     \<and> length (pre @ rest) < 2 ^ 64"

definition written :: "byte ext_vector \<Rightarrow> byte list \<Rightarrow> byte list \<Rightarrow> byte list \<Rightarrow> byte ext_vector" where
  "written ev pre bs post = ev\<lparr>ev_vector := pre @ bs @ post, mIndexBegin := of_nat (length (pre @ bs))\<rparr>"

lemma enc_write8 [simp]: "enc_bytes (write8 v) = [v]"
  by (simp add: enc_bytes_def write8_def)

lemma at_window_unat: "at_window ev pre rest \<Longrightarrow> unat (mIndexBegin ev) = length pre"
  by (simp add: at_window_def unat_of_nat_small)

lemma written_at_window:
  "at_window ev pre (old @ post) \<Longrightarrow> length bs = length old \<Longrightarrow> at_window (written ev pre bs post) (pre @ bs) post"
  by (simp add: at_window_def written_def)

lemma written_written: "written (written ev pre as (bs @ cs)) (pre @ as) bs' cs = written ev pre (as @ bs') cs"
  by (simp add: written_def)

lemma fw_writeBytes_run:
  assumes "at_window ev pre (old @ post)" and "length old = length bs"
  shows "fw_writeBytes bs ev = Some (written ev pre bs post)"
  using assms
proof (induction bs arbitrary: ev pre old)
  case Nil
  then show ?case by (cases ev) (auto simp: written_def at_window_def)
next
  case (Cons b bs)
  obtain c old' where old: "old = c # old'" using Cons.prems(2) by (cases old) auto
  have "fw_write (write8 b) 1 ev = Some (written ev pre [b] (old' @ post))"
    using c8.fw_write_run [of ev pre "[c]" "old' @ post" b] Cons.prems(1) old at_window_unat [OF Cons.prems(1)]
    by (simp add: at_window_def written_def)
  moreover have w: "at_window (written ev pre [b] (old' @ post)) (pre @ [b]) (old' @ post)"
    using Cons.prems(1) old by (intro written_at_window [where old = "[c]"]) simp_all
  moreover have "fw_writeBytes bs (written ev pre [b] (old' @ post)) = Some (written (written ev pre [b] (old' @ post)) (pre @ [b]) bs post)"
    using Cons.IH [OF w] Cons.prems(2) old by simp
  ultimately show ?case by (simp add: written_written)
qed

lemma fw_writeOneT_run:
  assumes w: "w = BigEndianWriter \<or> w = LittleEndianWriter"
    and a: "at_window ev pre (old @ post)" and l: "length old = length (field_bytes w f)"
  shows "fw_writeOneT w f ev = Some (written ev pre (field_bytes w f) post)"
proof -
  have u: "unat (mIndexBegin ev) = length pre" using at_window_unat [OF a] .
  have v: "ev_vector ev = pre @ old @ post" "length (pre @ old @ post) < 2 ^ 64" using a by (simp_all add: at_window_def)
  show ?thesis
  proof (cases f)
    case (F8 x)
    then show ?thesis using c8.fw_write_run [OF v(1) _ u v(2), of x] l by (simp add: written_def)
  next
    case (F16 x)
    then show ?thesis
      using be16.fw_write_run [OF v(1) _ u v(2), of x] le16.fw_write_run [OF v(1) _ u v(2), of x] l w
        be16.length_law le16.length_law
      by (auto simp: written_def BigEndianWriter_def LittleEndianWriter_def)
  next
    case (F32 x)
    then show ?thesis
      using be32.fw_write_run [OF v(1) _ u v(2), of x] le32.fw_write_run [OF v(1) _ u v(2), of x] l w
        be32.length_law le32.length_law
      by (auto simp: written_def BigEndianWriter_def LittleEndianWriter_def)
  next
    case (F64 x)
    then show ?thesis
      using be64.fw_write_run [OF v(1) _ u v(2), of x] le64.fw_write_run [OF v(1) _ u v(2), of x] l w
        be64.length_law le64.length_law
      by (auto simp: written_def BigEndianWriter_def LittleEndianWriter_def)
  next
    case (FBytes bs)
    then show ?thesis using fw_writeBytes_run [OF a] l by simp
  qed
qed

lemma fw_writeAll_run:
  assumes w: "w = BigEndianWriter \<or> w = LittleEndianWriter"
    and a: "at_window ev pre (old @ post)" and l: "length old = length (fields_bytes w fs)"
  shows "fw_writeAll w fs ev = Some (written ev pre (fields_bytes w fs) post)"
  using a l
proof (induction fs arbitrary: ev pre old)
  case Nil
  then show ?case by (cases ev) (auto simp: written_def at_window_def fields_bytes_def)
next
  case (Cons f fs)
  let ?n = "length (field_bytes w f)"
  let ?o1 = "take ?n old" and ?o2 = "drop ?n old"
  have l1: "length ?o1 = ?n" and l2: "length ?o2 = length (fields_bytes w fs)"
    using Cons.prems(2) by (simp_all add: fields_bytes_def)
  have a1: "at_window ev pre (?o1 @ (?o2 @ post))" using Cons.prems(1) by (metis append_assoc append_take_drop_id)
  have s1: "fw_writeOneT w f ev = Some (written ev pre (field_bytes w f) (?o2 @ post))"
    using fw_writeOneT_run [OF w a1 l1] .
  have a2: "at_window (written ev pre (field_bytes w f) (?o2 @ post)) (pre @ field_bytes w f) (?o2 @ post)"
    using written_at_window [OF a1] l1 by simp
  from Cons.IH [OF a2 l2] s1 show ?case by (simp add: written_written fields_bytes_def)
qed

lemma mySizeOfArgs_bytes:
  "w = BigEndianWriter \<or> w = LittleEndianWriter \<Longrightarrow> mySizeOfArgs fs = of_nat (length (fields_bytes w fs))"
proof (induction fs)
  case (Cons f fs)
  have "field_size f = of_nat (length (field_bytes w f))"
    using Cons.prems be16.length_law le16.length_law be32.length_law le32.length_law be64.length_law le64.length_law
    by (cases f) (auto simp: BigEndianWriter_def LittleEndianWriter_def)
  then show ?case using Cons by (simp add: fields_bytes_def)
qed (simp add: fields_bytes_def)

lemma fw_writeT_room:
  assumes w: "w = BigEndianWriter \<or> w = LittleEndianWriter" and ok: "ev_ok ev"
    and n: "length (fields_bytes w fs) \<le> length (ev_view ev)"
  shows "\<exists>ev'. fw_writeT w fs ev = Some ev' \<and> ev_ok ev'
           \<and> ev_vector ev' = take (unat (mIndexBegin ev)) (ev_vector ev) @ fields_bytes w fs
                @ drop (unat (mIndexBegin ev) + length (fields_bytes w fs)) (ev_vector ev)
           \<and> ev_view ev' = drop (length (fields_bytes w fs)) (ev_view ev)
           \<and> mIndexEnd ev' = mIndexEnd ev"
proof -
  let ?b = "unat (mIndexBegin ev)" and ?bs = "fields_bytes w fs"
  let ?pre = "take ?b (ev_vector ev)" and ?old = "take (length ?bs) (drop ?b (ev_vector ev))"
  let ?post = "drop (?b + length ?bs) (ev_vector ev)"
  let ?ev = "written ev ?pre ?bs ?post"
  have le: "?b + length ?bs \<le> unat (mIndexEnd ev)" using ev_bound [OF ok n] by (simp add: add.commute)
  have len: "unat (mIndexEnd ev) \<le> length (ev_vector ev)" "length (ev_vector ev) < 2 ^ 64"
    using ok by (simp_all add: ev_ok_def)
  have "?post = drop (length ?bs) (drop ?b (ev_vector ev))" by (simp add: add.commute)
  then have "?pre @ ?old @ ?post = ev_vector ev" by (simp only: append_take_drop_id)
  then have a: "at_window ev ?pre (?old @ ?post)" using le len by (simp add: at_window_def)
  have lo: "length ?old = length ?bs" using le len by simp
  have "length ?bs < 2 ^ 64" using le len by linarith
  then have "\<not> ev_size ev < mySizeOfArgs fs"
    using n ev_size_view [OF ok] mySizeOfArgs_bytes [OF w, of fs]
    by (simp add: word_less_nat_alt unat_of_nat_small)
  then have run: "fw_writeT w fs ev = Some ?ev"
    using fw_writeAll_run [OF w a lo] by (simp add: fw_writeT_def)
  have be: "unat (mIndexBegin ?ev) = ?b + length ?bs"
    using le len by (simp add: written_def unat_of_nat_small flip: of_nat_add)
  have lv: "length (ev_vector ?ev) = length (ev_vector ev)" "mIndexEnd ?ev = mIndexEnd ev"
    using le len by (simp_all add: written_def)
  have ok': "ev_ok ?ev" using be lv le len by (simp add: ev_ok_def)
  have "ev_view ?ev = drop (length ?bs) (ev_view ev)"
    using be le len by (simp add: ev_view_def written_def drop_take add.commute)
  then show ?thesis using run ok' by (auto simp: written_def)
qed

text \<open>A write at the end of the underlying vector is out of bounds.\<close>

lemma fw_writeAll_end:
  assumes w: "w = BigEndianWriter \<or> w = LittleEndianWriter"
    and a: "unat (mIndexBegin ev) = length (ev_vector ev)" "length (ev_vector ev) + 8 < 2 ^ 64"
    and ne: "fields_bytes w fs \<noteq> []"
  shows "fw_writeAll w fs ev = None"
  using ne
proof (induction fs)
  case (Cons f fs)
  have oob: "ev_put (of_nat i) b ev = None" if "i < 8" for i b
  proof -
    have "of_nat i + mIndexBegin ev = of_nat (i + unat (mIndexBegin ev))" by simp
    moreover have "i + unat (mIndexBegin ev) < 2 ^ 64" using that a by linarith
    ultimately have "unat (of_nat i + mIndexBegin ev) = i + unat (mIndexBegin ev)"
      by (simp only: unat_of_nat_small)
    then show ?thesis using a(1) by (simp only: ev_put_def Let_def) simp
  qed
  have none: "fw_write ((i, b) # ws) n ev = None" if "i < 8" for i b ws n
    using oob [OF that] by (simp add: fw_write_def)
  show ?case
  proof (cases f)
    case (FBytes bs)
    then show ?thesis using Cons none [of 0] by (cases bs) (simp_all add: fields_bytes_def write8_def)
  qed (use w none in \<open>auto simp: BigEndianWriter_def LittleEndianWriter_def write8_def be_write16_def
       le_write16_def be_write32_def le_write32_def be_write64_def le_write64_def\<close>)
qed (simp add: fields_bytes_def)

lemma fw_writeT_fresh:
  assumes w: "w = BigEndianWriter \<or> w = LittleEndianWriter"
    and n: "fields_bytes w fs \<noteq> []" "length (fields_bytes w fs) + 8 < 2 ^ 64"
  shows "fw_writeT w fs ev_new = Some \<lparr>ev_vector = fields_bytes w fs,
           mIndexBegin = of_nat (length (fields_bytes w fs)), mIndexEnd = 0\<rparr>"
proof -
  let ?bs = "fields_bytes w fs"
  have u: "unat (of_nat (length ?bs) :: size_t) = length ?bs" using n(2) by (simp add: unat_of_nat_small)
  then have z: "(0 :: size_t) < of_nat (length ?bs)" using n(1) by (simp add: word_less_nat_alt)
  let ?ev = "\<lparr>ev_vector = replicate (length ?bs) 0, mIndexBegin = 0, mIndexEnd = 0\<rparr>"
  have ex: "ev_expand 0 (of_nat (length ?bs)) (ev_new :: byte ext_vector) = ?ev"
    using z by (simp add: ev_expand_def ev_new_def ev_size_def Let_def u)
  have a: "at_window ?ev [] (replicate (length ?bs) 0 @ [])" using n(2) by (simp add: at_window_def)
  have "fw_writeAll w fs ?ev = Some (written ?ev [] ?bs [])"
    using fw_writeAll_run [OF w a] by simp
  then show ?thesis using z ex mySizeOfArgs_bytes [OF w, of fs]
    by (simp add: fw_writeT_def ev_size_def ev_new_def written_def)
qed

section \<open>Properties\<close>

definition sample_window :: "byte ext_vector" where
  "sample_window = \<lparr>ev_vector = [9, 0x12, 0x34, 0x56, 0x78, 7, 7, 7, 7], mIndexBegin = 1, mIndexEnd = 9\<rparr>"

lemma sample_window_ok:
  "ev_ok sample_window" "ev_view sample_window = [0x12, 0x34, 0x56, 0x78, 7, 7, 7, 7]"
  by (simp_all add: ev_ok_def ev_view_def sample_window_def)



text \<open>
  \<open>writeT\<close> on a window with room for its arguments writes exactly their bytes, in order and in
  the writer's byte order, at the begin of the window, keeps all other bytes of the vector, and
  leaves the window behind what was written.
\<close>

theorem field_writer_room:
  assumes "w = BigEndianWriter \<or> w = LittleEndianWriter" and "ev_ok ev"
    and "length (fields_bytes w fs) \<le> length (ev_view ev)"
  shows "\<exists>ev'. fw_writeT w fs ev = Some ev' \<and> ev_ok ev'
           \<and> ev_vector ev' = take (unat (mIndexBegin ev)) (ev_vector ev) @ fields_bytes w fs
                @ drop (unat (mIndexBegin ev) + length (fields_bytes w fs)) (ev_vector ev)
           \<and> ev_view ev' = drop (length (fields_bytes w fs)) (ev_view ev)"
  using fw_writeT_room [OF assms] by blast

lemma field_writer_room_witness:
  "\<exists>ev'. fw_writeT BigEndianWriter [F8 1, F16 0x0203, FBytes [4, 5]] sample_window = Some ev'
     \<and> ev_vector ev' = [9, 1, 2, 3, 4, 5, 7, 7, 7]"
proof -
  have b: "fields_bytes BigEndianWriter [F8 1, F16 0x0203, FBytes [4, 5]] = [1, 2, 3, 4, 5]"
    by (simp add: fields_bytes_def BigEndianWriter_def enc_bytes_def be_write16_def upt_rec)
  show ?thesis
    using field_writer_room [OF _ sample_window_ok(1), of BigEndianWriter "[F8 1, F16 0x0203, FBytes [4, 5]]"]
    by (simp add: b sample_window_ok) (auto simp: sample_window_def)
qed

text \<open>
  The first \<open>writeT\<close> to a default constructed vector writes the bytes but leaves the window
  empty and inverted: its end stays 0, so nothing of what was written is in it, and its size wraps
  around to almost \<open>2 ^ 64\<close>. The next \<open>writeT\<close> therefore does not expand and writes out of bounds.
\<close>

theorem field_writer_fresh:
  assumes "w = BigEndianWriter \<or> w = LittleEndianWriter"
    and "fields_bytes w fs \<noteq> []" and "fields_bytes w gs \<noteq> []"
    and "length (fields_bytes w fs) + length (fields_bytes w gs) + 8 < 2 ^ 64"
  shows "\<exists>ev. fw_writeT w fs ev_new = Some ev \<and> ev_vector ev = fields_bytes w fs \<and> ev_view ev = []
           \<and> unat (ev_size ev) = 2 ^ 64 - length (fields_bytes w fs) \<and> fw_writeT w gs ev = None"
proof -
  let ?n = "length (fields_bytes w fs)"
  let ?ev = "\<lparr>ev_vector = fields_bytes w fs, mIndexBegin = of_nat ?n, mIndexEnd = 0\<rparr>"
  have n8: "?n + 8 < 2 ^ 64" using assms(4) by linarith
  have run: "fw_writeT w fs ev_new = Some ?ev" using fw_writeT_fresh [OF assms(1,2) n8] .
  have u: "unat (of_nat ?n :: size_t) = ?n" using n8 by (intro unat_of_nat_small) linarith
  have sz: "unat (ev_size ?ev) = 2 ^ 64 - ?n" 
    using unat_neg_of_nat [of ?n] assms(2) n8 by (simp add: ev_size_def)
  have ug: "unat (of_nat (length (fields_bytes w gs)) :: size_t) = length (fields_bytes w gs)"
    using assms(4) by (intro unat_of_nat_small) linarith
  have "\<not> ev_size ?ev < mySizeOfArgs gs"
    unfolding mySizeOfArgs_bytes [OF assms(1)] word_less_nat_alt sz ug using assms(4) by linarith
  moreover have "fw_writeAll w gs ?ev = None"
    using fw_writeAll_end [OF assms(1) _ _ assms(3), of ?ev] u n8 by simp
  ultimately have "fw_writeT w gs ?ev = None" by (simp add: fw_writeT_def)
  then show ?thesis using run sz by (intro exI [of _ ?ev]) (simp add: ev_view_def)
qed

lemma field_writer_fresh_witness:
  "\<exists>ev. fw_writeT BigEndianWriter [F8 1] ev_new = Some ev \<and> fw_writeT BigEndianWriter [F8 2] ev = None"
  using field_writer_fresh [of BigEndianWriter "[F8 1]" "[F8 2]"] by (auto simp: fields_bytes_def)

text \<open>The value with its bytes reversed.\<close>

definition byte_swap32 :: "32 word \<Rightarrow> 32 word" where
  "byte_swap32 v = push_bit 24 (ucast (ucast v :: byte)) OR push_bit 16 (ucast (ucast (drop_bit 8 v) :: byte))
     OR push_bit 8 (ucast (ucast (drop_bit 16 v) :: byte)) OR ucast (ucast (drop_bit 24 v) :: byte)"

definition byte_swap64 :: "64 word \<Rightarrow> 64 word" where
  "byte_swap64 v = push_bit 56 (ucast (ucast v :: byte)) OR push_bit 48 (ucast (ucast (drop_bit 8 v) :: byte))
     OR push_bit 40 (ucast (ucast (drop_bit 16 v) :: byte)) OR push_bit 32 (ucast (ucast (drop_bit 24 v) :: byte))
     OR push_bit 24 (ucast (ucast (drop_bit 32 v) :: byte)) OR push_bit 16 (ucast (ucast (drop_bit 40 v) :: byte))
     OR push_bit 8 (ucast (ucast (drop_bit 48 v) :: byte)) OR ucast (ucast (drop_bit 56 v) :: byte)"

lemma ev_at_prefix:
  assumes "ev_ok s" and "ev_view s = bs @ r"
  shows "i < length bs \<Longrightarrow> ev_at s (of_nat i) = Some (bs ! i)"
  using ev_at_view [OF assms(1), of i] assms(2) by (simp add: nth_append)

lemma le_of_be32:
  assumes "\<And>i. i < 4 \<Longrightarrow> vec (of_nat i) = Some (enc_bytes (be_write32 v) ! i)"
  shows "le_read32 vec = Some (byte_swap32 v)"
  using assms [of 0] assms [of 1] assms [of 2] assms [of 3]
  by (simp add: le_read32_def enc_bytes_def be_write32_def byte_swap32_def bytes32 del: drop_bit_and)

lemma le_of_be64:
  assumes "\<And>i. i < 8 \<Longrightarrow> vec (of_nat i) = Some (enc_bytes (be_write64 v) ! i)"
  shows "le_read64 vec = Some (byte_swap64 v)"
  using assms [of 0] assms [of 1] assms [of 2] assms [of 3] assms [of 4] assms [of 5] assms [of 6] assms [of 7]
  by (simp add: le_read64_def enc_bytes_def be_write64_def byte_swap64_def bytes64 del: drop_bit_and)

text \<open>
  \<open>LittleEndianFieldWriter\<close> is an alias for the big endian writer. What it writes,
  \<open>LittleEndianFieldReader\<close> reads with the bytes reversed: as another number, for instance for 1.
\<close>

theorem little_endian_writer_swaps:
  assumes "ev_ok s"
  shows "(ev_view s = enc_bytes (w32 LittleEndianFieldWriter v) @ r \<longrightarrow>
            (\<exists>s'. fr_readT ev_at ev_advance le_read32 4 s = Some (byte_swap32 v, s') \<and> ev_view s' = r))
       \<and> (ev_view s = enc_bytes (w64 LittleEndianFieldWriter u) @ r \<longrightarrow>
            (\<exists>s'. fr_readT ev_at ev_advance le_read64 8 s = Some (byte_swap64 u, s') \<and> ev_view s' = r))
       \<and> byte_swap32 1 = 0x01000000 \<and> byte_swap64 1 = 0x0100000000000000"
proof (intro conjI impI)
  assume v: "ev_view s = enc_bytes (w32 LittleEndianFieldWriter v) @ r"
  then have "le_read32 (ev_at s) = Some (byte_swap32 v)"
    using ev_at_prefix [OF assms] be32.length_law
    by (intro le_of_be32) (simp add: LittleEndianFieldWriter_def BigEndianWriter_def)
  moreover have "ev_view (ev_increaseBegin (of_nat 4) s) = r"
    using ev_increaseBegin_view [OF assms, of 4] v be32.length_law
    by (simp add: LittleEndianFieldWriter_def BigEndianWriter_def)
  ultimately show "\<exists>s'. fr_readT ev_at ev_advance le_read32 4 s = Some (byte_swap32 v, s') \<and> ev_view s' = r"
    by (simp add: fr_readT_def ev_advance_def)
next
  assume v: "ev_view s = enc_bytes (w64 LittleEndianFieldWriter u) @ r"
  then have "le_read64 (ev_at s) = Some (byte_swap64 u)"
    using ev_at_prefix [OF assms] be64.length_law
    by (intro le_of_be64) (simp add: LittleEndianFieldWriter_def BigEndianWriter_def)
  moreover have "ev_view (ev_increaseBegin (of_nat 8) s) = r"
    using ev_increaseBegin_view [OF assms, of 8] v be64.length_law
    by (simp add: LittleEndianFieldWriter_def BigEndianWriter_def)
  ultimately show "\<exists>s'. fr_readT ev_at ev_advance le_read64 8 s = Some (byte_swap64 u, s') \<and> ev_view s' = r"
    by (simp add: fr_readT_def ev_advance_def)
next
  show "byte_swap32 1 = 0x01000000" "byte_swap64 1 = 0x0100000000000000"
    by (simp_all add: byte_swap32_def byte_swap64_def push_bit_eq_mult drop_bit_eq_div)
qed

lemma little_endian_writer_swaps_witness:
  "\<exists>s'. fr_readT ev_at ev_advance le_read32 4 sample_window = Some (byte_swap32 0x12345678, s') \<and> ev_view s' = [7, 7, 7, 7]"
proof -
  have "ev_view sample_window = enc_bytes (w32 LittleEndianFieldWriter 0x12345678) @ [7, 7, 7, 7]"
    by (simp add: sample_window_ok LittleEndianFieldWriter_def BigEndianWriter_def enc_bytes_def be_write32_def upt_rec)
  then show ?thesis
    using little_endian_writer_swaps [OF sample_window_ok(1), where v = "0x12345678" and r = "[7, 7, 7, 7]"] by blast
qed

text \<open>Reading more values than the vector has bytes for is out of bounds at some point.\<close>

lemma be_read64_bound: "be_read64 (ev_at s) \<noteq> None \<Longrightarrow> unat (7 + mIndexBegin s) < length (ev_vector s)"
  by (auto simp: be_read64_def ev_at_def Let_def bind_Some_iff split: if_splits)

lemma le_read64_bound: "le_read64 (ev_at s) \<noteq> None \<Longrightarrow> unat (7 + mIndexBegin s) < length (ev_vector s)"
  by (auto simp: le_read64_def ev_at_def Let_def bind_Some_iff split: if_splits)

lemma readTVector_runs_out:
  assumes bound: "\<And>s. rd (ev_at s) \<noteq> None \<Longrightarrow> unat (7 + mIndexBegin s) < length (ev_vector s)"
    and "unat (mIndexBegin s) \<le> length (ev_vector s)" and "length (ev_vector s) + 8 < 2 ^ 64"
    and "length (ev_vector s) < unat (mIndexBegin s) + 8 * k"
  shows "fr_readTVector ev_at ev_advance rd 8 k s = None"
  using assms(2-)
proof (induction k arbitrary: s)
  case (Suc k)
  show ?case
  proof (cases "rd (ev_at s)")
    case None
    then show ?thesis by (simp add: fr_readT_def)
  next
    case (Some v)
    have "7 + unat (mIndexBegin s) < 2 ^ 64" using Suc.prems(1,2) by simp
    then have "unat (7 + mIndexBegin s) = 7 + unat (mIndexBegin s)" by (simp add: unat_word_ariths)
    then have b: "7 + unat (mIndexBegin s) < length (ev_vector s)" using bound [of s] Some by simp
    let ?s = "ev_increaseBegin 8 s"
    have "unat (mIndexBegin s + 8) = unat (mIndexBegin s) + 8"
      using Suc.prems(1,2) by (simp add: unat_word_ariths)
    then have "fr_readTVector ev_at ev_advance rd 8 k ?s = None"
      using Suc.prems b by (intro Suc.IH) (simp_all add: ev_increaseBegin_def)
    moreover have "ev_advance 8 s = Some ?s" by (simp add: ev_advance_def)
    ultimately show ?thesis using Some by (simp add: fr_readT_def)
  qed
qed simp

text \<open>
  \<open>tryReadTVector\<close> multiplies the number of elements by their size in 64 bits before it asks for
  that many bytes. For \<open>2 ^ 61\<close> elements of 8 bytes the product is 0, so the check passes on every
  window, even an empty one, and the reads run out of the vector.
\<close>

theorem tryReadTVector_overflow:
  assumes "unat (mIndexBegin s) \<le> length (ev_vector s)" and "length (ev_vector s) + 8 < 2 ^ 64"
  shows "fr_canReadVectorT ev_hasLength 8 (2 ^ 61) s
       \<and> fr_tryReadTVector ev_at ev_advance ev_hasLength be_read64 8 (2 ^ 61) s = None"
proof -
  have "(2 ^ 61 * 8 :: size_t) = 2 ^ 64" by simp
  also have "\<dots> = 0" using word_exp_length_eq_0 [where 'a = 64] by simp
  finally have can: "fr_canReadVectorT ev_hasLength 8 (2 ^ 61) s"
    by (simp only: fr_canReadVectorT_def fr_hasBytes_def ev_hasLength_def) simp
  have "fr_readTVector ev_at ev_advance be_read64 8 (2 ^ 61) s = None"
    using assms by (intro readTVector_runs_out be_read64_bound) simp_all
  moreover have "unat (2 ^ 61 :: size_t) = 2 ^ 61" by simp
  ultimately show ?thesis using can by (simp only: fr_tryReadTVector_def) simp
qed

lemma tryReadTVector_overflow_witness:
  "fr_tryReadTVector ev_at ev_advance ev_hasLength be_read64 8 (2 ^ 61) sample_window = None"
  using tryReadTVector_overflow [of sample_window] by (simp add: sample_window_def)

end
