(* ===== verification/Variants.thy ===== *)
theory Variants
  imports ZqPrelude
begin

text \<open>
  Base/Expected.hpp (\<open>TwoVariant\<close>, \<open>Expected\<close>) and Base/Optional.hpp, with
  Base/ConstructableStorage.hpp: values built in place in raw storage. What the storage holds is kept
  apart from the status member, as in the code; using storage as an object that was not built in it
  is undefined (\<open>None\<close>).
\<close>

section \<open>TwoVariant\<close>

datatype ('a, 'b) storage = Unbuilt | HoldsFirst 'a | HoldsSecond 'b

datatype current_status = NoneActive | FirstActive | SecondActive

record ('a, 'b) two_variant =
  mStorage :: "('a, 'b) storage"
  mCurrentStatus :: current_status

fun st_getAsFirst :: "('a, 'b) storage \<Rightarrow> 'a option" where
  "st_getAsFirst (HoldsFirst a) = Some a"
| "st_getAsFirst _ = None"

fun st_getAsSecond :: "('a, 'b) storage \<Rightarrow> 'b option" where
  "st_getAsSecond (HoldsSecond b) = Some b"
| "st_getAsSecond _ = None"

definition tv_new :: "('a, 'b) two_variant" where
  "tv_new = \<lparr>mStorage = Unbuilt, mCurrentStatus = NoneActive\<rparr>"

definition tv_getFirst :: "('a, 'b) two_variant \<Rightarrow> 'a option" where
  "tv_getFirst v = st_getAsFirst (mStorage v)"

definition tv_getSecond :: "('a, 'b) two_variant \<Rightarrow> 'b option" where
  "tv_getSecond v = st_getAsSecond (mStorage v)"

definition tv_constructFirst :: "'a \<Rightarrow> ('a, 'b) two_variant \<Rightarrow> ('a, 'b) two_variant" where
  "tv_constructFirst a v = v\<lparr>mCurrentStatus := FirstActive, mStorage := HoldsFirst a\<rparr>"

definition tv_constructSecond :: "'b \<Rightarrow> ('a, 'b) two_variant \<Rightarrow> ('a, 'b) two_variant" where
  "tv_constructSecond b v = v\<lparr>mCurrentStatus := SecondActive, mStorage := HoldsSecond b\<rparr>"

definition tv_isFirst :: "('a, 'b) two_variant \<Rightarrow> bool" where
  "tv_isFirst v \<longleftrightarrow> mCurrentStatus v = FirstActive"

definition tv_isSecond :: "('a, 'b) two_variant \<Rightarrow> bool" where
  "tv_isSecond v \<longleftrightarrow> mCurrentStatus v = SecondActive"

definition tv_isActive :: "('a, 'b) two_variant \<Rightarrow> bool" where
  "tv_isActive v \<longleftrightarrow> mCurrentStatus v = NoneActive"

text \<open>\<open>destruct ()\<close> ends the object the status names, and leaves the status.\<close>

definition tv_destruct :: "('a, 'b) two_variant \<Rightarrow> ('a, 'b) two_variant option" where
  "tv_destruct v =
     (case mCurrentStatus v of
        FirstActive \<Rightarrow> map_option (\<lambda>_. v\<lparr>mStorage := Unbuilt\<rparr>) (tv_getFirst v)
      | NoneActive \<Rightarrow> Some v
      | SecondActive \<Rightarrow> map_option (\<lambda>_. v\<lparr>mStorage := Unbuilt\<rparr>) (tv_getSecond v))"

definition tv_constructFromOther ::
  "('a, 'b) two_variant \<Rightarrow> ('a, 'b) two_variant \<Rightarrow> ('a, 'b) two_variant option" where
  "tv_constructFromOther v other =
     (case mCurrentStatus other of
        FirstActive \<Rightarrow> map_option (\<lambda>a. v\<lparr>mStorage := HoldsFirst a\<rparr>) (tv_getFirst other)
      | SecondActive \<Rightarrow> map_option (\<lambda>b. v\<lparr>mStorage := HoldsSecond b\<rparr>) (tv_getSecond other)
      | NoneActive \<Rightarrow> Some v)"

definition tv_copy_construct :: "('a, 'b) two_variant \<Rightarrow> ('a, 'b) two_variant option" where
  "tv_copy_construct other =
     tv_constructFromOther \<lparr>mStorage = Unbuilt, mCurrentStatus = mCurrentStatus other\<rparr> other"

definition tv_copy_assign ::
  "('a, 'b) two_variant \<Rightarrow> ('a, 'b) two_variant \<Rightarrow> ('a, 'b) two_variant option" where
  "tv_copy_assign v other =
     (if mCurrentStatus v \<noteq> mCurrentStatus other then do {
        v1 \<leftarrow> tv_destruct v;
        v2 \<leftarrow> tv_constructFromOther v1 other;
        Some (v2\<lparr>mCurrentStatus := mCurrentStatus other\<rparr>)
      }
      else
        (case mCurrentStatus v of
           FirstActive \<Rightarrow> do {
             _ \<leftarrow> tv_getFirst v;
             a \<leftarrow> tv_getFirst other;
             Some (v\<lparr>mStorage := HoldsFirst a\<rparr>)
           }
         | SecondActive \<Rightarrow> do {
             _ \<leftarrow> tv_getSecond v;
             b \<leftarrow> tv_getSecond other;
             Some (v\<lparr>mStorage := HoldsSecond b\<rparr>)
           }
         | NoneActive \<Rightarrow> Some v))"

text \<open>\<open>swap\<close>, with the storages as raw bytes. The tests go through \<open>isActive ()\<close>.\<close>

definition tv_swap ::
  "('a, 'b) two_variant \<Rightarrow> ('a, 'b) two_variant \<Rightarrow> ('a, 'b) two_variant \<times> ('a, 'b) two_variant" where
  "tv_swap v other =
     (if tv_isActive v \<and> tv_isActive other then
        (\<lparr>mStorage = mStorage other, mCurrentStatus = mCurrentStatus other\<rparr>,
         \<lparr>mStorage = mStorage v, mCurrentStatus = mCurrentStatus v\<rparr>)
      else if tv_isActive v then
        (v\<lparr>mCurrentStatus := NoneActive\<rparr>,
         \<lparr>mStorage = mStorage v, mCurrentStatus = mCurrentStatus v\<rparr>)
      else if tv_isActive other then
        (\<lparr>mStorage = mStorage other, mCurrentStatus = mCurrentStatus other\<rparr>,
         other\<lparr>mCurrentStatus := NoneActive\<rparr>)
      else (v, other))"

definition tv_move_construct :: "('a, 'b) two_variant \<Rightarrow> ('a, 'b) two_variant \<times> ('a, 'b) two_variant" where
  "tv_move_construct other = tv_swap tv_new other"

section \<open>Expected\<close>

type_synonym ('t, 'e) expected = "('t, 'e) two_variant"

definition ex_value :: "'t \<Rightarrow> ('t, 'e) expected" where
  "ex_value t = tv_constructFirst t tv_new"

definition ex_error :: "'e \<Rightarrow> ('t, 'e) expected" where
  "ex_error e = tv_constructSecond e tv_new"

definition ex_isError :: "('t, 'e) expected \<Rightarrow> bool" where
  "ex_isError x \<longleftrightarrow> tv_isSecond x"

definition ex_bool :: "('t, 'e) expected \<Rightarrow> bool" where
  "ex_bool x \<longleftrightarrow> \<not> ex_isError x"

definition ex_getError :: "('t, 'e) expected \<Rightarrow> 'e option" where
  "ex_getError x = tv_getSecond x"

definition ex_get :: "('t, 'e) expected \<Rightarrow> 't option" where
  "ex_get x = tv_getFirst x"

definition ex_move_construct :: "('t, 'e) expected \<Rightarrow> ('t, 'e) expected \<times> ('t, 'e) expected" where
  "ex_move_construct other = tv_move_construct other"

section \<open>Optional\<close>

text \<open>\<open>op_built\<close> is the object in \<open>mStorageData\<close>, \<open>op_valid\<close> says that \<open>mConsturctedObject\<close> points to it.\<close>

record 'a optional =
  op_built :: "'a option"
  op_valid :: bool

definition op_new :: "'a optional" where
  "op_new = \<lparr>op_built = None, op_valid = False\<rparr>"

definition op_of :: "'a \<Rightarrow> 'a optional" where
  "op_of a = \<lparr>op_built = Some a, op_valid = True\<rparr>"

definition op_isValid :: "'a optional \<Rightarrow> bool" where
  "op_isValid x \<longleftrightarrow> op_valid x"

definition op_get :: "'a optional \<Rightarrow> 'a option" where
  "op_get x = (if op_valid x then op_built x else None)"

definition op_destruct :: "'a optional \<Rightarrow> 'a optional option" where
  "op_destruct x =
     (if op_isValid x then map_option (\<lambda>_. \<lparr>op_built = None, op_valid = False\<rparr>) (op_built x) else Some x)"

definition op_construct :: "'a \<Rightarrow> 'a optional \<Rightarrow> 'a optional option" where
  "op_construct a x = map_option (\<lambda>y. y\<lparr>op_built := Some a, op_valid := True\<rparr>) (op_destruct x)"

definition op_move_construct :: "'a optional \<Rightarrow> ('a optional \<times> 'a optional) option" where
  "op_move_construct other = do {
     a \<leftarrow> op_get other;
     Some (op_of a, other\<lparr>op_valid := False\<rparr>)
   }"

definition op_move_assign :: "'a optional \<Rightarrow> 'a optional \<Rightarrow> 'a optional option" where
  "op_move_assign x other = Option.bind (op_get other) (\<lambda>a. op_construct a x)"

section \<open>Invariants\<close>

text \<open>The status says what the storage holds.\<close>

definition tv_ok :: "('a, 'b) two_variant \<Rightarrow> bool" where
  "tv_ok v \<longleftrightarrow>
     (case mCurrentStatus v of
        NoneActive \<Rightarrow> mStorage v = Unbuilt
      | FirstActive \<Rightarrow> (\<exists>a. mStorage v = HoldsFirst a)
      | SecondActive \<Rightarrow> (\<exists>b. mStorage v = HoldsSecond b))"

lemma tv_ok_cases:
  assumes "tv_ok v"
  obtains (none) "v = tv_new"
  | (first) a where "v = \<lparr>mStorage = HoldsFirst a, mCurrentStatus = FirstActive\<rparr>"
  | (second) b where "v = \<lparr>mStorage = HoldsSecond b, mCurrentStatus = SecondActive\<rparr>"
  using assms by (cases v; cases "mCurrentStatus v") (auto simp: tv_ok_def tv_new_def)

lemma tv_ok_simps [simp]:
  "tv_ok tv_new" "tv_ok \<lparr>mStorage = HoldsFirst a, mCurrentStatus = FirstActive\<rparr>"
  "tv_ok \<lparr>mStorage = HoldsSecond b, mCurrentStatus = SecondActive\<rparr>"
  by (simp_all add: tv_ok_def tv_new_def)

lemmas tv_defs = tv_new_def tv_getFirst_def tv_getSecond_def tv_constructFirst_def tv_constructSecond_def
  tv_isFirst_def tv_isSecond_def tv_isActive_def tv_destruct_def tv_constructFromOther_def
  tv_copy_construct_def tv_copy_assign_def tv_swap_def tv_move_construct_def

lemmas ex_defs = ex_value_def ex_error_def ex_isError_def ex_bool_def ex_getError_def ex_get_def ex_move_construct_def

lemmas op_defs = op_new_def op_of_def op_isValid_def op_get_def op_destruct_def op_construct_def
  op_move_construct_def op_move_assign_def

definition op_ok :: "'a optional \<Rightarrow> bool" where
  "op_ok x \<longleftrightarrow> op_valid x = (op_built x \<noteq> None)"

section \<open>Properties\<close>

text \<open>
  Copying a \<open>TwoVariant\<close>, by construction or by assignment over any of the three states of the
  target, gives a variant equal to the source, with the storage and the status in agreement; it
  never destructs or reads an object that is not there. The \<open>Expected\<close> built from a value or an
  error reads back as such.
\<close>

theorem variant_copies:
  assumes "tv_ok v" and "tv_ok other"
  shows "tv_copy_construct other = Some other \<and> tv_copy_assign v other = Some other
       \<and> (\<exists>v'. tv_destruct v = Some v' \<and> mStorage v' = Unbuilt)
       \<and> ex_get (ex_value t :: ('t, 'e) expected) = Some t \<and> ex_bool (ex_value t :: ('t, 'e) expected)
       \<and> ex_getError (ex_error e :: ('t, 'e) expected) = Some e \<and> ex_isError (ex_error e :: ('t, 'e) expected)"
  using assms(1)
proof (cases v rule: tv_ok_cases)
qed (use assms(2) in \<open>cases other rule: tv_ok_cases; simp add: tv_defs ex_defs\<close>)+

lemma variant_copies_witness:
  "tv_copy_assign \<lparr>mStorage = HoldsSecond True, mCurrentStatus = SecondActive\<rparr>
      \<lparr>mStorage = HoldsFirst (3 :: nat), mCurrentStatus = FirstActive\<rparr>
    = Some \<lparr>mStorage = HoldsFirst 3, mCurrentStatus = FirstActive\<rparr>"
  by (rule variant_copies [OF tv_ok_simps(3) tv_ok_simps(2), THEN conjunct2, THEN conjunct1])

text \<open>
  C33: \<open>isActive ()\<close> answers the opposite of its name, so \<open>swap\<close> of two variants that both hold a
  value does nothing, and the move constructor loses the value: the source's storage is overwritten
  by the raw storage of the new variant and both end inactive. A moved \<open>Expected\<close> error is no longer
  an error, its \<open>operator bool\<close> says it holds a value, and reading either is undefined.
\<close>

theorem variant_moves_lose:
  assumes "tv_ok v" and "mCurrentStatus v \<noteq> NoneActive" and "tv_ok w" and "mCurrentStatus w \<noteq> NoneActive"
  shows "tv_swap v w = (v, w) \<and> tv_move_construct v = (tv_new, tv_new)
       \<and> (let (moved, source) = ex_move_construct (ex_error e :: ('t, 'e) expected)
          in \<not> ex_isError moved \<and> ex_bool moved \<and> ex_getError moved = None \<and> ex_get moved = None
             \<and> \<not> ex_isError source)"
  using assms(1)
proof (cases v rule: tv_ok_cases)
qed (use assms(3,2,4) in \<open>cases w rule: tv_ok_cases; auto simp: tv_defs ex_defs\<close>)+

lemma variant_moves_lose_witness:
  "tv_move_construct \<lparr>mStorage = (HoldsFirst 3 :: (nat, bool) storage), mCurrentStatus = FirstActive\<rparr> = (tv_new, tv_new)"
  using variant_moves_lose [of "\<lparr>mStorage = (HoldsFirst 3 :: (nat, bool) storage), mCurrentStatus = FirstActive\<rparr>"
      "\<lparr>mStorage = HoldsFirst 4, mCurrentStatus = FirstActive\<rparr>", THEN conjunct2, THEN conjunct1] by simp

text \<open>
  \<open>Optional\<close> destructs what it holds exactly once: constructing over any state leaves exactly
  the new object, \<open>destruct\<close> and the destructor after it are safe, and the move operations transfer the value of a
  valid source. Moving from an invalid \<open>Optional\<close> dereferences null. The moved-from object is never
  destructed: its \<open>Optional\<close> forgets it.
\<close>

theorem optional_contents:
  assumes "op_ok x" and "op_ok y"
  shows "op_construct a x = Some (op_of a) \<and> op_ok (op_of a)
       \<and> (\<exists>x'. op_destruct x = Some x' \<and> \<not> op_isValid x' \<and> op_destruct x' = Some x')
       \<and> (case op_get y of
            None \<Rightarrow> op_move_construct y = None \<and> op_move_assign x y = None
          | Some b \<Rightarrow> op_move_construct y = Some (op_of b, \<lparr>op_built = Some b, op_valid = False\<rparr>)
                      \<and> op_move_assign x y = Some (op_of b))"
  using assms by (cases x; cases y) (auto simp: op_ok_def op_defs)

lemma optional_contents_witness:
  "op_move_construct (op_of (7 :: nat)) = Some (op_of 7, \<lparr>op_built = Some 7, op_valid = False\<rparr>)
     \<and> op_move_construct (op_new :: nat optional) = None"
  using optional_contents [of "op_new :: nat optional" "op_of 7"] optional_contents [of op_new "op_new :: nat optional"]
  by (simp add: op_ok_def op_of_def op_new_def op_get_def)

end
