(* ===== verification/Streams.thy ===== *)
theory Streams
  imports FieldCodecs
begin

text \<open>
  Network/Stream.hpp and Stream.cpp: the input and output vectors the field readers and writers work
  on when they read from and write to a stream. The packets still queued in \<open>mVectors\<close> are the values
  of that linked list, in order (its \<open>front\<close> and \<open>pop_front\<close> are undefined on an empty list, as
  proved for the list). The virtual \<open>receiveData\<close> and \<open>sendCurrentSegment\<close> are arguments over an
  environment state.
\<close>

datatype receive_error = Timeout | ParseError | Other

section \<open>Input\<close>

record input_stream =
  mCurrentVector :: "byte ext_vector"
  mVectors :: "byte list list"
  mVectorsSize :: size_t

definition is_new :: input_stream where
  "is_new = \<lparr>mCurrentVector = ev_new, mVectors = [], mVectorsSize = 0\<rparr>"

definition is_switchToNextVector :: "input_stream \<Rightarrow> input_stream option" where
  "is_switchToNextVector s =
     (case mVectors s of
        [] \<Rightarrow> None
      | v # vs \<Rightarrow> Some (s\<lparr>mCurrentVector := ev_of_vector v, mVectors := vs\<rparr>))"

text \<open>\<open>increaseBegin\<close>: the loop takes one packet per turn.\<close>

function is_increaseBegin :: "size_t \<Rightarrow> input_stream \<Rightarrow> input_stream option" where
  "is_increaseBegin howMuch s =
     (if howMuch \<ge> ev_size (mCurrentVector s) then
        (let n = ev_size (mCurrentVector s);
             s1 = s\<lparr>mVectorsSize := mVectorsSize s - n\<rparr>
         in case is_switchToNextVector s1 of
              None \<Rightarrow> None
            | Some s2 \<Rightarrow> is_increaseBegin (howMuch - n) s2)
      else Some (s\<lparr>mCurrentVector := ev_increaseBegin howMuch (mCurrentVector s),
                   mVectorsSize := mVectorsSize s - howMuch\<rparr>))"
  by pat_completeness auto

termination
  by (relation "measure (\<lambda>(n, s). length (mVectors s))")
    (auto simp: is_switchToNextVector_def split: list.splits)

fun is_at_list :: "byte list list \<Rightarrow> size_t \<Rightarrow> byte" where
  "is_at_list [] i = 0"
| "is_at_list (v # vs) i =
     (if of_nat (length v) > i then v ! unat i else is_at_list vs (i - of_nat (length v)))"

definition is_at :: "input_stream \<Rightarrow> size_t \<Rightarrow> byte option" where
  "is_at s i =
     (if ev_size (mCurrentVector s) \<le> i
      then Some (is_at_list (mVectors s) (i - ev_size (mCurrentVector s)))
      else ev_at (mCurrentVector s) i)"

definition is_receiveNewData ::
  "('env \<Rightarrow> (receive_error + byte list) \<times> 'env) \<Rightarrow> 'env \<Rightarrow> input_stream \<Rightarrow> bool \<times> 'env \<times> input_stream" where
  "is_receiveNewData receiveData e s =
     (case receiveData e of
        (Inr v, e1) \<Rightarrow> (True, e1, s\<lparr>mVectorsSize := mVectorsSize s + of_nat (length v), mVectors := mVectors s @ [v]\<rparr>)
      | (Inl _, e1) \<Rightarrow> (False, e1, s))"

partial_function (option) is_hasLength ::
  "('env \<Rightarrow> (receive_error + byte list) \<times> 'env) \<Rightarrow> size_t \<Rightarrow> 'env \<Rightarrow> input_stream
     \<Rightarrow> (bool \<times> 'env \<times> input_stream) option" where
  "is_hasLength receiveData n e s =
     (if mVectorsSize s < n then
        (let (result, e1, s1) = is_receiveNewData receiveData e s
         in if \<not> result then Some (False, e1, s1) else is_hasLength receiveData n e1 s1)
      else Some (True, e, s))"

section \<open>Output\<close>

record output_stream =
  os_vector :: "byte ext_vector"
  mAutoSendDataSize :: size_t

definition os_new :: "size_t \<Rightarrow> output_stream" where
  "os_new autoSendSize = \<lparr>os_vector = ev_new, mAutoSendDataSize = autoSendSize\<rparr>"

definition os_size :: "output_stream \<Rightarrow> size_t" where
  "os_size s = ev_size (os_vector s)"

definition os_isAutoSendSizePassed :: "output_stream \<Rightarrow> bool" where
  "os_isAutoSendSizePassed s \<longleftrightarrow> ev_size (os_vector s) \<ge> mAutoSendDataSize s"

text \<open>\<open>sendCurrentSegment\<close> works on the whole object \<open>'s\<close>; \<open>base\<close> and \<open>setBase\<close> reach its base class part.\<close>

definition os_expand ::
  "('s \<Rightarrow> output_stream) \<Rightarrow> (output_stream \<Rightarrow> 's \<Rightarrow> 's) \<Rightarrow> ('s \<Rightarrow> 's option) \<Rightarrow> size_t \<Rightarrow> 's \<Rightarrow> 's option" where
  "os_expand base setBase sendCurrentSegment howMuch s =
     (if os_isAutoSendSizePassed (base s) then sendCurrentSegment s
      else Some (setBase ((base s)\<lparr>os_vector := ev_expand 0 howMuch (os_vector (base s))\<rparr>) s))"

section \<open>The input stream's invariant\<close>

definition is_view :: "input_stream \<Rightarrow> byte list" where
  "is_view s = ev_view (mCurrentVector s) @ concat (mVectors s)"

definition is_ok :: "input_stream \<Rightarrow> bool" where
  "is_ok s \<longleftrightarrow> ev_ok (mCurrentVector s) \<and> length (is_view s) < 2 ^ 64
     \<and> mVectorsSize s = of_nat (length (is_view s))"

lemma is_ok_new [simp]: "is_ok is_new"
  by (simp add: is_ok_def is_new_def is_view_def ev_ok_def ev_new_def ev_view_def)

lemma is_ok_ev_size: "is_ok s \<Longrightarrow> unat (ev_size (mCurrentVector s)) = length (ev_view (mCurrentVector s))"
  by (simp add: is_ok_def ev_size_view)

lemma is_at_list_view:
  "i < length (concat vs) \<Longrightarrow> length (concat vs) < 2 ^ 64 \<Longrightarrow> is_at_list vs (of_nat i) = concat vs ! i"
proof (induction vs arbitrary: i)
  case (Cons v vs)
  have u: "unat (of_nat i :: size_t) = i" "unat (of_nat (length v) :: size_t) = length v"
    using Cons.prems by (auto intro!: unat_of_nat_small)
  show ?case
  proof (cases "i < length v")
    case True
    then show ?thesis using u by (simp add: word_less_nat_alt nth_append)
  next
    case False
    then have "(of_nat i :: size_t) - of_nat (length v) = of_nat (i - length v)" by (simp add: of_nat_diff)
    moreover have "is_at_list vs (of_nat (i - length v)) = concat vs ! (i - length v)"
      using Cons.prems False by (intro Cons.IH) auto
    ultimately have "is_at_list vs (of_nat i - of_nat (length v)) = concat vs ! (i - length v)" by (simp only:)
    then show ?thesis using False u by (simp add: word_less_nat_alt nth_append)
  qed
qed simp

lemma is_at_view:
  assumes ok: "is_ok s" and i: "i < length (is_view s)"
  shows "is_at s (of_nat i) = Some (is_view s ! i)"
proof -
  let ?n = "length (ev_view (mCurrentVector s))"
  have len: "length (is_view s) < 2 ^ 64" using ok by (simp add: is_ok_def)
  then have u: "unat (of_nat i :: size_t) = i" using i by (intro unat_of_nat_small) linarith
  have e: "unat (ev_size (mCurrentVector s)) = ?n" using is_ok_ev_size [OF ok] .
  show ?thesis
  proof (cases "i < ?n")
    case True
    have "ev_ok (mCurrentVector s)" using ok by (simp add: is_ok_def)
    from ev_at_view [OF this True] show ?thesis
      using True u e by (simp add: is_at_def is_view_def nth_append word_le_nat_alt)
  next
    case False
    have "ev_size (mCurrentVector s) = of_nat ?n" using e by (rule eq_of_nat_unat)
    then have "of_nat i - ev_size (mCurrentVector s) = of_nat (i - ?n)" using False by (simp add: of_nat_diff)
    moreover have "is_at_list (mVectors s) (of_nat (i - ?n)) = concat (mVectors s) ! (i - ?n)"
      using i len False by (intro is_at_list_view) (auto simp: is_view_def)
    ultimately show ?thesis using False u e by (simp add: is_at_def is_view_def nth_append word_le_nat_alt)
  qed
qed

declare is_increaseBegin.simps [simp del]

text \<open>One turn of the loop of \<open>increaseBegin\<close>.\<close>

lemma is_increaseBegin_step:
  assumes ok: "is_ok s" and n: "length (ev_view (mCurrentVector s)) \<le> n" "n < 2 ^ 64" and v: "mVectors s = v # vs"
  shows "\<exists>s'. is_increaseBegin (of_nat n) s = is_increaseBegin (of_nat (n - length (ev_view (mCurrentVector s)))) s'
           \<and> is_ok s' \<and> mVectors s' = vs \<and> is_view s' = concat (mVectors s)"
proof -
  let ?k = "length (ev_view (mCurrentVector s))"
  have k: "ev_size (mCurrentVector s) = of_nat ?k" using is_ok_ev_size [OF ok] by (rule eq_of_nat_unat)
  have u: "unat (of_nat n :: size_t) = n" using n(2) by (rule unat_of_nat_small)
  have ge: "ev_size (mCurrentVector s) \<le> of_nat n" using is_ok_ev_size [OF ok] n(1) u by (simp add: word_le_nat_alt)
  let ?s = "s\<lparr>mVectorsSize := mVectorsSize s - of_nat ?k, mCurrentVector := ev_of_vector v, mVectors := vs\<rparr>"
  have "(of_nat n :: size_t) - of_nat ?k = of_nat (n - ?k)" using n(1) by (simp add: of_nat_diff)
  then have "is_increaseBegin (of_nat n) s = is_increaseBegin (of_nat (n - ?k)) ?s"
    using ge v k by (subst is_increaseBegin.simps) (simp add: is_switchToNextVector_def)
  moreover have "is_ok ?s \<and> is_view ?s = concat (mVectors s)"
  proof -
    have lv: "length v < 2 ^ 64" using ok v by (simp add: is_ok_def is_view_def)
    have "is_view ?s = concat (mVectors s)" using ev_of_vector_ok [OF lv] v by (simp add: is_view_def)
    then show ?thesis using ev_of_vector_ok [OF lv] ok by (simp add: is_ok_def is_view_def)
  qed
  ultimately show ?thesis by (intro exI [of _ ?s]) simp
qed

lemma is_increaseBegin_run:
  assumes "is_ok s" and "n < length (is_view s)"
  shows "\<exists>s'. is_increaseBegin (of_nat n) s = Some s' \<and> is_ok s' \<and> is_view s' = drop n (is_view s)"
  using assms
proof (induction "mVectors s" arbitrary: s n)
  case Nil
  then have v: "is_view s = ev_view (mCurrentVector s)" by (simp add: is_view_def)
  have ev: "ev_ok (mCurrentVector s)" using Nil.prems(1) by (simp add: is_ok_def)
  have u: "unat (of_nat n :: size_t) = n" using Nil.prems by (intro unat_of_nat_small) (simp add: is_ok_def)
  then have lt: "\<not> ev_size (mCurrentVector s) \<le> of_nat n"
    using is_ok_ev_size [OF Nil.prems(1)] Nil.prems(2) v by (simp add: word_le_nat_alt)
  let ?s = "s\<lparr>mCurrentVector := ev_increaseBegin (of_nat n) (mCurrentVector s), mVectorsSize := mVectorsSize s - of_nat n\<rparr>"
  have "is_increaseBegin (of_nat n) s = Some ?s" using lt by (subst is_increaseBegin.simps) simp
  moreover have "ev_ok (ev_increaseBegin (of_nat n) (mCurrentVector s))
      \<and> ev_view (ev_increaseBegin (of_nat n) (mCurrentVector s)) = drop n (is_view s)"
    using ev_increaseBegin_view [OF ev, of n] Nil.prems(2) v by simp
  ultimately show ?case using Nil by (simp add: is_ok_def is_view_def of_nat_diff less_imp_diff_less)
next
  case (Cons v vs)
  let ?k = "length (ev_view (mCurrentVector s))"
  have n64: "n < 2 ^ 64" using Cons.prems by (simp add: is_ok_def)
  show ?case
  proof (cases "?k \<le> n")
    case True
    obtain s' where st: "is_increaseBegin (of_nat n) s = is_increaseBegin (of_nat (n - ?k)) s'"
      and ok: "is_ok s'" and vs: "mVectors s' = vs" and vw: "is_view s' = concat (mVectors s)"
      using is_increaseBegin_step [OF Cons.prems(1) True n64] Cons.hyps(2) by metis
    have "is_view s = ev_view (mCurrentVector s) @ is_view s'" using vw by (simp add: is_view_def)
    moreover have "n - ?k < length (is_view s')" using Cons.prems(2) True calculation by simp
    ultimately show ?thesis using Cons.hyps(1) [of s' "n - ?k"] vs ok st True by simp
  next
    case False
    have ev: "ev_ok (mCurrentVector s)" using Cons.prems(1) by (simp add: is_ok_def)
    have "\<not> ev_size (mCurrentVector s) \<le> of_nat n"
      using is_ok_ev_size [OF Cons.prems(1)] False unat_of_nat_small [OF n64] by (simp add: word_le_nat_alt)
    then have "is_increaseBegin (of_nat n) s = Some (s\<lparr>mCurrentVector := ev_increaseBegin (of_nat n) (mCurrentVector s),
        mVectorsSize := mVectorsSize s - of_nat n\<rparr>)" by (subst is_increaseBegin.simps) simp
    then show ?thesis using ev_increaseBegin_view [OF ev, of n] False Cons.prems
      by (simp add: is_ok_def is_view_def of_nat_diff less_imp_diff_less)
  qed
qed

text \<open>Consuming everything: the loop asks for a packet after the last one.\<close>

lemma is_increaseBegin_all:
  assumes "is_ok s"
  shows "is_increaseBegin (of_nat (length (is_view s))) s = None"
  using assms
proof (induction "mVectors s" arbitrary: s)
  case Nil
  have "ev_size (mCurrentVector s) = of_nat (length (is_view s))"
    using is_ok_ev_size [OF Nil.prems] Nil.hyps by (intro eq_of_nat_unat) (simp add: is_view_def)
  then show ?case using Nil.hyps by (subst is_increaseBegin.simps) (simp add: is_switchToNextVector_def)
next
  case (Cons v vs)
  have "length (is_view s) < 2 ^ 64" using Cons.prems by (simp add: is_ok_def)
  then obtain s' where st: "is_increaseBegin (of_nat (length (is_view s))) s
        = is_increaseBegin (of_nat (length (is_view s) - length (ev_view (mCurrentVector s)))) s'"
    and ok: "is_ok s'" and vs: "mVectors s' = vs" and vw: "is_view s' = concat (mVectors s)"
    using is_increaseBegin_step [OF Cons.prems, of "length (is_view s)"] Cons.hyps(2)
    by (metis is_view_def le_add1 length_append)
  have "length (is_view s) - length (ev_view (mCurrentVector s)) = length (is_view s')"
    using vw by (simp add: is_view_def)
  then show ?case using Cons.hyps(1) [of s'] vs ok st by simp
qed

section \<open>The input stream as a byte source\<close>

text \<open>The test \<open>hasLength\<close> makes before it receives more.\<close>

definition is_has :: "input_stream \<Rightarrow> size_t \<Rightarrow> bool" where
  "is_has s n \<longleftrightarrow> \<not> mVectorsSize s < n"

interpretation inp: byte_source is_ok is_view is_at is_increaseBegin is_has 1
proof
  fix s i n assume ok: "is_ok s"
  show "i < length (is_view s) \<Longrightarrow> is_at s (of_nat i) = Some (is_view s ! i)" using is_at_view [OF ok] .
  show "n + 1 \<le> length (is_view s) \<Longrightarrow> \<exists>s'. is_increaseBegin (of_nat n) s = Some s' \<and> is_ok s' \<and> is_view s' = drop n (is_view s)"
    using is_increaseBegin_run [OF ok, of n] by simp
  show "n < 2 ^ 64 \<Longrightarrow> is_has s (of_nat n) \<longleftrightarrow> n \<le> length (is_view s)"
    using ok by (auto simp: is_has_def is_ok_def word_less_nat_alt unat_of_nat_small)
qed

interpretation isle16: field_source is_ok is_view is_at is_increaseBegin is_has 1 le_write16 le_read16 2 ..
interpretation isle32: field_source is_ok is_view is_at is_increaseBegin is_has 1 le_write32 le_read32 4 ..
interpretation isle64: field_source is_ok is_view is_at is_increaseBegin is_has 1 le_write64 le_read64 8 ..
interpretation isbe16: field_source is_ok is_view is_at is_increaseBegin is_has 1 be_write16 be_read16 2 ..
interpretation isbe32: field_source is_ok is_view is_at is_increaseBegin is_has 1 be_write32 be_read32 4 ..

section \<open>Waiting for data\<close>

text \<open>An environment that yields the results of a list, then time-outs.\<close>

fun receive_list :: "(receive_error + byte list) list \<Rightarrow> (receive_error + byte list) \<times> (receive_error + byte list) list" where
  "receive_list [] = (Inl Timeout, [])"
| "receive_list (r # rs) = (r, rs)"

lemma is_receiveNewData_view:
  assumes "is_ok s" and "length (is_view s) + length v < 2 ^ 64"
  shows "\<exists>s1. is_receiveNewData receive_list (Inr v # rs) s = (True, rs, s1) \<and> is_ok s1 \<and> is_view s1 = is_view s @ v"
  using assms by (auto simp: is_receiveNewData_def is_ok_def is_view_def)

text \<open>
  \<open>hasLength\<close> against a list of packets that ends with an error: it receives until there is enough
  data or the error comes.
\<close>

lemma is_hasLength_run:
  assumes "is_ok s" and "n < 2 ^ 64" and "length (is_view s) + length (concat ps) < 2 ^ 64"
  shows "\<exists>k s'. is_hasLength receive_list (of_nat n) (map Inr ps @ [Inl err]) s
             = Some (n \<le> length (is_view s) + length (concat ps), drop k (map Inr ps @ [Inl err]), s')
           \<and> is_ok s' \<and> is_view s' = is_view s @ concat (take k ps)
           \<and> (n \<le> length (is_view s) + length (concat ps) \<longrightarrow> n \<le> length (is_view s'))"
  using assms
proof (induction ps arbitrary: s)
  case Nil
  have has: "mVectorsSize s < of_nat n \<longleftrightarrow> length (is_view s) < n"
    using Nil.prems by (simp add: is_ok_def word_less_nat_alt unat_of_nat_small)
  show ?case
  proof (cases "length (is_view s) < n")
    case True
    then show ?thesis using has Nil.prems
      by (intro exI [of _ 1] exI [of _ s], subst is_hasLength.simps) (simp add: is_receiveNewData_def)
  next
    case False
    then show ?thesis using has Nil.prems
      by (intro exI [of _ 0] exI [of _ s], subst is_hasLength.simps) simp
  qed
next
  case (Cons p ps)
  have has: "mVectorsSize s < of_nat n \<longleftrightarrow> length (is_view s) < n"
    using Cons.prems by (simp add: is_ok_def word_less_nat_alt unat_of_nat_small)
  show ?case
  proof (cases "length (is_view s) < n")
    case True
    have "length (is_view s) + length p < 2 ^ 64" using Cons.prems(3) by simp
    then obtain s1 where s1: "is_receiveNewData receive_list (Inr p # (map Inr ps @ [Inl err])) s = (True, map Inr ps @ [Inl err], s1)"
      "is_ok s1" "is_view s1 = is_view s @ p" using is_receiveNewData_view [OF Cons.prems(1)] by blast
    have "length (is_view s1) + length (concat ps) < 2 ^ 64" using s1(3) Cons.prems(3) by simp
    from Cons.IH [OF s1(2) Cons.prems(2) this] obtain k s' where
      "is_hasLength receive_list (of_nat n) (map Inr ps @ [Inl err]) s1
         = Some (n \<le> length (is_view s1) + length (concat ps), drop k (map Inr ps @ [Inl err]), s')"
      "is_ok s'" "is_view s' = is_view s1 @ concat (take k ps)"
      "n \<le> length (is_view s1) + length (concat ps) \<longrightarrow> n \<le> length (is_view s')" by blast
    then show ?thesis using True has s1
      by (intro exI [of _ "Suc k"] exI [of _ s'], subst is_hasLength.simps) (simp add: add.assoc)
  next
    case False
    then show ?thesis using has Cons.prems
      by (intro exI [of _ 0] exI [of _ s], subst is_hasLength.simps) simp
  qed
qed

text \<open>With empty packets for ever the loop does not end.\<close>

lemma is_hasLength_diverges:
  assumes "mVectorsSize s < n"
  shows "is_hasLength (\<lambda>e. (Inr [], e)) n e s = None"
proof -
  have "receiveData = (\<lambda>e. (Inr [], e)) \<longrightarrow> n \<le> mVectorsSize s"
    if "is_hasLength receiveData n e s = Some r" for receiveData :: "'a \<Rightarrow> (receive_error + byte list) \<times> 'a" and r
  proof (rule is_hasLength.raw_induct
      [where P = "\<lambda>rd n e s r. rd = (\<lambda>e. (Inr [], e)) \<longrightarrow> n \<le> mVectorsSize s", OF _ that], intro impI, rule ccontr)
    fix f and rd :: "'a \<Rightarrow> (receive_error + byte list) \<times> 'a" and n e s r
    assume IH: "\<And>rd n e s r. f rd n e s = Some r \<Longrightarrow> rd = (\<lambda>e. (Inr [], e)) \<longrightarrow> n \<le> mVectorsSize s"
      and body: "(if mVectorsSize s < n
          then let (result, e1, s1) = is_receiveNewData rd e s in if \<not> result then Some (False, e1, s1) else f rd n e1 s1
          else Some (True, e, s)) = Some r"
      and rd: "rd = (\<lambda>e. (Inr [], e))" and less: "\<not> n \<le> mVectorsSize s"
    then have "f rd n e (s\<lparr>mVectors := mVectors s @ [[]]\<rparr>) = Some r"
      by (simp add: is_receiveNewData_def not_le)
    from IH [OF this] rd less show False by simp
  qed
  then show ?thesis using assms by (metis (no_types, lifting) not_None_eq leD)
qed

section \<open>Properties\<close>

text \<open>A stream whose bytes are spread over three packets.\<close>

definition sample_stream :: "byte list \<Rightarrow> input_stream" where
  "sample_stream bs = \<lparr>mCurrentVector = ev_of_vector [0x78], mVectors = [[0x56, 0x34], bs],
                       mVectorsSize = 3 + of_nat (length bs)\<rparr>"

lemma sample_stream_ok:
  "length bs < 100 \<Longrightarrow> is_ok (sample_stream bs) \<and> is_view (sample_stream bs) = [0x78, 0x56, 0x34] @ bs"
  by (simp add: sample_stream_def is_ok_def is_view_def ev_of_vector_ok)





end
