(* ===== verification/Sockets.thy ===== *)
theory Sockets
  imports ZqPrelude
begin

text \<open>
  Base/Socket.hpp and Base/Socket.cpp: the socket class over the platform's C socket functions
  (\<open>ZqSocketOpen\<close>, \<open>ZqSocketConnect\<close>, ...). These are the fields of \<open>socket_os\<close>, over the state
  \<open>'os\<close> of the operating system; a socket handle is \<open>'h option\<close>, \<open>None\<close> for \<open>ZQ_INVALID_SOCKET\<close>.
  An output argument that a call did not set is \<open>None\<close>; using it is undefined.
\<close>

section \<open>The platform's functions\<close>

datatype zq_error = ZQ_E_OK | ZQ_E_AGAIN | ZQ_E_OTHER nat

datatype family = ZQ_AF_UNSPEC | ZQ_AF_INET | ZQ_AF_INET6

datatype sock_type = Stream | Datagram

type_synonym port = "16 word"

text \<open>\<open>ZqSocketAddress\<close>: the family, and the address, port and length the constructors fill in.\<close>

record 'a sock_addr =
  socket_family :: family
  sin_family :: family
  sin_addr :: 'a
  sin_port :: port
  sin6_flowinfo :: "32 word"
  sin6_scope_id :: "32 word"
  socklen :: size_t

record ('h, 'a, 'os) socket_os =
  ZqSocketOpen :: "family \<Rightarrow> sock_type \<Rightarrow> nat \<Rightarrow> 'os \<Rightarrow> 'h option \<times> 'os"
  ZqSocketClose :: "'h \<Rightarrow> 'os \<Rightarrow> 'os"
  ZqSocketBind :: "'h option \<Rightarrow> 'a sock_addr \<Rightarrow> 'os \<Rightarrow> zq_error \<times> 'os"
  ZqSocketConnect :: "'h option \<Rightarrow> 'a sock_addr \<Rightarrow> 'os \<Rightarrow> zq_error \<times> 'os"
  ZqSocketListen :: "'h option \<Rightarrow> size_t \<Rightarrow> 'os \<Rightarrow> zq_error \<times> 'os"
  ZqSocketAccept :: "'h option \<Rightarrow> 'os \<Rightarrow> ('h option \<times> 'a sock_addr) \<times> 'os"
  ZqSocketSend :: "'h option \<Rightarrow> byte list \<Rightarrow> 'os \<Rightarrow> (zq_error \<times> size_t option) \<times> 'os"
  ZqSocketSendTo :: "'h option \<Rightarrow> byte list \<Rightarrow> 'a sock_addr \<Rightarrow> 'os \<Rightarrow> (zq_error \<times> size_t option) \<times> 'os"
  ZqSocketReceive :: "'h option \<Rightarrow> 'os \<Rightarrow> (zq_error \<times> byte list) \<times> 'os"
  ZqSocketReceiveFrom :: "'h option \<Rightarrow> 'os \<Rightarrow> (zq_error \<times> byte list \<times> 'a sock_addr) \<times> 'os"

section \<open>Addresses\<close>

definition sa_CreateIn6 :: "size_t \<Rightarrow> 'a \<Rightarrow> port \<Rightarrow> 'a sock_addr" where
  "sa_CreateIn6 sizeof_in6 address p =
     \<lparr>socket_family = ZQ_AF_INET6, sin_family = ZQ_AF_INET6, sin_addr = address, sin_port = p,
      sin6_flowinfo = 0, sin6_scope_id = 0, socklen = sizeof_in6\<rparr>"

text \<open>The flow information and the scope are not written by \<open>CreateIn4\<close>: \<open>garbage\<close>.\<close>

definition sa_CreateIn4 :: "32 word \<times> 32 word \<Rightarrow> size_t \<Rightarrow> 'a \<Rightarrow> port \<Rightarrow> 'a sock_addr" where
  "sa_CreateIn4 garbage sizeof_in address p =
     \<lparr>socket_family = ZQ_AF_INET, sin_family = ZQ_AF_INET, sin_addr = address, sin_port = p,
      sin6_flowinfo = fst garbage, sin6_scope_id = snd garbage, socklen = sizeof_in\<rparr>"

definition sa_CreateFromSockaddr :: "'a sock_addr \<Rightarrow> 'a sock_addr" where
  "sa_CreateFromSockaddr sockaddr = sockaddr"

definition sa_getFamily :: "'a sock_addr \<Rightarrow> family" where
  "sa_getFamily a = sin_family a"

section \<open>The socket\<close>

datatype connect_error = ConnectTimeout | ConnectOther
datatype listen_error = ListenOther
datatype bind_error = BindOther
datatype accept_error = AcceptOther
datatype receive_error = Disconnected | Timeout | Other

type_synonym 'h socket = "'h option"

definition so_isOpen :: "'h socket \<Rightarrow> bool" where
  "so_isOpen s \<longleftrightarrow> s \<noteq> None"

definition so_close :: "('h, 'a, 'os) socket_os \<Rightarrow> 'h socket \<Rightarrow> 'os \<Rightarrow> 'h socket \<times> 'os" where
  "so_close api s os = (case s of None \<Rightarrow> (s, os) | Some h \<Rightarrow> (None, ZqSocketClose api h os))"

definition so_move_construct :: "'h socket \<Rightarrow> 'h socket \<times> 'h socket" where
  "so_move_construct other = (other, None)"

definition so_move_assign ::
  "('h, 'a, 'os) socket_os \<Rightarrow> 'h socket \<Rightarrow> 'h socket \<Rightarrow> 'os \<Rightarrow> ('h socket \<times> 'h socket) \<times> 'os" where
  "so_move_assign api self other os =
     (let (_, os1) = so_close api self os in ((other, None), os1))"

definition so_bind :: "('h, 'a, 'os) socket_os \<Rightarrow> 'h socket \<Rightarrow> 'a sock_addr \<Rightarrow> 'os \<Rightarrow> bool \<times> 'os" where
  "so_bind api s address os =
     (let (r, os1) = ZqSocketBind api s address os in (if r \<noteq> ZQ_E_OK then (False, os1) else (True, os1)))"

definition so_connect :: "('h, 'a, 'os) socket_os \<Rightarrow> 'h socket \<Rightarrow> 'a sock_addr \<Rightarrow> 'os \<Rightarrow> bool \<times> 'os" where
  "so_connect api s address os =
     (let (r, os1) = ZqSocketConnect api s address os in (if r \<noteq> ZQ_E_OK then (False, os1) else (True, os1)))"

definition so_listen :: "('h, 'a, 'os) socket_os \<Rightarrow> 'h socket \<Rightarrow> size_t \<Rightarrow> 'os \<Rightarrow> bool \<times> 'os" where
  "so_listen api s backlog os =
     (let (r, os1) = ZqSocketListen api s backlog os in (if r \<noteq> ZQ_E_OK then (False, os1) else (True, os1)))"

text \<open>The static functions. A socket that goes out of scope is not closed: there is no destructor.\<close>

definition so_Connect ::
  "('h, 'a, 'os) socket_os \<Rightarrow> 'a sock_addr \<Rightarrow> sock_type \<Rightarrow> nat \<Rightarrow> 'os \<Rightarrow> (connect_error + 'h socket) \<times> 'os" where
  "so_Connect api address ty protocol os =
     (let (s, os1) = ZqSocketOpen api (sa_getFamily address) ty protocol os
      in if \<not> so_isOpen s then (Inl ConnectOther, os1)
         else (let (ok, os2) = so_connect api s address os1
               in if \<not> ok then (Inl ConnectTimeout, os2)
                  else (Inr (fst (so_move_construct s)), os2)))"

definition so_Bind ::
  "('h, 'a, 'os) socket_os \<Rightarrow> 'a sock_addr \<Rightarrow> sock_type \<Rightarrow> nat \<Rightarrow> 'os \<Rightarrow> (bind_error + 'h socket) \<times> 'os" where
  "so_Bind api address ty protocol os =
     (let (s, os1) = ZqSocketOpen api (sa_getFamily address) ty protocol os
      in if \<not> so_isOpen s then (Inl BindOther, os1)
         else (let (ok, os2) = so_bind api s address os1
               in if \<not> ok then (Inl BindOther, os2)
                  else (Inr (fst (so_move_construct s)), os2)))"

definition so_Listen ::
  "('h, 'a, 'os) socket_os \<Rightarrow> 'a sock_addr \<Rightarrow> sock_type \<Rightarrow> size_t \<Rightarrow> nat \<Rightarrow> 'os
     \<Rightarrow> (listen_error + 'h socket) \<times> 'os" where
  "so_Listen api address ty backlog protocol os =
     (case so_Bind api address ty protocol os of
        (Inl _, os1) \<Rightarrow> (Inl ListenOther, os1)
      | (Inr s, os1) \<Rightarrow>
          (let (ok, os2) = so_listen api s backlog os1
           in if \<not> ok then (Inl ListenOther, os2) else (Inr (fst (so_move_construct s)), os2)))"

definition so_accept ::
  "('h, 'a, 'os) socket_os \<Rightarrow> 'h socket \<Rightarrow> 'os \<Rightarrow> (accept_error + 'h socket \<times> 'a sock_addr) \<times> 'os" where
  "so_accept api s os =
     (let ((h, sockaddr), os1) = ZqSocketAccept api s os
      in if h = None then (Inl AcceptOther, os1)
         else (Inr (h, sa_CreateFromSockaddr sockaddr), os1))"

text \<open>\<open>send\<close>: the result code is only logged; the byte count starts as 0.\<close>

definition so_send :: "('h, 'a, 'os) socket_os \<Rightarrow> 'h socket \<Rightarrow> byte list \<Rightarrow> 'os \<Rightarrow> size_t \<times> 'os" where
  "so_send api s array os =
     (let ((_, sent), os1) = ZqSocketSend api s array os
      in (case sent of None \<Rightarrow> 0 | Some n \<Rightarrow> n, os1))"

definition so_sendToAddress ::
  "('h, 'a, 'os) socket_os \<Rightarrow> 'h socket \<Rightarrow> 'a sock_addr \<Rightarrow> byte list \<Rightarrow> 'os \<Rightarrow> size_t \<times> 'os" where
  "so_sendToAddress api s address array os =
     (let ((_, sent), os1) = ZqSocketSendTo api s array address os
      in (case sent of None \<Rightarrow> 0 | Some n \<Rightarrow> n, os1))"

text \<open>\<open>sendAll\<close> and \<open>sendAllToAddress\<close>: \<open>lastBytesSent\<close> has no initial value.\<close>

partial_function (option) so_sendAll_loop ::
  "(byte list \<Rightarrow> 'os \<Rightarrow> (zq_error \<times> size_t option) \<times> 'os) \<Rightarrow> byte list \<Rightarrow> size_t \<Rightarrow> 'os \<Rightarrow> 'os option" where
  "so_sendAll_loop sendf array bytesSent os =
     (if bytesSent < of_nat (length array) then
        (let ((result, sent), os1) = sendf (drop (unat bytesSent) array) os
         in Option.bind sent (\<lambda>lastBytesSent. so_sendAll_loop sendf array (bytesSent + lastBytesSent) os1))
      else Some os)"

definition so_sendAll :: "('h, 'a, 'os) socket_os \<Rightarrow> 'h socket \<Rightarrow> byte list \<Rightarrow> 'os \<Rightarrow> 'os option" where
  "so_sendAll api s array os = so_sendAll_loop (ZqSocketSend api s) array 0 os"

definition so_sendAllToAddress ::
  "('h, 'a, 'os) socket_os \<Rightarrow> 'h socket \<Rightarrow> 'a sock_addr \<Rightarrow> byte list \<Rightarrow> 'os \<Rightarrow> 'os option" where
  "so_sendAllToAddress api s address array os =
     so_sendAll_loop (\<lambda>bs. ZqSocketSendTo api s bs address) array 0 os"

definition so_receive ::
  "('h, 'a, 'os) socket_os \<Rightarrow> 'h socket \<Rightarrow> 'os \<Rightarrow> (receive_error + byte list) \<times> 'os" where
  "so_receive api s os =
     (let ((result, bytes), os1) = ZqSocketReceive api s os
      in if result = ZQ_E_AGAIN then (Inl Timeout, os1)
         else if result \<noteq> ZQ_E_OK then (Inl Other, os1)
         else if bytes = [] then (Inl Disconnected, os1)
         else (Inr bytes, os1))"

definition so_receiveWithAddress ::
  "('h, 'a, 'os) socket_os \<Rightarrow> 'h socket \<Rightarrow> 'os \<Rightarrow> (receive_error + byte list \<times> 'a sock_addr) \<times> 'os" where
  "so_receiveWithAddress api s os =
     (let ((result, bytes, address), os1) = ZqSocketReceiveFrom api s os
      in if result = ZQ_E_AGAIN then (Inl Timeout, os1)
         else if result \<noteq> ZQ_E_OK then (Inl Other, os1)
         else if bytes = [] then (Inl Disconnected, os1)
         else (Inr (bytes, address), os1))"

section \<open>Properties\<close>

lemma so_sendAll_loop_run:
  assumes send: "\<And>bs os. bs \<noteq> [] \<Longrightarrow> \<exists>k os'. sendf bs os = ((ZQ_E_OK, Some (of_nat k)), os')
                   \<and> 0 < k \<and> k \<le> length bs \<and> sent os' = sent os @ take k bs"
    and len: "length array < 2 ^ 64" and i: "i \<le> length array"
  shows "\<exists>os'. so_sendAll_loop sendf array (of_nat i) os = Some os' \<and> sent os' = sent os @ drop i array"
  using i
proof (induction "length array - i" arbitrary: i os rule: less_induct)
  case less
  have u: "unat (of_nat i :: size_t) = i" "unat (of_nat (length array) :: size_t) = length array"
    using less.prems len by (auto intro!: unat_of_nat_small)
  show ?case
  proof (cases "i < length array")
    case False
    then show ?thesis using less.prems u by (subst so_sendAll_loop.simps) (simp add: word_less_nat_alt)
  next
    case True
    then have "drop i array \<noteq> []" by simp
    from send [OF this, of os] obtain k os1 where k: "sendf (drop i array) os = ((ZQ_E_OK, Some (of_nat k)), os1)"
      "0 < k" "k \<le> length array - i" "sent os1 = sent os @ take k (drop i array)" by auto
    have "\<exists>os'. so_sendAll_loop sendf array (of_nat (i + k)) os1 = Some os' \<and> sent os' = sent os1 @ drop (i + k) array"
      using True k by (intro less.hyps) auto
    moreover have "sent os1 @ drop (i + k) array = sent os @ drop i array"
      using k(4) append_take_drop_id [of k "drop i array"] by (simp add: add.commute)
    ultimately show ?thesis using True k u
      by (subst so_sendAll_loop.simps) (simp add: word_less_nat_alt)
  qed
qed

text \<open>
  C7: \<open>sendAll\<close> returns after it has sent every byte of the array, once and in order, however the
  system splits the data, provided that each call succeeds and takes at least one byte.
\<close>

theorem socket_sendAll:
  assumes "\<And>bs os. bs \<noteq> [] \<Longrightarrow> \<exists>k os'. ZqSocketSend api s bs os = ((ZQ_E_OK, Some (of_nat k)), os')
             \<and> 0 < k \<and> k \<le> length bs \<and> sent os' = sent os @ take k bs"
    and "length array < 2 ^ 64"
  shows "\<exists>os'. so_sendAll api s array os = Some os' \<and> sent os' = sent os @ array"
  using so_sendAll_loop_run [where sendf = "ZqSocketSend api s" and sent = sent and i = 0, OF assms]
  by (simp add: so_sendAll_def)

text \<open>A system that takes two bytes at most per call and remembers them.\<close>

definition sample_os :: "(nat, nat, byte list) socket_os" where
  "sample_os =
     \<lparr>ZqSocketOpen = (\<lambda>_ _ _ os. (Some 1, os)), ZqSocketClose = (\<lambda>_ os. os),
      ZqSocketBind = (\<lambda>_ _ os. (ZQ_E_OK, os)), ZqSocketConnect = (\<lambda>_ _ os. (ZQ_E_OTHER 110, os)),
      ZqSocketListen = (\<lambda>_ _ os. (ZQ_E_OK, os)),
      ZqSocketAccept = (\<lambda>_ os. ((None, sa_CreateIn6 28 0 0), os)),
      ZqSocketSend = (\<lambda>_ bs os. ((ZQ_E_OK, Some (of_nat (min 2 (length bs)))), os @ take 2 bs)),
      ZqSocketSendTo = (\<lambda>_ bs _ os. ((ZQ_E_OK, Some (of_nat (length bs))), os @ bs)),
      ZqSocketReceive = (\<lambda>_ os. ((ZQ_E_AGAIN, []), os)),
      ZqSocketReceiveFrom = (\<lambda>_ os. ((ZQ_E_AGAIN, [], sa_CreateIn6 28 0 0), os))\<rparr>"

lemma socket_sendAll_witness:
  "so_sendAll sample_os (Some 1) [1, 2, 3, 4, 5] [] = Some [1, 2, 3, 4, 5]"
proof -
  have "\<exists>os'. so_sendAll sample_os (Some 1) [1, 2, 3, 4, 5] [] = Some os' \<and> id os' = id [] @ [1, 2, 3, 4, 5]"
  proof (rule socket_sendAll)
    fix bs os :: "byte list" assume "bs \<noteq> []"
    then show "\<exists>k os'. ZqSocketSend sample_os (Some 1) bs os = ((ZQ_E_OK, Some (of_nat k)), os')
        \<and> 0 < k \<and> k \<le> length bs \<and> id os' = id os @ take k bs"
      by (intro exI [of _ "min 2 (length bs)"]) (auto simp: sample_os_def min_def)
  qed simp
  then show ?thesis by simp
qed

text \<open>
  When \<open>connect\<close> fails, \<open>Socket::Connect\<close> reports a time-out and drops the handle it has
  opened without closing it: the socket stays open in the system with nobody to close it. The same
  holds for \<open>Listen\<close> when \<open>listen\<close> fails.
\<close>

theorem socket_error_leaks:
  assumes "\<And>os. \<exists>h os'. ZqSocketOpen api (sa_getFamily address) ty protocol os = (Some h, os')
             \<and> h \<notin> opened os \<and> opened os' = insert h (opened os)"
    and "\<And>s os. opened (snd (ZqSocketConnect api s address os)) = opened os \<and> fst (ZqSocketConnect api s address os) \<noteq> ZQ_E_OK"
    and "\<And>s os. opened (snd (ZqSocketBind api s address os)) = opened os \<and> fst (ZqSocketBind api s address os) = ZQ_E_OK"
    and "\<And>s os. opened (snd (ZqSocketListen api s backlog os)) = opened os \<and> fst (ZqSocketListen api s backlog os) \<noteq> ZQ_E_OK"
  shows "(\<exists>h os'. so_Connect api address ty protocol os = (Inl ConnectTimeout, os')
             \<and> h \<notin> opened os \<and> opened os' = insert h (opened os))
       \<and> (\<exists>h os'. so_Listen api address ty backlog protocol os = (Inl ListenOther, os')
             \<and> h \<notin> opened os \<and> opened os' = insert h (opened os))"
proof -
  obtain h os1 where o: "ZqSocketOpen api (sa_getFamily address) ty protocol os = (Some h, os1)"
    "h \<notin> opened os" "opened os1 = insert h (opened os)"
    using assms(1) by blast
  obtain r2 os2 where c: "ZqSocketConnect api (Some h) address os1 = (r2, os2)" by fastforce
  obtain r3 os3 where b: "ZqSocketBind api (Some h) address os1 = (r3, os3)" by fastforce
  obtain r4 os4 where l: "ZqSocketListen api (Some h) backlog os3 = (r4, os4)" by fastforce
  show ?thesis
    using o c b l assms(2) [of "Some h" os1] assms(3) [of "Some h" os1] assms(4) [of "Some h" os3]
    by (simp add: so_Connect_def so_connect_def so_Listen_def so_Bind_def so_bind_def so_listen_def
        so_isOpen_def so_move_construct_def) blast
qed

definition sample_handles :: "(nat, nat, nat) socket_os" where
  "sample_handles =
     \<lparr>ZqSocketOpen = (\<lambda>_ _ _ os. (Some os, Suc os)), ZqSocketClose = (\<lambda>_ os. os),
      ZqSocketBind = (\<lambda>_ _ os. (ZQ_E_OK, os)), ZqSocketConnect = (\<lambda>_ _ os. (ZQ_E_OTHER 110, os)),
      ZqSocketListen = (\<lambda>_ _ os. (ZQ_E_OTHER 98, os)),
      ZqSocketAccept = (\<lambda>_ os. ((None, sa_CreateIn6 28 0 0), os)),
      ZqSocketSend = (\<lambda>_ bs os. ((ZQ_E_OK, Some (of_nat (length bs))), os)),
      ZqSocketSendTo = (\<lambda>_ bs _ os. ((ZQ_E_OK, Some (of_nat (length bs))), os)),
      ZqSocketReceive = (\<lambda>_ os. ((ZQ_E_AGAIN, []), os)),
      ZqSocketReceiveFrom = (\<lambda>_ os. ((ZQ_E_AGAIN, [], sa_CreateIn6 28 0 0), os))\<rparr>"

lemma socket_error_leaks_witness:
  "\<exists>h os'. so_Connect sample_handles (sa_CreateIn6 28 0 80) Stream 0 0 = (Inl ConnectTimeout, os') \<and> {..<os'} = {h}"
  using socket_error_leaks [where api = sample_handles and opened = lessThan and os = 0 and backlog = 5
      and address = "sa_CreateIn6 28 0 80" and ty = Stream and protocol = 0]
  by (simp add: sample_handles_def lessThan_Suc)

end
