(* ===== verification/NetworkStreams.thy ===== *)
theory NetworkStreams
  imports Streams Sockets
begin

text \<open>
  Network/UdpMessage, UdpStream, TcpStream, TcpServer and UdpServer: the streams over a socket. The
  UDP stream puts a four byte header (flags and message number, big endian) before each packet.
\<close>

section \<open>UdpMessage\<close>

definition flag_None :: "16 word" where "flag_None = 0"
definition flag_SYN :: "16 word" where "flag_SYN = 1"
definition flag_IsLastFragment :: "16 word" where "flag_IsLastFragment = 4"

record udp_message =
  mFlags :: "16 word"
  mMessageNumber :: "16 word"

datatype read_from_error = NotEnoughData | OtherParseError

definition um_ReadFrom ::
  "byte ext_vector \<Rightarrow> ((read_from_error + udp_message) \<times> byte ext_vector) option" where
  "um_ReadFrom v =
     (if \<not> fr_hasBytes ev_hasLength 2 v then Some (Inl NotEnoughData, v)
      else do {
        (flags, v1) \<leftarrow> fr_readT ev_at ev_advance be_read16 2 v;
        (if \<not> fr_hasBytes ev_hasLength 2 v1 then Some (Inl NotEnoughData, v1)
         else do {
           (messageNumber, v2) \<leftarrow> fr_readT ev_at ev_advance be_read16 2 v1;
           Some (Inr \<lparr>mFlags = flags, mMessageNumber = messageNumber\<rparr>, v2)
         })
      })"

definition um_writeTo :: "udp_message \<Rightarrow> byte ext_vector \<Rightarrow> byte ext_vector option" where
  "um_writeTo m v = fw_writeT BigEndianFieldWriter [F16 (mFlags m), F16 (mMessageNumber m)] v"

definition um_isFlagsBitOn :: "16 word \<Rightarrow> udp_message \<Rightarrow> bool" where
  "um_isFlagsBitOn flagBit m \<longleftrightarrow> mFlags m AND flagBit \<noteq> 0"

definition um_isCreateSession :: "udp_message \<Rightarrow> bool" where
  "um_isCreateSession m \<longleftrightarrow> um_isFlagsBitOn flag_SYN m"

definition um_isLastFragment :: "udp_message \<Rightarrow> bool" where
  "um_isLastFragment m \<longleftrightarrow> um_isFlagsBitOn flag_IsLastFragment m"

definition um_setFlag :: "16 word \<Rightarrow> bool \<Rightarrow> udp_message \<Rightarrow> udp_message" where
  "um_setFlag flagBit status m =
     (let integerFlagBit = (if \<not> status then 0 else flagBit)
      in m\<lparr>mFlags := mFlags m AND integerFlagBit\<rparr>)"

definition um_setLastFragmentFlag :: "bool \<Rightarrow> udp_message \<Rightarrow> udp_message" where
  "um_setLastFragmentFlag status m = um_setFlag flag_IsLastFragment status m"

definition um_setCreateSessionFlag :: "bool \<Rightarrow> udp_message \<Rightarrow> udp_message" where
  "um_setCreateSessionFlag status m = um_setFlag flag_SYN status m"

definition um_setMessageNumber :: "16 word \<Rightarrow> udp_message \<Rightarrow> udp_message" where
  "um_setMessageNumber n m = m\<lparr>mMessageNumber := n\<rparr>"

section \<open>UdpStream\<close>

record ('h, 'a) udp_stream =
  mAddressAndPort :: "'a \<times> port"
  us_socket :: "'h socket"

definition us_construct :: "'a \<times> port \<Rightarrow> 'h socket \<Rightarrow> ('h, 'a) udp_stream" where
  "us_construct unset s = \<lparr>mAddressAndPort = unset, us_socket = s\<rparr>"

text \<open>\<open>Connect\<close>; the pair returned by \<open>getStreamInfo\<close> is never set (\<open>unset\<close>).\<close>

definition us_Connect ::
  "('h, 'a, 'os) socket_os \<Rightarrow> size_t \<Rightarrow> 'a \<times> port \<Rightarrow> 'a \<Rightarrow> port \<Rightarrow> 'os \<Rightarrow> (unit + ('h, 'a) udp_stream) \<times> 'os" where
  "us_Connect api sizeof_in6 unset address p os =
     (case so_Connect api (sa_CreateIn6 sizeof_in6 address p) Datagram 0 os of
        (Inl _, os1) \<Rightarrow> (Inl (), os1)
      | (Inr s, os1) \<Rightarrow> (Inr (us_construct unset s), os1))"

definition us_receiveRawPacket ::
  "('h, 'a, 'os) socket_os \<Rightarrow> ('h, 'a) udp_stream \<Rightarrow> 'os \<Rightarrow> (Sockets.receive_error + byte list) \<times> 'os" where
  "us_receiveRawPacket api st os = so_receive api (us_socket st) os"

definition us_sendRawPacket ::
  "('h, 'a, 'os) socket_os \<Rightarrow> ('h, 'a) udp_stream \<Rightarrow> byte list \<Rightarrow> 'os \<Rightarrow> size_t \<times> 'os" where
  "us_sendRawPacket api st array os = so_send api (us_socket st) array os"

fun socketReceiveErrorToError :: "Sockets.receive_error \<Rightarrow> Streams.receive_error" where
  "socketReceiveErrorToError Sockets.Disconnected = Streams.Other"
| "socketReceiveErrorToError Sockets.Other = Streams.Other"
| "socketReceiveErrorToError Sockets.Timeout = Streams.Timeout"

section \<open>UdpOutputVector\<close>

record udp_output =
  uo_base :: output_stream
  mNextMessage :: udp_message

definition uo_map_vector :: "(byte ext_vector \<Rightarrow> byte ext_vector) \<Rightarrow> udp_output \<Rightarrow> udp_output" where
  "uo_map_vector f u = u\<lparr>uo_base := (uo_base u)\<lparr>os_vector := f (os_vector (uo_base u))\<rparr>\<rparr>"

text \<open>\<open>mNextMessage.writeTo (mVector)\<close>.\<close>

definition uo_writeHeader :: "udp_output \<Rightarrow> udp_output option" where
  "uo_writeHeader u =
     map_option (\<lambda>v. uo_map_vector (\<lambda>_. v) u) (um_writeTo (mNextMessage u) (os_vector (uo_base u)))"

definition uo_createNewSegment :: "udp_output \<Rightarrow> udp_output option" where
  "uo_createNewSegment u = do {
     u2 \<leftarrow> uo_writeHeader (uo_map_vector (ev_setBegin 0 \<circ> ev_setEnd 0) u);
     Some (u2\<lparr>mNextMessage := um_setMessageNumber (mMessageNumber (mNextMessage u2) + 1) (mNextMessage u2)\<rparr>)
   }"

definition uo_construct :: "size_t \<Rightarrow> bool \<Rightarrow> udp_output option" where
  "uo_construct autoSendSize isCreateConnection =
     uo_createNewSegment
       \<lparr>uo_base = os_new autoSendSize,
        mNextMessage = \<lparr>mFlags = (if isCreateConnection then flag_SYN else flag_None), mMessageNumber = 0\<rparr>\<rparr>"

definition uo_sendCurrentSegment ::
  "(byte list \<Rightarrow> 'os \<Rightarrow> size_t \<times> 'os) \<Rightarrow> udp_output \<times> 'os \<Rightarrow> (udp_output \<times> 'os) option" where
  "uo_sendCurrentSegment sendRawPacket s = do {
     let (u, os) = s;
     u1 \<leftarrow> (if mAutoSendDataSize (uo_base u) > of_nat (length (ev_vector (os_vector (uo_base u))))
            then do {
              let m1 = um_setLastFragmentFlag True (mNextMessage u);
              let m2 = um_setMessageNumber (mMessageNumber m1 - 1) m1;
              let vectorBegin = mIndexBegin (os_vector (uo_base u));
              u2 \<leftarrow> uo_writeHeader (uo_map_vector (ev_setBegin 0) (u\<lparr>mNextMessage := m2\<rparr>));
              let u3 = uo_map_vector (ev_setBegin vectorBegin) u2;
              Some (u3\<lparr>mNextMessage := um_setLastFragmentFlag False (mNextMessage u3)\<rparr>)
            }
            else Some u);
     let (_, os1) = sendRawPacket (ev_vector (os_vector (uo_base u1))) os;
     u4 \<leftarrow> uo_createNewSegment u1;
     Some (u4, os1)
   }"

section \<open>UdpInputVector\<close>

definition ui_receiveData ::
  "('h, 'a, 'os) socket_os \<Rightarrow> ('h, 'a) udp_stream \<Rightarrow> 'os \<Rightarrow> ((Streams.receive_error + byte list) \<times> 'os) option" where
  "ui_receiveData api st os =
     (case us_receiveRawPacket api st os of
        (Inl e, os1) \<Rightarrow> Some (Inl (socketReceiveErrorToError e), os1)
      | (Inr maybeData, os1) \<Rightarrow> do {
          (maybeMessage, _) \<leftarrow> um_ReadFrom (ev_of_vector maybeData);
          (case maybeMessage of
             Inl _ \<Rightarrow> Some (Inl Streams.ParseError, os1)
           | Inr _ \<Rightarrow> Some (Inr maybeData, os1))
        })"

section \<open>TcpStream and TcpServer\<close>

record ('h, 'a) tcp_stream =
  ts_socket :: "'h socket"
  mStreamAddressAndPort :: "'a \<times> port"

definition ts_Connect ::
  "('h, 'a, 'os) socket_os \<Rightarrow> size_t \<Rightarrow> 'a \<Rightarrow> port \<Rightarrow> 'os \<Rightarrow> (connect_error + ('h, 'a) tcp_stream) \<times> 'os" where
  "ts_Connect api sizeof_in6 address p os =
     (case so_Connect api (sa_CreateIn6 sizeof_in6 address p) Stream 0 os of
        (Inl e, os1) \<Rightarrow> (Inl e, os1)
      | (Inr s, os1) \<Rightarrow> (Inr \<lparr>ts_socket = s, mStreamAddressAndPort = (address, p)\<rparr>, os1))"

definition ts_receiveRawPacket ::
  "('h, 'a, 'os) socket_os \<Rightarrow> ('h, 'a) tcp_stream \<Rightarrow> 'os \<Rightarrow> (Streams.receive_error + byte list) \<times> 'os" where
  "ts_receiveRawPacket api st os =
     (case so_receive api (ts_socket st) os of
        (Inl e, os1) \<Rightarrow> (Inl (socketReceiveErrorToError e), os1)
      | (Inr bs, os1) \<Rightarrow> (Inr bs, os1))"

definition ts_getStreamInfo :: "('h, 'a) tcp_stream \<Rightarrow> 'a \<times> port" where
  "ts_getStreamInfo st = mStreamAddressAndPort st"

definition to_sendCurrentSegment ::
  "('h, 'a, 'os) socket_os \<Rightarrow> ('h, 'a) tcp_stream \<Rightarrow> output_stream \<times> 'os \<Rightarrow> (output_stream \<times> 'os) option" where
  "to_sendCurrentSegment api st s =
     (let (o1, os) = s;
          (_, os1) = so_send api (ts_socket st) (ev_vector (os_vector o1)) os
      in Some (o1\<lparr>os_vector := ev_setEnd 0 (ev_setBegin 0 (os_vector o1))\<rparr>, os1))"

definition tsv_Listen ::
  "('h, 'a, 'os) socket_os \<Rightarrow> size_t \<Rightarrow> size_t \<Rightarrow> 'a \<Rightarrow> port \<Rightarrow> 'os \<Rightarrow> (unit + 'h socket) \<times> 'os" where
  "tsv_Listen api no_backlog sizeof_in6 address p os =
     (case so_Listen api (sa_CreateIn6 sizeof_in6 address p) Stream no_backlog 0 os of
        (Inl _, os1) \<Rightarrow> (Inl (), os1)
      | (Inr s, os1) \<Rightarrow> (Inr s, os1))"

definition tsv_acceptClient ::
  "('h, 'a, 'os) socket_os \<Rightarrow> 'h socket \<Rightarrow> 'os \<Rightarrow> ('h, 'a) tcp_stream option \<times> 'os" where
  "tsv_acceptClient api s os =
     (case so_accept api s os of
        (Inl _, os1) \<Rightarrow> (None, os1)
      | (Inr (s1, a), os1) \<Rightarrow> (Some \<lparr>ts_socket = s1, mStreamAddressAndPort = (sin_addr a, sin_port a)\<rparr>, os1))"

text \<open>A field writer over an output stream: \<open>size\<close>, \<open>expand\<close> and the writes are the stream's.\<close>

definition os_writeT ::
  "('s \<Rightarrow> output_stream) \<Rightarrow> (output_stream \<Rightarrow> 's \<Rightarrow> 's) \<Rightarrow> ('s \<Rightarrow> 's option) \<Rightarrow> byte_writer \<Rightarrow> field list \<Rightarrow> 's \<Rightarrow> 's option" where
  "os_writeT base setBase sendCurrentSegment w fs s = do {
     let argsSize = mySizeOfArgs fs;
     s1 \<leftarrow> (if os_size (base s) < argsSize
            then os_expand base setBase sendCurrentSegment (argsSize - os_size (base s)) s
            else Some s);
     v \<leftarrow> fw_writeAll w fs (os_vector (base s1));
     Some (setBase ((base s1)\<lparr>os_vector := v\<rparr>) s1)
   }"

section \<open>The header\<close>

abbreviation header_bytes :: "udp_message \<Rightarrow> byte list" where
  "header_bytes m \<equiv> fields_bytes BigEndianWriter [F16 (mFlags m), F16 (mMessageNumber m)]"

lemma header_bytes_eq: "header_bytes m = enc_bytes (be_write16 (mFlags m)) @ enc_bytes (be_write16 (mMessageNumber m))"
  by (simp add: fields_bytes_def BigEndianWriter_def)

lemma header_bytes_length [simp]: "length (fields_bytes BigEndianWriter [F16 a, F16 b]) = 4"
  using be16.length_law by (simp add: fields_bytes_def BigEndianWriter_def)

lemma um_writeTo_eq: "um_writeTo m = fw_writeT BigEndianWriter [F16 (mFlags m), F16 (mMessageNumber m)]"
  by (simp add: um_writeTo_def BigEndianFieldWriter_def fun_eq_iff)

lemma um_ReadFrom_run:
  assumes ok: "ev_ok v" and vw: "ev_view v = header_bytes m @ r"
  shows "\<exists>w. um_ReadFrom v = Some (Inr m, w) \<and> ev_ok w \<and> ev_view w = r"
proof -
  have v1: "ev_view v = enc_bytes (be_write16 (mFlags m)) @ (enc_bytes (be_write16 (mMessageNumber m)) @ r)"
    using vw by (simp add: header_bytes_eq)
  obtain w1 where w1: "fr_readT ev_at ev_advance be_read16 2 v = Some (mFlags m, w1)" "ev_ok w1"
    "ev_view w1 = enc_bytes (be_write16 (mMessageNumber m)) @ r"
    using evbe16.readT_enc [OF ok v1] by auto
  obtain w2 where w2: "fr_readT ev_at ev_advance be_read16 2 w1 = Some (mMessageNumber m, w2)" "ev_ok w2" "ev_view w2 = r"
    using evbe16.readT_enc [OF w1(2,3)] by auto
  have "ev_hasLength v 2" using ev_hasLength_view [OF ok, of 2] v1 be16.length_law by simp
  moreover have "ev_hasLength w1 2" using ev_hasLength_view [OF w1(2), of 2] w1(3) be16.length_law by simp
  ultimately show ?thesis using w1 w2 by (simp add: um_ReadFrom_def fr_hasBytes_def)
qed

lemma um_ReadFrom_short:
  assumes ok: "ev_ok v" and len: "length (ev_view v) < 4"
  shows "\<exists>w. um_ReadFrom v = Some (Inl NotEnoughData, w)"
proof (cases "ev_hasLength v 2")
  case False
  then show ?thesis by (simp add: um_ReadFrom_def fr_hasBytes_def)
next
  case True
  then have "2 \<le> length (ev_view v)" using ev_hasLength_view [OF ok, of 2] by simp
  then obtain x w1 where w1: "fr_readT ev_at ev_advance be_read16 2 v = Some (x, w1)" "ev_ok w1"
    "ev_view w1 = drop 2 (ev_view v)" using evbe16.readT_total [OF ok] by auto
  have "\<not> ev_hasLength w1 2" using ev_hasLength_view [OF w1(2), of 2] w1(3) len by simp
  then show ?thesis using w1 True by (simp add: um_ReadFrom_def fr_hasBytes_def)
qed

text \<open>Writing the header at the front of a reset window, over the bytes that are there.\<close>

lemma um_writeTo_reset:
  assumes "4 \<le> length old" and "length old < 2 ^ 64"
  shows "um_writeTo m \<lparr>ev_vector = old, mIndexBegin = 0, mIndexEnd = 0\<rparr>
           = Some \<lparr>ev_vector = header_bytes m @ drop 4 old, mIndexBegin = 4, mIndexEnd = of_nat (length old) - 4\<rparr>"
proof -
  let ?n = "of_nat (length old) :: size_t"
  have u: "unat ?n = length old" using assms(2) by (rule unat_of_nat_small)
  have n4: "4 \<le> ?n" using assms(1) u by (simp add: word_le_nat_alt)
  then have nz: "?n \<noteq> 0" by auto
  let ?ev = "\<lparr>ev_vector = old, mIndexBegin = 0, mIndexEnd = ?n - 4\<rparr>"
  have "min 4 ?n = 4" using n4 by (simp add: min_def)
  then have ex: "ev_expand 0 4 \<lparr>ev_vector = old, mIndexBegin = 0, mIndexEnd = 0\<rparr> = ?ev"
    using nz by (simp add: ev_expand_def ev_size_def Let_def)
  have a: "at_window ?ev [] (take 4 old @ drop 4 old)" using assms(2) by (simp add: at_window_def)
  have "fw_writeAll BigEndianWriter [F16 (mFlags m), F16 (mMessageNumber m)] ?ev
          = Some (written ?ev [] (header_bytes m) (drop 4 old))"
    using assms(1) by (intro fw_writeAll_run [OF _ a]) simp_all
  then show ?thesis using ex by (simp add: um_writeTo_eq fw_writeT_def ev_size_def written_def del: fw_writeAll.simps)
qed

lemma um_writeTo_new:
  "um_writeTo m ev_new = Some \<lparr>ev_vector = header_bytes m, mIndexBegin = 4, mIndexEnd = 0\<rparr>"
proof -
  have "header_bytes m \<noteq> []" by (metis header_bytes_length list.size(3) zero_neq_numeral)
  from fw_writeT_fresh [of BigEndianWriter, OF _ this] show ?thesis by (simp add: um_writeTo_eq)
qed

section \<open>The UDP output stream\<close>

lemma uo_construct_run:
  "uo_construct auto c = Some
     \<lparr>uo_base = \<lparr>os_vector = \<lparr>ev_vector = header_bytes \<lparr>mFlags = (if c then flag_SYN else flag_None), mMessageNumber = 0\<rparr>,
                   mIndexBegin = 4, mIndexEnd = 0\<rparr>, mAutoSendDataSize = auto\<rparr>,
      mNextMessage = \<lparr>mFlags = (if c then flag_SYN else flag_None), mMessageNumber = 1\<rparr>\<rparr>"
proof -
  have "ev_setBegin 0 (ev_setEnd 0 ev_new) = (ev_new :: byte ext_vector)" by (simp add: ev_setBegin_def ev_setEnd_def ev_new_def)
  then show ?thesis
    by (simp add: uo_construct_def uo_createNewSegment_def uo_writeHeader_def uo_map_vector_def os_new_def
        um_writeTo_new um_setMessageNumber_def)
qed

text \<open>A \<open>sync\<close> with only a header in the vector.\<close>

lemma uo_send_run:
  assumes auto: "4 < auto" and len: "length old = 4"
  shows "\<exists>u'. uo_sendCurrentSegment send
      (\<lparr>uo_base = \<lparr>os_vector = \<lparr>ev_vector = old, mIndexBegin = 4, mIndexEnd = 0\<rparr>, mAutoSendDataSize = auto\<rparr>,
        mNextMessage = \<lparr>mFlags = f, mMessageNumber = n\<rparr>\<rparr>, os)
      = Some (u', snd (send (header_bytes \<lparr>mFlags = f AND flag_IsLastFragment, mMessageNumber = n - 1\<rparr>) os))
    \<and> mFlags (mNextMessage u') = 0"
proof -
  let ?h = "header_bytes \<lparr>mFlags = f AND flag_IsLastFragment, mMessageNumber = n - 1\<rparr>"
  have w1: "um_writeTo \<lparr>mFlags = f AND flag_IsLastFragment, mMessageNumber = n - 1\<rparr>
      \<lparr>ev_vector = old, mIndexBegin = 0, mIndexEnd = 0\<rparr> = Some \<lparr>ev_vector = ?h, mIndexBegin = 4, mIndexEnd = 0\<rparr>"
    using um_writeTo_reset [of old] len by simp
  have w2: "\<exists>h. um_writeTo m \<lparr>ev_vector = ?h, mIndexBegin = 0, mIndexEnd = 0\<rparr> = Some h" for m
    using um_writeTo_reset [of ?h m] by simp
  have w3: "\<exists>h. um_writeTo \<lparr>mFlags = 0, mMessageNumber = n - 1\<rparr> \<lparr>ev_vector = ?h, mIndexBegin = 0, mIndexEnd = 0\<rparr> = Some h"
    using w2 .
  then obtain h where h: "um_writeTo \<lparr>mFlags = 0, mMessageNumber = n - 1\<rparr> \<lparr>ev_vector = ?h, mIndexBegin = 0, mIndexEnd = 0\<rparr> = Some h" ..
  show ?thesis
    using auto len w1 h
    by (simp add: uo_sendCurrentSegment_def uo_createNewSegment_def uo_writeHeader_def uo_map_vector_def
        um_setLastFragmentFlag_def um_setFlag_def um_setMessageNumber_def ev_setBegin_def ev_setEnd_def
        Let_def case_prod_unfold)
qed

section \<open>The TCP output stream\<close>

lemma mySizeOfArgs_BE: "mySizeOfArgs fs = of_nat (length (fields_bytes BigEndianWriter fs))"
  by (rule mySizeOfArgs_bytes) simp

lemma to_second_segment:
  assumes auto: "0 < auto" and n: "fields_bytes BigEndianWriter fs \<noteq> []"
    and len: "length (fields_bytes BigEndianWriter fs) \<le> length old" "length old < 2 ^ 64"
  shows "\<exists>s. os_writeT fst (\<lambda>b s. (b, snd s)) snd' BigEndianWriter fs
             (\<lparr>os_vector = \<lparr>ev_vector = old, mIndexBegin = 0, mIndexEnd = 0\<rparr>, mAutoSendDataSize = auto\<rparr>, os) = Some s
           \<and> to_sendCurrentSegment api st s
               = Some (\<lparr>os_vector = \<lparr>ev_vector = fields_bytes BigEndianWriter fs @ drop (length (fields_bytes BigEndianWriter fs)) old,
                                       mIndexBegin = 0, mIndexEnd = 0\<rparr>, mAutoSendDataSize = auto\<rparr>,
                       snd (so_send api (ts_socket st)
                              (fields_bytes BigEndianWriter fs @ drop (length (fields_bytes BigEndianWriter fs)) old) os))"
proof -
  let ?bs = "fields_bytes BigEndianWriter fs"
  let ?n = "of_nat (length ?bs) :: size_t" and ?o = "of_nat (length old) :: size_t"
  have u: "unat ?n = length ?bs" "unat ?o = length old" using len by (auto intro!: unat_of_nat_small)
  have pos: "0 < ?n" using u(1) n by (simp add: word_less_nat_alt)
  have le: "?n \<le> ?o" using u len(1) by (simp add: word_le_nat_alt)
  have o0: "?o \<noteq> 0" "auto \<noteq> 0" using pos le auto by auto
  let ?ev = "\<lparr>ev_vector = old, mIndexBegin = 0, mIndexEnd = ?o - ?n\<rparr>"
  have "min ?n ?o = ?n" using le by (simp add: min_def)
  then have ex: "ev_expand 0 ?n \<lparr>ev_vector = old, mIndexBegin = 0, mIndexEnd = 0\<rparr> = ?ev"
    using o0 by (simp add: ev_expand_def ev_size_def Let_def)
  have a: "at_window ?ev [] (take (length ?bs) old @ drop (length ?bs) old)" using len(2) by (simp add: at_window_def)
  have "fw_writeAll BigEndianWriter fs ?ev = Some (written ?ev [] ?bs (drop (length ?bs) old))"
    using len(1) by (intro fw_writeAll_run [OF _ a]) simp_all
  then show ?thesis using auto pos ex o0
    by (simp add: os_writeT_def os_expand_def os_isAutoSendSizePassed_def os_size_def ev_size_def mySizeOfArgs_BE
        written_def to_sendCurrentSegment_def ev_setBegin_def ev_setEnd_def Let_def case_prod_unfold not_le)
qed

section \<open>Properties\<close>

text \<open>
  C35: the UDP header round trip. Writing a message into a window with room advances the window by
  four bytes, and \<open>ReadFrom\<close> of what was written gives the same flags and number back and leaves
  what follows. A packet of fewer than four bytes is refused.
\<close>

theorem udp_message_roundtrip:
  assumes "ev_ok v"
  shows "(4 \<le> length (ev_view v) \<longrightarrow>
            (\<exists>v' w. um_writeTo m v = Some v' \<and> ev_view v' = drop 4 (ev_view v)
               \<and> um_ReadFrom (ev_setBegin (mIndexBegin v) v') = Some (Inr m, w) \<and> ev_view w = ev_view v'))
       \<and> (length (ev_view v) < 4 \<longrightarrow> (\<exists>w. um_ReadFrom v = Some (Inl NotEnoughData, w)))"
proof (intro conjI impI um_ReadFrom_short [OF assms])
  assume room: "4 \<le> length (ev_view v)"
  let ?fs = "[F16 (mFlags m), F16 (mMessageNumber m)]"
  obtain v' where w: "um_writeTo m v = Some v'" and vv: "ev_vector v' = take (unat (mIndexBegin v)) (ev_vector v)
      @ header_bytes m @ drop (unat (mIndexBegin v) + 4) (ev_vector v)" and vw: "ev_view v' = drop 4 (ev_view v)"
    and ok': "ev_ok v'" and same: "mIndexEnd v' = mIndexEnd v"
    using fw_writeT_room [of BigEndianWriter, OF _ assms, of ?fs] room by (auto simp: um_writeTo_eq)
  let ?r = "ev_setBegin (mIndexBegin v) v'"
  have b: "4 + unat (mIndexBegin v) \<le> unat (mIndexEnd v)" using ev_bound [OF assms room] .
  have lv: "unat (mIndexEnd v) \<le> length (ev_vector v)" using assms by (simp add: ev_ok_def)
  have bl: "unat (mIndexBegin v) \<le> length (ev_vector v)" using b lv by linarith
  have lv': "length (ev_vector v') = length (ev_vector v)" using vv b lv by simp
  have okr: "ev_ok ?r" using assms same lv' b by (simp add: ev_ok_def ev_setBegin_def)
  let ?b = "unat (mIndexBegin v)" and ?e = "unat (mIndexEnd v)" and ?V = "ev_vector v"
  have tk: "take ?e (take ?b ?V @ header_bytes m @ drop (?b + 4) ?V) = take ?b ?V @ header_bytes m @ take (?e - ?b - 4) (drop (?b + 4) ?V)"
    using b bl lv by (simp add: min_def)
  have "drop 4 (ev_view v) = take (?e - ?b - 4) (drop (?b + 4) ?V)"
    by (simp add: ev_view_def drop_take add.commute)
  moreover have "ev_view ?r = drop ?b (take ?e (ev_vector v'))" using same by (simp add: ev_view_def ev_setBegin_def)
  ultimately have "ev_view ?r = header_bytes m @ ev_view v'"
    unfolding vv tk using vw bl by (simp add: min_def)
  from um_ReadFrom_run [OF okr this] w vw show "\<exists>v' w. um_writeTo m v = Some v' \<and> ev_view v' = drop 4 (ev_view v)
      \<and> um_ReadFrom (ev_setBegin (mIndexBegin v) v') = Some (Inr m, w) \<and> ev_view w = ev_view v'" by blast
qed

lemma udp_message_roundtrip_witness:
  "\<exists>v' w. um_writeTo \<lparr>mFlags = 1, mMessageNumber = 7\<rparr> sample_window = Some v' \<and> ev_view v' = [7, 7, 7, 7]
     \<and> um_ReadFrom (ev_setBegin (mIndexBegin sample_window) v') = Some (Inr \<lparr>mFlags = 1, mMessageNumber = 7\<rparr>, w)"
  using udp_message_roundtrip [OF sample_window_ok(1), of "\<lparr>mFlags = 1, mMessageNumber = 7\<rparr>"]
  by (auto simp: sample_window_ok)

text \<open>
  \<open>setFlag\<close> masks the flags instead of setting a bit: setting a flag to true can only keep it,
  and setting it to false clears every flag. So a UDP output stream opened with the SYN flag sends,
  on \<open>sync\<close> before the automatic size, a header whose flags are all zero: the receiver sees neither
  a session start nor a last fragment.
\<close>

theorem udp_flags_lost:
  assumes "4 < auto"
  shows "um_isLastFragment (um_setLastFragmentFlag True m) = um_isLastFragment m
       \<and> mFlags (um_setLastFragmentFlag False m) = 0 \<and> mFlags (um_setCreateSessionFlag False m) = 0
       \<and> (\<exists>u u'. uo_construct auto c = Some u
            \<and> uo_sendCurrentSegment send (u, os) = Some (u', snd (send (header_bytes \<lparr>mFlags = 0, mMessageNumber = 0\<rparr>) os)))
       \<and> (\<exists>w. um_ReadFrom (ev_of_vector (header_bytes \<lparr>mFlags = 0, mMessageNumber = 0\<rparr>))
                = Some (Inr \<lparr>mFlags = 0, mMessageNumber = 0\<rparr>, w))
       \<and> \<not> um_isCreateSession \<lparr>mFlags = 0, mMessageNumber = 0\<rparr> \<and> \<not> um_isLastFragment \<lparr>mFlags = 0, mMessageNumber = 0\<rparr>"
proof (intro conjI)
  show "um_isLastFragment (um_setLastFragmentFlag True m) = um_isLastFragment m"
    by (simp add: um_isLastFragment_def um_isFlagsBitOn_def um_setLastFragmentFlag_def um_setFlag_def)
  show "mFlags (um_setLastFragmentFlag False m) = 0" "mFlags (um_setCreateSessionFlag False m) = 0"
    by (simp_all add: um_setLastFragmentFlag_def um_setCreateSessionFlag_def um_setFlag_def)
  have "(if c then flag_SYN else flag_None) AND flag_IsLastFragment = 0"
    by (simp add: flag_SYN_def flag_None_def flag_IsLastFragment_def)
  then show "\<exists>u u'. uo_construct auto c = Some u
      \<and> uo_sendCurrentSegment send (u, os) = Some (u', snd (send (header_bytes \<lparr>mFlags = 0, mMessageNumber = 0\<rparr>) os))"
    using uo_construct_run [of auto c]
      uo_send_run [OF assms, of "header_bytes \<lparr>mFlags = (if c then flag_SYN else flag_None), mMessageNumber = 0\<rparr>"
        send "(if c then flag_SYN else flag_None)" 1 os]
    by auto
  show "\<exists>w. um_ReadFrom (ev_of_vector (header_bytes \<lparr>mFlags = 0, mMessageNumber = 0\<rparr>))
          = Some (Inr \<lparr>mFlags = 0, mMessageNumber = 0\<rparr>, w)"
    using um_ReadFrom_run [of "ev_of_vector (header_bytes \<lparr>mFlags = 0, mMessageNumber = 0\<rparr>)" "\<lparr>mFlags = 0, mMessageNumber = 0\<rparr>" "[]"]
      ev_of_vector_ok [of "header_bytes \<lparr>mFlags = 0, mMessageNumber = 0\<rparr>"] by auto
qed (simp_all add: um_isCreateSession_def um_isLastFragment_def um_isFlagsBitOn_def)

lemma udp_flags_lost_witness:
  "\<exists>u u'. uo_construct 508 True = Some u
     \<and> uo_sendCurrentSegment (\<lambda>bs os. (of_nat (length bs), os @ [bs])) (u, []) = Some (u', [[0, 0, 0, 0]])"
proof -
  have h: "fields_bytes BigEndianWriter [F16 0, F16 0] = [0, 0, 0, 0]"
    by (simp add: fields_bytes_def BigEndianWriter_def enc_bytes_def be_write16_def upt_rec)
  have "(4 :: size_t) < 508" by simp
  from udp_flags_lost [OF this, of _ True "\<lambda>bs os. (of_nat (length bs), os @ [bs])" "[]"] show ?thesis
    by (simp add: h)
qed

text \<open>
  C36: a UDP output stream cannot carry a payload: after its constructor has written the header the
  window is inverted (begin 4, end 0), so its size is almost \<open>2 ^ 64\<close>, a field writer sees no need to
  expand it, and the first byte of any payload is written out of bounds.
\<close>

theorem udp_payload_out_of_bounds:
  assumes "fields_bytes BigEndianWriter fs \<noteq> []" and "length (fields_bytes BigEndianWriter fs) + 4 \<le> 2 ^ 64"
  shows "\<exists>u. uo_construct auto c = Some u \<and> unat (os_size (uo_base u)) = 2 ^ 64 - 4
           \<and> os_writeT uo_base (\<lambda>b u. u\<lparr>uo_base := b\<rparr>) send BigEndianWriter fs u = None"
proof -
  let ?h = "header_bytes \<lparr>mFlags = (if c then flag_SYN else flag_None), mMessageNumber = 0\<rparr>"
  let ?ev = "\<lparr>ev_vector = ?h, mIndexBegin = 4, mIndexEnd = 0\<rparr>"
  have sz: "unat (ev_size ?ev) = 2 ^ 64 - 4" using unat_neg_of_nat [of 4] by (simp add: ev_size_def)
  have "length (fields_bytes BigEndianWriter fs) < 2 ^ 64" using assms(2) by linarith
  then have "unat (of_nat (length (fields_bytes BigEndianWriter fs)) :: size_t) = length (fields_bytes BigEndianWriter fs)"
    by (rule unat_of_nat_small)
  then have "\<not> ev_size ?ev < mySizeOfArgs fs"
    unfolding mySizeOfArgs_BE word_less_nat_alt sz using assms(2) by simp
  moreover have "fw_writeAll BigEndianWriter fs ?ev = None"
    using assms(1) by (intro fw_writeAll_end) simp_all
  ultimately show ?thesis
    using uo_construct_run [of auto c] sz by (simp add: os_writeT_def os_size_def)
qed

lemma udp_payload_out_of_bounds_witness:
  "\<exists>u. uo_construct 508 True = Some u
     \<and> os_writeT uo_base (\<lambda>b u. u\<lparr>uo_base := b\<rparr>) (\<lambda>_. None) BigEndianWriter [F8 1] u = None"
  using udp_payload_out_of_bounds [of "[F8 1]" 508 True "\<lambda>_. None"] by (auto simp: fields_bytes_def)

text \<open>
  What a UDP input stream receives. A packet that starts with a header is accepted, but the data
  handed to the reader is the whole packet, with the header in front of the payload; a shorter packet
  is a parse error; the errors of the socket are translated.
\<close>

theorem udp_receive_keeps_header:
  assumes "length (header_bytes m @ payload) < 2 ^ 64"
  shows "(us_receiveRawPacket api st os = (Inr (header_bytes m @ payload), os1) \<longrightarrow>
            ui_receiveData api st os = Some (Inr (header_bytes m @ payload), os1))
       \<and> (us_receiveRawPacket api st os = (Inr bs, os1) \<and> length bs < 4 \<longrightarrow>
            ui_receiveData api st os = Some (Inl Streams.ParseError, os1))
       \<and> (us_receiveRawPacket api st os = (Inl e, os1) \<longrightarrow>
            ui_receiveData api st os = Some (Inl (socketReceiveErrorToError e), os1))"
proof (intro conjI impI)
  assume "us_receiveRawPacket api st os = (Inr (header_bytes m @ payload), os1)"
  then show "ui_receiveData api st os = Some (Inr (header_bytes m @ payload), os1)"
    using um_ReadFrom_run [of "ev_of_vector (header_bytes m @ payload)" m payload] ev_of_vector_ok [OF assms]
    by (auto simp: ui_receiveData_def)
next
  assume r: "us_receiveRawPacket api st os = (Inr bs, os1) \<and> length bs < 4"
  then have "length bs < 2 ^ 64" by simp
  then obtain w where "um_ReadFrom (ev_of_vector bs) = Some (Inl NotEnoughData, w)"
    using um_ReadFrom_short [of "ev_of_vector bs"] ev_of_vector_ok [of bs] r by auto
  then show "ui_receiveData api st os = Some (Inl Streams.ParseError, os1)" using r by (simp add: ui_receiveData_def)
qed (simp add: ui_receiveData_def)

lemma udp_receive_keeps_header_witness:
  "ui_receiveData (sample_os\<lparr>ZqSocketReceive := (\<lambda>_ os. ((ZQ_E_OK, header_bytes \<lparr>mFlags = 0, mMessageNumber = 0\<rparr> @ [42]), os))\<rparr>)
      (us_construct (0, 0) (Some 1)) [] = Some (Inr (header_bytes \<lparr>mFlags = 0, mMessageNumber = 0\<rparr> @ [42]), [])"
  by (rule udp_receive_keeps_header [THEN conjunct1, THEN mp])
    (simp_all add: us_receiveRawPacket_def so_receive_def us_construct_def)

text \<open>
  A TCP output stream sends stale bytes. After a segment was sent the window is reset, but the
  vector keeps the old segment; a shorter segment written next overwrites its beginning only, and the
  whole vector is sent again: the new bytes followed by the rest of the previous segment.
\<close>

theorem tcp_sends_stale_bytes:
  assumes "0 < auto" and "fields_bytes BigEndianWriter fs \<noteq> []"
    and "length (fields_bytes BigEndianWriter fs) \<le> length old" and "length old < 2 ^ 64"
  shows "\<exists>s s'. os_writeT fst (\<lambda>b s. (b, snd s)) (to_sendCurrentSegment api st) BigEndianWriter fs
             (\<lparr>os_vector = \<lparr>ev_vector = old, mIndexBegin = 0, mIndexEnd = 0\<rparr>, mAutoSendDataSize = auto\<rparr>, os) = Some s
           \<and> to_sendCurrentSegment api st s = Some s'
           \<and> snd s' = snd (so_send api (ts_socket st)
                 (fields_bytes BigEndianWriter fs @ drop (length (fields_bytes BigEndianWriter fs)) old) os)"
  using to_second_segment [OF assms, of "to_sendCurrentSegment api st" os api st] by auto

lemma tcp_sends_stale_bytes_witness:
  "\<exists>s s'. os_writeT fst (\<lambda>b s. (b, snd s)) (to_sendCurrentSegment (sample_os\<lparr>ZqSocketSend := (\<lambda>_ bs os. ((ZQ_E_OK, Some 3), os @ bs))\<rparr>)
        \<lparr>ts_socket = Some 1, mStreamAddressAndPort = (0, 0)\<rparr>) BigEndianWriter [F8 9]
      (\<lparr>os_vector = \<lparr>ev_vector = [1, 2, 3], mIndexBegin = 0, mIndexEnd = 0\<rparr>, mAutoSendDataSize = 508\<rparr>, []) = Some s
    \<and> to_sendCurrentSegment (sample_os\<lparr>ZqSocketSend := (\<lambda>_ bs os. ((ZQ_E_OK, Some 3), os @ bs))\<rparr>)
        \<lparr>ts_socket = Some 1, mStreamAddressAndPort = (0, 0)\<rparr> s = Some s'
    \<and> snd s' = [9, 2, 3]"
  using tcp_sends_stale_bytes [of 508 "[F8 9]" "[1, 2, 3]" "sample_os\<lparr>ZqSocketSend := (\<lambda>_ bs os. ((ZQ_E_OK, Some 3), os @ bs))\<rparr>"
      "\<lparr>ts_socket = Some 1, mStreamAddressAndPort = (0, 0)\<rparr>" "[]"]
  by (simp add: fields_bytes_def so_send_def)

end
