(* ===== verification/Messages.thy ===== *)
theory Messages
  imports NetworkStreams
begin

text \<open>
  Core/Protocol/Message.hpp, Message.cpp, MessageStream.hpp and MessageStream.cpp: the protocol's
  messages and the stream that carries them. A message type is an enum over a 16 bit integer, and the
  receiver casts any integer to it, so a type is its integer here. \<open>MessageStream\<close> reads with
  \<open>LittleEndianFieldReader\<close> and writes with \<open>LittleEndianFieldWriter\<close>.
  The members of \<open>MessageWithType\<close> fix the type that the message constructors take.
\<close>

section \<open>Message\<close>

datatype message_type =
    GetMemory | GetMemoryResult | WriteMemory | GivePage
  | StopThread | StopThreadOK | KillThread | KillThreadOK | ContinueThread | ContinueThreadOK
  | ProcessPeerHello | ProcessPeerGoodbye | ProcessPeerRunThread | ProcessPeerRunThreadOK
  | GetAndReserveMemory
  | DoSystemCall | DoSystemCallResult
  | RunThreadPeerLookup | RunThreadPeerLookupPropose | RunThreadPeerLookupAcceptPropose

fun type_code :: "message_type \<Rightarrow> 16 word" where
  "type_code GetMemory = 0x8001"
| "type_code GetMemoryResult = 0x8005"
| "type_code WriteMemory = 0x8010"
| "type_code GivePage = 0x8015"
| "type_code StopThread = 0x8020"
| "type_code StopThreadOK = 0x8021"
| "type_code KillThread = 0x8025"
| "type_code KillThreadOK = 0x8026"
| "type_code ContinueThread = 0x8030"
| "type_code ContinueThreadOK = 0x8031"
| "type_code ProcessPeerHello = 0x8045"
| "type_code ProcessPeerGoodbye = 0x8050"
| "type_code ProcessPeerRunThread = 0x8055"
| "type_code ProcessPeerRunThreadOK = 0x8056"
| "type_code GetAndReserveMemory = 0x8057"
| "type_code DoSystemCall = 0x4000"
| "type_code DoSystemCallResult = 0x4001"
| "type_code RunThreadPeerLookup = 0x2000"
| "type_code RunThreadPeerLookupPropose = 0x2001"
| "type_code RunThreadPeerLookupAcceptPropose = 0x2002"

datatype parse_error = TooShort | InvalidType | OtherParseError

record message =
  mMessageType :: "16 word"

text \<open>The switch has a default case only.\<close>

definition IsValidMessageType :: "16 word \<Rightarrow> bool" where
  "IsValidMessageType t \<longleftrightarrow> False"

text \<open>
  A writer over an output stream: \<open>base\<close>, \<open>setBase\<close> and \<open>send\<close> are the stream's, as for
  \<open>os_writeT\<close>. A message that is an argument of \<open>writeT\<close> counts with its \<open>sizeof\<close>, which is 2,
  and is written by its own \<open>writeToWriter\<close>.
\<close>

definition me_writeToWriter ::
  "('s \<Rightarrow> output_stream) \<Rightarrow> (output_stream \<Rightarrow> 's \<Rightarrow> 's) \<Rightarrow> ('s \<Rightarrow> 's option) \<Rightarrow> message \<Rightarrow> 's \<Rightarrow> 's option" where
  "me_writeToWriter base setBase send m = os_writeT base setBase send LittleEndianFieldWriter [F16 (mMessageType m)]"

definition me_writableSize :: "message \<Rightarrow> size_t" where
  "me_writableSize m = 2"

definition me_writeT ::
  "('s \<Rightarrow> output_stream) \<Rightarrow> (output_stream \<Rightarrow> 's \<Rightarrow> 's) \<Rightarrow> ('s \<Rightarrow> 's option) \<Rightarrow> message \<Rightarrow> field list \<Rightarrow> 's \<Rightarrow> 's option" where
  "me_writeT base setBase send m fs s = do {
     let argsSize = 2 + mySizeOfArgs fs;
     s1 \<leftarrow> (if os_size (base s) < argsSize
            then os_expand base setBase send (argsSize - os_size (base s)) s
            else Some s);
     s2 \<leftarrow> me_writeToWriter base setBase send m s1;
     v \<leftarrow> fw_writeAll LittleEndianFieldWriter fs (os_vector (base s2));
     Some (setBase ((base s2)\<lparr>os_vector := v\<rparr>) s2)
   }"

section \<open>Messages with thread identifiers\<close>

record thread_message = message +
  mThreadID :: "64 word"

record threads_message = message +
  mThreadIDs :: "64 word list"

definition tm_fields :: "thread_message \<Rightarrow> field list" where
  "tm_fields m = [F64 (mThreadID m)]"

definition tm_writeToWriter ::
  "('s \<Rightarrow> output_stream) \<Rightarrow> (output_stream \<Rightarrow> 's \<Rightarrow> 's) \<Rightarrow> ('s \<Rightarrow> 's option) \<Rightarrow> thread_message \<Rightarrow> 's \<Rightarrow> 's option" where
  "tm_writeToWriter base setBase send m = me_writeT base setBase send (message.truncate m) (tm_fields m)"

definition tm_writableSize :: "thread_message \<Rightarrow> size_t" where
  "tm_writableSize m = 8 + me_writableSize (message.truncate m)"

text \<open>The size is cast to \<open>uint16_t\<close>; the vector of identifiers is written element by element.\<close>

definition tms_fields :: "threads_message \<Rightarrow> field list" where
  "tms_fields m = F16 (ucast (of_nat (length (mThreadIDs m)) :: size_t)) # map F64 (mThreadIDs m)"

definition tms_writeToWriter ::
  "('s \<Rightarrow> output_stream) \<Rightarrow> (output_stream \<Rightarrow> 's \<Rightarrow> 's) \<Rightarrow> ('s \<Rightarrow> 's option) \<Rightarrow> threads_message \<Rightarrow> 's \<Rightarrow> 's option" where
  "tms_writeToWriter base setBase send m = me_writeT base setBase send (message.truncate m) (tms_fields m)"

definition tms_writableSize :: "threads_message \<Rightarrow> size_t" where
  "tms_writableSize m = me_writableSize (message.truncate m) + 2 + of_nat (length (mThreadIDs m)) * 8"

text \<open>
  \<open>ReadFrom\<close>, over any reader: \<open>can n\<close> is \<open>canReadT\<close> for a type of \<open>n\<close> bytes and may change the
  reader's vector, by receiving. The result holds what was read; the type is not read here. In the
  list's case the elements are read with \<open>readTVector\<close>, which does not look at the remaining length,
  and the test that follows looks at the vector it returned.
\<close>

definition tm_ReadFrom ::
  "('s \<Rightarrow> reader) \<Rightarrow> (size_t \<Rightarrow> 's \<Rightarrow> 's option) \<Rightarrow> (size_t \<Rightarrow> 's \<Rightarrow> (bool \<times> 's) option) \<Rightarrow> 's
     \<Rightarrow> ((parse_error + 64 word) \<times> 's) option" where
  "tm_ReadFrom at adv can s = do {
     (ok, s1) \<leftarrow> can 8 s;
     (if \<not> ok then Some (Inl TooShort, s1)
      else do {
        (threadID, s2) \<leftarrow> fr_readT at adv le_read64 8 s1;
        Some (Inr threadID, s2)
      })
   }"

definition tms_ReadFrom ::
  "('s \<Rightarrow> reader) \<Rightarrow> (size_t \<Rightarrow> 's \<Rightarrow> 's option) \<Rightarrow> (size_t \<Rightarrow> 's \<Rightarrow> (bool \<times> 's) option) \<Rightarrow> 's
     \<Rightarrow> ((parse_error + 64 word list) \<times> 's) option" where
  "tms_ReadFrom at adv can s = do {
     (ok, s1) \<leftarrow> can 2 s;
     (if \<not> ok then Some (Inl TooShort, s1)
      else do {
        (arraySize, s2) \<leftarrow> fr_readT at adv le_read16 2 s1;
        (vector, s3) \<leftarrow> fr_readTVector at adv le_read64 8 (unat arraySize) s2;
        Some (Inr vector, s3)
      })
   }"

section \<open>MessageStream\<close>

datatype receive_message_error = ReceiveMessageOther

definition ms_sendMessage ::
  "('m \<Rightarrow> 's \<Rightarrow> 's option) \<Rightarrow> ('s \<Rightarrow> 's option) \<Rightarrow> 'm \<Rightarrow> 's \<Rightarrow> 's option" where
  "ms_sendMessage writeToWriter sendCurrentSegment m s = Option.bind (writeToWriter m s) sendCurrentSegment"

definition ms_receiveMessage ::
  "('env \<Rightarrow> (Streams.receive_error + byte list) \<times> 'env) \<Rightarrow> 'env \<Rightarrow> input_stream
     \<Rightarrow> ((receive_message_error + 16 word) \<times> 'env \<times> input_stream) option" where
  "ms_receiveMessage receiveData e s = do {
     (can, e1, s1) \<leftarrow> is_hasLength receiveData 2 e s;
     (if \<not> can then Some (Inl ReceiveMessageOther, e1, s1)
      else do {
        (type, s2) \<leftarrow> fr_readT is_at is_increaseBegin le_read16 2 s1;
        (if \<not> IsValidMessageType type then Some (Inl ReceiveMessageOther, e1, s2)
         else Some (Inr type, e1, s2))
      })
   }"

definition ms_CreateUDPConnection ::
  "('h, 'a, 'os) socket_os \<Rightarrow> size_t \<Rightarrow> 'a \<times> port \<Rightarrow> 'a \<Rightarrow> port \<Rightarrow> 'os \<Rightarrow> (unit + ('h, 'a) udp_stream) \<times> 'os" where
  "ms_CreateUDPConnection api sizeof_in6 unset address p os =
     (case us_Connect api sizeof_in6 unset address p os of
        (Inl _, os1) \<Rightarrow> (Inl (), os1)
      | (Inr st, os1) \<Rightarrow> (Inr st, os1))"

section \<open>Byte order of the messages\<close>

definition byte_swap16 :: "16 word \<Rightarrow> 16 word" where
  "byte_swap16 v = push_bit 8 (ucast (ucast v :: byte)) OR ucast (ucast (drop_bit 8 v) :: byte)"

lemma byte_swap16_of_nat:
  assumes "n < 256"
  shows "byte_swap16 (of_nat n) = of_nat (256 * n)"
proof -
  have "unat (of_nat n :: 16 word) = n" using assms by (simp add: unat_of_nat)
  then have "drop_bit 8 (of_nat n :: 16 word) = 0"
    using assms by (intro word_unat_eq_iff [THEN iffD2]) (simp add: unat_drop_bit_eq unat_div drop_bit_eq_div)
  moreover have "(ucast (ucast (of_nat n :: 16 word) :: byte) :: 16 word) = of_nat n"
    using assms by (intro word_unat_eq_iff [THEN iffD2]) (simp add: unsigned_ucast_eq unat_of_nat unat_mod take_bit_eq_mod)
  ultimately show ?thesis by (simp add: byte_swap16_def push_bit_eq_mult)
qed

lemma le_of_be16:
  assumes "\<And>i. i < 2 \<Longrightarrow> vec (of_nat i) = Some (enc_bytes (be_write16 v) ! i)"
  shows "le_read16 vec = Some (byte_swap16 v)"
proof -
  have "ucast (push_bit 8 (ucast b :: 32 word) OR (ucast c :: 32 word)) = (push_bit 8 (ucast b) OR ucast c :: 16 word)"
    for b c :: byte by (rule bit_word_eqI) (auto simp: bit_simps)
  moreover have "(ucast (drop_bit 8 (ucast v :: 32 word)) :: byte) = ucast (drop_bit 8 v)"
    by (rule bit_word_eqI) (auto simp: bit_simps)
  moreover have "(ucast (ucast v :: 32 word) :: byte) = ucast v" by (rule bit_word_eqI) (auto simp: bit_simps)
  ultimately show ?thesis using assms [of 0] assms [of 1]
    by (simp add: le_read16_def enc_bytes_def be_write16_def byte_swap16_def bytes16 del: drop_bit_and)
qed

lemma be_bytes_length [simp]:
  "length (be_write16 a) = 2" "length (be_write64 b) = 8"
  by (simp_all add: be16.length_law be64.length_law)

lemma fields_bytes_ids:
  "fields_bytes LittleEndianFieldWriter (map F64 ids) = concat (map (\<lambda>i. enc_bytes (be_write64 i)) ids)"
  by (simp add: fields_bytes_def LittleEndianFieldWriter_def BigEndianWriter_def o_def)

lemma length_fields_bytes_ids: "length (fields_bytes LittleEndianFieldWriter (map F64 ids)) = 8 * length ids"
  unfolding fields_bytes_ids by (induction ids) simp_all

lemma fields_bytes_cons16:
  "fields_bytes LittleEndianFieldWriter (F16 v # fs) = enc_bytes (be_write16 v) @ fields_bytes LittleEndianFieldWriter fs"
  by (simp add: fields_bytes_def LittleEndianFieldWriter_def BigEndianWriter_def)

lemma fields_bytes_tm: "fields_bytes LittleEndianFieldWriter (tm_fields m) = enc_bytes (be_write64 (mThreadID m))"
  by (simp add: tm_fields_def fields_bytes_def LittleEndianFieldWriter_def BigEndianWriter_def)

text \<open>Reading the type from a stream whose next bytes the message writer wrote.\<close>

lemma is_read_type:
  assumes "is_ok s" and "is_view s = enc_bytes (be_write16 v) @ rest" and "rest \<noteq> []"
  shows "\<exists>s'. fr_readT is_at is_increaseBegin le_read16 2 s = Some (byte_swap16 v, s') \<and> is_ok s' \<and> is_view s' = rest"
proof -
  have "is_at s (of_nat i) = Some (enc_bytes (be_write16 v) ! i)" if "i < 2" for i
    using inp.at_law [OF assms(1), of i] assms(2) that by (simp add: nth_append)
  then have "le_read16 (is_at s) = Some (byte_swap16 v)" by (rule le_of_be16)
  moreover obtain s' where "is_increaseBegin (of_nat 2) s = Some s'" "is_ok s'" "is_view s' = drop 2 (is_view s)"
    using inp.adv_law [OF assms(1), of 2] assms(2,3) by (cases rest) auto
  ultimately show ?thesis using assms(2) by (simp add: fr_readT_def)
qed

text \<open>Any two bytes in front of others are read as a type; if they are the last ones the read fails.\<close>

lemma is_read_any_type:
  assumes "is_ok s" and "2 \<le> length (is_view s)"
  shows "if length (is_view s) = 2 then fr_readT is_at is_increaseBegin le_read16 2 s = None
         else \<exists>ty s'. fr_readT is_at is_increaseBegin le_read16 2 s = Some (ty, s') \<and> is_ok s' \<and> is_view s' = drop 2 (is_view s)"
proof (cases "length (is_view s) = 2")
  case True
  then have "is_increaseBegin 2 s = None" using is_increaseBegin_all [OF assms(1)] by simp
  then show ?thesis using True by (auto simp: fr_readT_def bind_None_iff)
next
  case False
  then have "2 + 1 \<le> length (is_view s)" using assms(2) by simp
  from isle16.readT_total [OF assms(1) this] show ?thesis using False by simp
qed

section \<open>Properties\<close>



lemma type_code_eq_iff: "type_code a = type_code b \<longleftrightarrow> a = b"
  by (cases a; cases b) simp_all

lemma byte_swap16_type: "byte_swap16 (type_code a) \<noteq> type_code b"
  by (cases a; cases b) (simp_all add: byte_swap16_def push_bit_eq_mult drop_bit_eq_div ucast_eq)

text \<open>
  Message types are distinct integers. The message writer writes a type in big endian order and
  the message reader reads it in little endian order, so the receiver of any message sees its type
  with the two bytes swapped, which is never the integer of any message type.
\<close>

theorem message_type_misread:
  assumes "is_ok s" and "rest \<noteq> []"
    and "is_view s = fields_bytes LittleEndianFieldWriter [F16 (type_code t)] @ rest"
  shows "(\<exists>s'. fr_readT is_at is_increaseBegin le_read16 2 s = Some (byte_swap16 (type_code t), s')
              \<and> is_ok s' \<and> is_view s' = rest)
       \<and> (\<forall>u. byte_swap16 (type_code t) \<noteq> type_code u) \<and> inj type_code"
  using is_read_type [OF assms(1) _ assms(2), of "type_code t"] assms(3) byte_swap16_type type_code_eq_iff
  by (auto simp: fields_bytes_cons16 inj_def) (simp add: fields_bytes_def)

lemma message_type_misread_witness:
  "(\<exists>s'. fr_readT is_at is_increaseBegin le_read16 2
         \<lparr>mCurrentVector = ev_of_vector [0x80], mVectors = [[0x20, 1]], mVectorsSize = 3\<rparr> = Some (0x2080, s'))
     \<and> (0x2080 :: 16 word) \<notin> range type_code"
proof -
  let ?s = "\<lparr>mCurrentVector = ev_of_vector [0x80], mVectors = [[0x20, 1]], mVectorsSize = 3\<rparr>"
  have s: "is_ok ?s" "is_view ?s = [0x80, 0x20, 1]" by (simp_all add: is_ok_def is_view_def ev_of_vector_ok)
  have "fields_bytes LittleEndianFieldWriter [F16 (type_code StopThread)] = [0x80, 0x20]"
    by (simp add: fields_bytes_def LittleEndianFieldWriter_def BigEndianWriter_def enc_bytes_def be_write16_def upt_rec)
  then have v: "is_view ?s = fields_bytes LittleEndianFieldWriter [F16 (type_code StopThread)] @ [1]" using s by simp
  have "byte_swap16 (type_code StopThread) = 0x2080"
    by (simp add: byte_swap16_def push_bit_eq_mult drop_bit_eq_div ucast_eq)
  then show ?thesis using message_type_misread [OF s(1) _ v] by auto
qed

text \<open>Reading an integer that was written in the other byte order, from an extended vector.\<close>

lemma ev_read_swapped16:
  assumes "ev_ok s" and "ev_view s = enc_bytes (be_write16 v) @ r"
  shows "fr_readT ev_at ev_advance le_read16 2 s = Some (byte_swap16 v, ev_increaseBegin 2 s)"
    and "ev_view (ev_increaseBegin 2 s) = r" and "ev_ok (ev_increaseBegin 2 s)"
proof -
  have "le_read16 (ev_at s) = Some (byte_swap16 v)" using ev_at_prefix [OF assms] by (intro le_of_be16) simp
  then show "fr_readT ev_at ev_advance le_read16 2 s = Some (byte_swap16 v, ev_increaseBegin 2 s)"
    by (simp add: fr_readT_def ev_advance_def)
  show "ev_view (ev_increaseBegin 2 s) = r" "ev_ok (ev_increaseBegin 2 s)"
    using ev_increaseBegin_view [OF assms(1), of 2] assms(2) by simp_all
qed

lemma ev_read_swapped64:
  assumes "ev_ok s" and "ev_view s = enc_bytes (be_write64 v) @ r"
  shows "fr_readT ev_at ev_advance le_read64 8 s = Some (byte_swap64 v, ev_increaseBegin 8 s)"
    and "ev_view (ev_increaseBegin 8 s) = r" and "ev_hasLength s 8"
proof -
  have "le_read64 (ev_at s) = Some (byte_swap64 v)" using ev_at_prefix [OF assms] by (intro le_of_be64) simp
  then show "fr_readT ev_at ev_advance le_read64 8 s = Some (byte_swap64 v, ev_increaseBegin 8 s)"
    by (simp add: fr_readT_def ev_advance_def)
  show "ev_view (ev_increaseBegin 8 s) = r" using ev_increaseBegin_view [OF assms(1), of 8] assms(2) by simp
  show "ev_hasLength s 8" using ev.has_law [OF assms(1), of 8] assms(2) by simp
qed

text \<open>
  The thread identifiers of a message, read by the message reader from the bytes the message
  writer wrote. One identifier comes out with its bytes reversed. A list's 16 bit count comes out
  multiplied by 256 for a list shorter than 256, so only the empty list is read back; the reads of any other list run out of the
  bytes, since \<open>ReadFrom\<close> does not check that they are there.
\<close>

theorem thread_ids_misread:
  assumes "ev_ok s" and "mIndexEnd s = of_nat (length (ev_vector s))" and "length (ev_vector s) + 8 < 2 ^ 64"
  shows "(\<forall>m r. ev_view s = fields_bytes LittleEndianFieldWriter (tm_fields m) @ r \<longrightarrow>
           (\<exists>s'. tm_ReadFrom ev_at ev_advance (\<lambda>n s. Some (ev_hasLength s n, s)) s = Some (Inr (byte_swap64 (mThreadID m)), s')
               \<and> ev_view s' = r))
       \<and> (\<forall>m. length (mThreadIDs m) < 256 \<longrightarrow> ev_view s = fields_bytes LittleEndianFieldWriter (tms_fields m) \<longrightarrow>
            (if mThreadIDs m = [] then
               \<exists>s'. tms_ReadFrom ev_at ev_advance (\<lambda>n s. Some (ev_hasLength s n, s)) s = Some (Inr [], s') \<and> ev_view s' = []
             else tms_ReadFrom ev_at ev_advance (\<lambda>n s. Some (ev_hasLength s n, s)) s = None))"
proof (intro conjI allI impI)
  fix m :: "thread_message" and r
  assume v: "ev_view s = fields_bytes LittleEndianFieldWriter (tm_fields m) @ r"
  then have w: "ev_view s = enc_bytes (w64 LittleEndianFieldWriter (mThreadID m)) @ r"
    by (simp only: fields_bytes_tm) (simp add: LittleEndianFieldWriter_def BigEndianWriter_def)
  then show "\<exists>s'. tm_ReadFrom ev_at ev_advance (\<lambda>n s. Some (ev_hasLength s n, s)) s = Some (Inr (byte_swap64 (mThreadID m)), s')
      \<and> ev_view s' = r"
    using ev_read_swapped64 [OF assms(1)] w by (auto simp: tm_ReadFrom_def LittleEndianFieldWriter_def BigEndianWriter_def)
next
  fix m :: "threads_message"
  assume n: "length (mThreadIDs m) < 256" and v: "ev_view s = fields_bytes LittleEndianFieldWriter (tms_fields m)"
  let ?n = "length (mThreadIDs m)" and ?s = "ev_increaseBegin 2 s"
  have "ev_view s = enc_bytes (be_write16 (of_nat ?n)) @ fields_bytes LittleEndianFieldWriter (map F64 (mThreadIDs m))"
    using v n by (simp add: tms_fields_def fields_bytes_cons16 unsigned_of_nat take_bit_eq_mod)
  note rd = ev_read_swapped16 [OF assms(1) this]
  have u: "unat (byte_swap16 (of_nat ?n)) = 256 * ?n"
    using n by (simp only: byte_swap16_of_nat) (simp add: unat_of_nat del: of_nat_mult)
  have "2 \<le> length (ev_view s)" using v by (simp add: tms_fields_def fields_bytes_cons16)
  then have "ev_hasLength s 2" using ev.has_law [OF assms(1), of 2] by simp
  then have run: "tms_ReadFrom ev_at ev_advance (\<lambda>n s. Some (ev_hasLength s n, s)) s
      = Option.bind (fr_readTVector ev_at ev_advance le_read64 8 (256 * ?n) ?s) (\<lambda>(vs, s3). Some (Inr vs, s3))"
    using rd(1) u by (simp add: tms_ReadFrom_def)
  show "if mThreadIDs m = [] then
               \<exists>s'. tms_ReadFrom ev_at ev_advance (\<lambda>n s. Some (ev_hasLength s n, s)) s = Some (Inr [], s') \<and> ev_view s' = []
             else tms_ReadFrom ev_at ev_advance (\<lambda>n s. Some (ev_hasLength s n, s)) s = None"
  proof (cases "mThreadIDs m = []")
    case True
    then show ?thesis using run rd(2) by (simp add: fields_bytes_def)
  next
    case False
    have "length (ev_view ?s) = 8 * ?n" using rd(2) by (simp add: length_fields_bytes_ids)
    moreover have "unat (mIndexEnd ?s) = length (ev_vector ?s)"
      using assms(2,3) by (simp add: ev_increaseBegin_def unat_of_nat_small)
    ultimately have "unat (mIndexBegin ?s) + 8 * ?n = length (ev_vector ?s)"
      using ev_view_length [OF rd(3)] rd(3) by (auto simp: ev_ok_def)
    moreover have "0 < ?n" using False by simp
    ultimately have "length (ev_vector ?s) < unat (mIndexBegin ?s) + 8 * (256 * ?n)"
      "unat (mIndexBegin ?s) \<le> length (ev_vector ?s)" by linarith+
    then have "fr_readTVector ev_at ev_advance le_read64 8 (256 * ?n) ?s = None"
      using assms(3) by (intro readTVector_runs_out [OF le_read64_bound]) (simp_all add: ev_increaseBegin_def)
    then show ?thesis using run False by simp
  qed
qed

lemma thread_ids_misread_witness:
  "(\<exists>s'. tm_ReadFrom ev_at ev_advance (\<lambda>n s. Some (ev_hasLength s n, s)) (ev_of_vector [0, 0, 0, 0, 0, 0, 0, 1])
        = Some (Inr 0x0100000000000000, s'))
     \<and> tms_ReadFrom ev_at ev_advance (\<lambda>n s. Some (ev_hasLength s n, s)) (ev_of_vector [0, 1, 0, 0, 0, 0, 0, 0, 0, 1]) = None"
proof -
  have a: "ev_ok (ev_of_vector bs)" "ev_view (ev_of_vector bs) = bs" if "length bs < 100" for bs :: "byte list"
    using ev_of_vector_ok [of bs] that by simp_all
  have e: "mIndexEnd (ev_of_vector bs) = of_nat (length (ev_vector (ev_of_vector bs)))"
    "length (ev_vector (ev_of_vector bs)) = length bs" for bs :: "byte list"
    by (simp_all add: ev_of_vector_def)
  let ?m = "\<lparr>mMessageType = 0x8020, mThreadID = 1\<rparr>" and ?l = "\<lparr>mMessageType = 0x8045, mThreadIDs = [1]\<rparr>"
  have "fields_bytes LittleEndianFieldWriter (tm_fields ?m) = [0, 0, 0, 0, 0, 0, 0, 1]"
    "fields_bytes LittleEndianFieldWriter (tms_fields ?l) = [0, 1, 0, 0, 0, 0, 0, 0, 0, 1]"
    by (simp_all add: tm_fields_def tms_fields_def fields_bytes_def LittleEndianFieldWriter_def BigEndianWriter_def
        enc_bytes_def be_write16_def be_write64_def upt_rec)
  moreover have "byte_swap64 1 = 0x0100000000000000"
    by (simp add: byte_swap64_def push_bit_eq_mult drop_bit_eq_div)
  ultimately show ?thesis
    using thread_ids_misread [OF a(1) e(1), of "[0, 0, 0, 0, 0, 0, 0, 1]", THEN conjunct1, rule_format, of ?m "[]"]
      thread_ids_misread [OF a(1) e(1), of "[0, 1, 0, 0, 0, 0, 0, 0, 0, 1]", THEN conjunct2, rule_format, of ?l]
    by (auto simp: a(2) e(2))
qed

end
