(* ===== verification/PeersServer.thy ===== *)
theory PeersServer
  imports HashTables Messages
begin

text \<open>
  Core/Common/ProcessPeersServer.hpp and ProcessPeersServer.cpp: the peers of a process. \<open>OtherServers\<close>
  keeps a list of connections, each with the number of threads that run there, and a table from thread
  identifiers to iterators into that list; both are the model's own list and table, each with the heap
  of its nodes. The handlers of the server get the message stream and the local threads as arguments:
  a stream is what its \<open>sendMessage\<close> does to a state \<open>'w\<close>. The lock around \<open>OtherServers\<close> is
  not part of this theory.
\<close>

section \<open>OtherServers\<close>

record 'i connection =
  conn_info :: 'i
  referenceCount :: size_t

record 'i other_servers =
  connHeap :: "'i connection dll_heap"
  mConnectionsList :: linked_list
  idsHeap :: "(64 word, ptr) ht_heap"
  mThreadIDToStream :: hash_table

text \<open>\<open>Hash<uint64_t>\<close>.\<close>

abbreviation id_hash :: "64 word \<Rightarrow> size_t" where
  "id_hash \<equiv> trivial_hash_unsigned"

fun sv_addThreads_loop ::
  "ptr \<Rightarrow> 64 word list \<Rightarrow> (64 word, ptr) ht_heap \<Rightarrow> hash_table \<Rightarrow> ((64 word, ptr) ht_heap \<times> hash_table) option" where
  "sv_addThreads_loop beforeEnd [] h t = Some (h, t)"
| "sv_addThreads_loop beforeEnd (threadID # ids) h t = do {
     (it, h1, t1) \<leftarrow> ht_subscript id_hash (=) nullptr threadID h t;
     n \<leftarrow> it_deref h1 it;
     h2 \<leftarrow> it_assign h1 it (n\<lparr>pt_second := beforeEnd\<rparr>);
     sv_addThreads_loop beforeEnd ids h2 t1
   }"

definition sv_addThreads :: "64 word list \<Rightarrow> 'i \<Rightarrow> 'i other_servers \<Rightarrow> 'i other_servers option" where
  "sv_addThreads threadsToAdd info s = do {
     (_, ch, cl) \<leftarrow> ll_emplace_back \<lparr>conn_info = info, referenceCount = of_nat (length threadsToAdd)\<rparr>
                      (connHeap s) (mConnectionsList s);
     let beforeEnd = mBeforeEnd cl;
     (ih, tb) \<leftarrow> sv_addThreads_loop beforeEnd threadsToAdd (idsHeap s) (mThreadIDToStream s);
     Some \<lparr>connHeap = ch, mConnectionsList = cl, idsHeap = ih, mThreadIDToStream = tb\<rparr>
   }"

definition sv_removeThread :: "64 word \<Rightarrow> 'i other_servers \<Rightarrow> 'i other_servers option" where
  "sv_removeThread threadID s = do {
     threadIDIterator \<leftarrow> ht_find id_hash (=) threadID (idsHeap s) (mThreadIDToStream s);
     n \<leftarrow> it_deref (idsHeap s) threadIDIterator;
     c \<leftarrow> it_deref (connHeap s) (pt_second n);
     let currentCount = referenceCount c - 1;
     ch \<leftarrow> it_assign (connHeap s) (pt_second n) (c\<lparr>referenceCount := currentCount\<rparr>);
     (ch1, cl1) \<leftarrow> (if currentCount = 0 then map_option snd (ll_erase (pt_second n) ch (mConnectionsList s))
                    else Some (ch, mConnectionsList s));
     (_, ih, tb) \<leftarrow> ht_erase threadIDIterator (idsHeap s) (mThreadIDToStream s);
     Some \<lparr>connHeap = ch1, mConnectionsList = cl1, idsHeap = ih, mThreadIDToStream = tb\<rparr>
   }"

fun sv_removeThreads :: "64 word list \<Rightarrow> 'i other_servers \<Rightarrow> 'i other_servers option" where
  "sv_removeThreads [] s = Some s"
| "sv_removeThreads (threadID # ids) s = Option.bind (sv_removeThread threadID s) (sv_removeThreads ids)"

datatype find_thread_error = InvalidThreadID

definition sv_findThreadStreamInfo :: "64 word \<Rightarrow> 'i other_servers \<Rightarrow> (find_thread_error + 'i) option" where
  "sv_findThreadStreamInfo threadID s = do {
     iterator \<leftarrow> ht_find id_hash (=) threadID (idsHeap s) (mThreadIDToStream s);
     (if iterator = ll_cend then Some (Inl InvalidThreadID)
      else do {
        n \<leftarrow> it_deref (idsHeap s) iterator;
        c \<leftarrow> it_deref (connHeap s) (pt_second n);
        Some (Inr (conn_info c))
      })
   }"

text \<open>The servers of a process that no other peer has joined; the table has its default size.\<close>

definition sv_new :: "'i other_servers" where
  "sv_new = \<lparr>connHeap = empty_heap, mConnectionsList = ll_empty,
             idsHeap = empty_heap, mThreadIDToStream = ht_construct_default\<rparr>"

section \<open>ProcessPeersServer\<close>

text \<open>
  \<open>sendToAll\<close>: the loop over the connections. \<open>deliver\<close> creates a message stream for an address and
  sends the message over it.
\<close>

partial_function (option) sv_sendToAll_loop ::
  "('i \<Rightarrow> 'w \<Rightarrow> 'w option) \<Rightarrow> 'i connection dll_heap \<Rightarrow> ptr \<Rightarrow> 'w \<Rightarrow> 'w option" where
  "sv_sendToAll_loop deliver h it w =
     (if it = ll_cend then Some w
      else do {
        c \<leftarrow> it_deref h it;
        w1 \<leftarrow> deliver (conn_info c) w;
        it1 \<leftarrow> it_next h it;
        sv_sendToAll_loop deliver h it1 w1
      })"

definition sv_sendToAll :: "('m \<Rightarrow> 'i \<Rightarrow> 'w \<Rightarrow> 'w option) \<Rightarrow> 'm \<Rightarrow> 'i other_servers \<Rightarrow> 'w \<Rightarrow> 'w option" where
  "sv_sendToAll deliver message s w = sv_sendToAll_loop (deliver message) (connHeap s) (mBegin (mConnectionsList s)) w"

definition sv_sendHello ::
  "(threads_message \<Rightarrow> 'i \<Rightarrow> 'w \<Rightarrow> 'w option) \<Rightarrow> 64 word list \<Rightarrow> 'i other_servers \<Rightarrow> 'w \<Rightarrow> 'w option" where
  "sv_sendHello deliver processThreadIDs s w =
     sv_sendToAll deliver \<lparr>mMessageType = type_code ProcessPeerHello, mThreadIDs = processThreadIDs\<rparr> s w"

definition sv_sendGoodbye ::
  "(threads_message \<Rightarrow> 'i \<Rightarrow> 'w \<Rightarrow> 'w option) \<Rightarrow> 64 word list \<Rightarrow> 'i other_servers \<Rightarrow> 'w \<Rightarrow> 'w option" where
  "sv_sendGoodbye deliver processThreadIDs s w =
     sv_sendToAll deliver \<lparr>mMessageType = type_code ProcessPeerGoodbye, mThreadIDs = processThreadIDs\<rparr> s w"

text \<open>
  The thread handlers: \<open>thread\<close> is what \<open>globalToLocalThread\<close> found, \<open>act\<close> the call on it
  (\<open>stop\<close>, \<open>cont\<close> or \<open>kill\<close>), \<open>send\<close> the stream's \<open>sendMessage\<close>. The branch for a missing thread
  does not return.
\<close>

definition sv_globalToLocalThread ::
  "64 word \<Rightarrow> (64 word, 't) ht_heap \<Rightarrow> hash_table \<Rightarrow> ptr option" where
  "sv_globalToLocalThread threadID h t = ht_find id_hash (=) threadID h t"

definition sv_onThread ::
  "('t \<Rightarrow> 'w \<Rightarrow> 'w option) \<Rightarrow> (thread_message \<Rightarrow> 'w \<Rightarrow> 'w) \<Rightarrow> message_type \<Rightarrow> 64 word
     \<Rightarrow> (64 word, 't) ht_heap \<Rightarrow> hash_table \<Rightarrow> 'w \<Rightarrow> 'w option" where
  "sv_onThread act send ok threadID h t w = do {
     thread \<leftarrow> sv_globalToLocalThread threadID h t;
     let reply = \<lparr>mMessageType = type_code ok, mThreadID = threadID\<rparr>;
     let w1 = (if thread = nullptr then send reply w else w);
     n \<leftarrow> it_deref h thread;
     w2 \<leftarrow> act (pt_second n) w1;
     Some (send reply w2)
   }"

definition sv_onStopThreadReceived where
  "sv_onStopThreadReceived stop send threadID h t w = sv_onThread stop send StopThreadOK threadID h t w"

definition sv_onContinueThread where
  "sv_onContinueThread cont send threadID h t w = sv_onThread cont send ContinueThreadOK threadID h t w"

definition sv_onKillThreadReceived where
  "sv_onKillThreadReceived kill send threadID h t w = sv_onThread kill send KillThreadOK threadID h t w"

definition sv_onHelloReceived :: "'i \<Rightarrow> 64 word list \<Rightarrow> 'i other_servers \<Rightarrow> 'i other_servers option" where
  "sv_onHelloReceived streamInfo newThreads s = sv_addThreads newThreads streamInfo s"

definition sv_onGoodbyeReceived :: "64 word list \<Rightarrow> 'i other_servers \<Rightarrow> 'i other_servers option" where
  "sv_onGoodbyeReceived leavingThreads s = sv_removeThreads leavingThreads s"

text \<open>\<open>onMessageReceived\<close> switches over the type and does nothing in any case.\<close>

definition sv_onMessageReceived :: "message \<Rightarrow> 'i other_servers \<Rightarrow> 'i other_servers" where
  "sv_onMessageReceived type s =
     (if mMessageType type = type_code StopThread then s
      else if mMessageType type = type_code ContinueThread then s
      else if mMessageType type = type_code KillThread then s
      else if mMessageType type = type_code ProcessPeerRunThread then s
      else if mMessageType type = type_code ProcessPeerHello then s
      else if mMessageType type = type_code ProcessPeerGoodbye then s
      else s)"

section \<open>Representation and invariant\<close>

type_synonym 'i connections = "(nat \<times> 'i connection) list"

text \<open>
  \<open>sv_repr s cs m\<close>: the list holds the connections \<open>cs\<close> and the table sends a thread identifier to
  the connection at address \<open>m\<close> gives. \<open>sv_counted cs m\<close>: a thread's connection is in the list, and
  every connection counts its threads and has one.
\<close>

definition sv_repr :: "'i other_servers \<Rightarrow> 'i connections \<Rightarrow> (64 word \<Rightarrow> nat option) \<Rightarrow> bool" where
  "sv_repr s cs m \<longleftrightarrow> ll_repr (connHeap s) (mConnectionsList s) cs
     \<and> ht_holds id_hash (idsHeap s, mThreadIDToStream s) (\<lambda>i. map_option Some (m i))"

definition threads_of :: "(64 word \<Rightarrow> nat option) \<Rightarrow> nat \<Rightarrow> 64 word set" where
  "threads_of m a = {i. m i = Some a}"

definition sv_counted :: "'i connections \<Rightarrow> (64 word \<Rightarrow> nat option) \<Rightarrow> bool" where
  "sv_counted cs m \<longleftrightarrow> (\<forall>i a. m i = Some a \<longrightarrow> a \<in> fst ` set cs)
     \<and> (\<forall>(a, c) \<in> set cs. unat (referenceCount c) = card (threads_of m a) \<and> threads_of m a \<noteq> {})"

lemma sv_repr_new: "sv_repr sv_new [] Map.empty"
proof -
  have "ht_inv id_hash empty_heap (ht_construct kVectorInitialSize) []"
    by (intro ht_construct_inv) (simp_all add: kVectorInitialSize_def)
  then show ?thesis
    by (auto simp: sv_repr_def sv_new_def ht_construct_default_def ht_holds_def entry_map_def intro!: exI [of _ "[]"])
qed

lemma sv_counted_new: "sv_counted [] Map.empty"
  by (simp add: sv_counted_def)

lemma ht_found:
  assumes inv: "ht_inv H h t es" and k: "entry_map es k = Some v"
  shows "\<exists>a n. ht_find H (=) k h t = Some (Some a) \<and> it_deref h (Some a) = Some n \<and> pt_second n = v
           \<and> (\<exists>it h' t' es'. ht_erase (Some a) h t = Some (it, h', t') \<and> ht_inv H h' t' es'
               \<and> entry_map es' = (entry_map es)(k := None))"
proof -
  obtain xs a n ys where es: "es = xs @ (a, n) # ys" and n: "pt_first n = k" "pt_second n = v"
    and f: "filter (\<lambda>e. e_key e = k) es = [(a, n)]" and d: "it_deref h (Some a) = Some n"
    using entry_found [OF inv k] by blast
  have inv': "ht_inv H h t (xs @ (a, n) # ys)" using inv es by simp
  then have "entry_map (xs @ ys) = (entry_map es)(k := None)"
    using entry_map_remove [of xs "(a, n)" ys] es n(1) by (simp add: ht_inv_def)
  then show ?thesis using ht_erase_run [OF inv'] ht_find_run [OF inv, of k] f d n(2) by fastforce
qed

lemma sv_addThreads_loop_run:
  assumes "ht_inv id_hash h t es"
  shows "\<exists>h' t' es'. sv_addThreads_loop p ids h t = Some (h', t') \<and> ht_inv id_hash h' t' es'
           \<and> entry_map es' = (\<lambda>i. if i \<in> set ids then Some p else entry_map es i)"
  using assms
proof (induction ids arbitrary: h t es)
  case (Cons i ids)
  obtain a n h1 t1 xs ys where sub: "ht_subscript id_hash (=) nullptr i h t = Some (Some a, h1, t1)"
    and inv1: "ht_inv id_hash h1 t1 (xs @ (a, n) # ys)" and n: "pt_first n = i"
    and m1: "entry_map (xs @ (a, n) # ys) = (entry_map es)(i \<mapsto> (case entry_map es i of None \<Rightarrow> nullptr | Some w \<Rightarrow> w))"
    using ht_subscript_run [OF Cons.prems, of nullptr i] by blast
  have d: "it_deref h1 (Some a) = Some n" using ll_repr_deref [OF ht_inv_repr [OF inv1], of a n] by simp
  obtain h2 where as: "it_assign h1 (Some a) (n\<lparr>pt_second := p\<rparr>) = Some h2"
    and inv2: "ht_inv id_hash h2 t1 (xs @ (a, n\<lparr>pt_second := p\<rparr>) # ys)"
    using ht_inv_assign [OF inv1] by blast
  have "distinct (map e_key (xs @ (a, n) # ys))" using inv1 by (simp only: ht_inv_def)
  then have m2: "entry_map (xs @ (a, n\<lparr>pt_second := p\<rparr>) # ys) = (entry_map es)(i \<mapsto> p)"
    using entry_map_assign [of xs a n ys p] m1 n by simp
  from Cons.IH [OF inv2] show ?case using sub d as m2 by (fastforce simp: fun_eq_iff)
qed auto

lemma sv_addThreads_run:
  assumes r: "sv_repr s cs m"
  shows "\<exists>s'. sv_addThreads ids addr s = Some s'
           \<and> sv_repr s' (cs @ [(brk (connHeap s), \<lparr>conn_info = addr, referenceCount = of_nat (length ids)\<rparr>)])
                (\<lambda>i. if i \<in> set ids then Some (brk (connHeap s)) else m i)"
proof -
  let ?a = "brk (connHeap s)" and ?c = "\<lparr>conn_info = addr, referenceCount = of_nat (length ids)\<rparr>"
  obtain ch cl where eb: "ll_emplace_back ?c (connHeap s) (mConnectionsList s) = Some (Some ?a, ch, cl)"
    and l: "ll_repr ch cl (cs @ [(?a, ?c)])"
    using ll_emplace_back_repr [of "connHeap s" "mConnectionsList s" cs ?c] r by (auto simp: sv_repr_def)
  have be: "mBeforeEnd cl = Some ?a" using ll_repr_beforeEnd [OF l] by simp
  obtain es where es: "ht_inv id_hash (idsHeap s) (mThreadIDToStream s) es" "entry_map es = (\<lambda>i. map_option Some (m i))"
    using r by (auto simp: sv_repr_def ht_holds_def)
  from sv_addThreads_loop_run [OF es(1), of "Some ?a" ids] obtain ih tb es' where
    lp: "sv_addThreads_loop (Some ?a) ids (idsHeap s) (mThreadIDToStream s) = Some (ih, tb)"
    and es': "ht_inv id_hash ih tb es'" "entry_map es' = (\<lambda>i. if i \<in> set ids then Some (Some ?a) else entry_map es i)"
    by blast
  have "ht_holds id_hash (ih, tb) (\<lambda>i. map_option Some (if i \<in> set ids then Some ?a else m i))"
    unfolding ht_holds_def using es' es(2) by (intro exI [of _ es']) (auto simp: fun_eq_iff)
  then show ?thesis using eb be lp l by (simp add: sv_addThreads_def sv_repr_def)
qed

lemma sv_addThreads_counted:
  assumes c: "sv_counted cs m" and a: "a \<notin> fst ` set cs" and ids: "distinct ids" "ids \<noteq> []" "length ids < 2 ^ 64"
    and fresh: "\<forall>i \<in> set ids. m i = None"
  shows "sv_counted (cs @ [(a, \<lparr>conn_info = addr, referenceCount = of_nat (length ids)\<rparr>)])
           (\<lambda>i. if i \<in> set ids then Some a else m i)"
proof -
  let ?m = "\<lambda>i. if i \<in> set ids then Some a else m i"
  have old: "\<And>i b. m i = Some b \<Longrightarrow> b \<in> fst ` set cs" using c unfolding sv_counted_def by blast
  have new: "threads_of ?m a = set ids" using old a by (auto simp: threads_of_def)
  have same: "threads_of ?m b = threads_of m b" if "b \<in> fst ` set cs" for b
    using that a fresh by (auto simp: threads_of_def)
  have n: "unat (of_nat (length ids) :: size_t) = card (set ids)"
    using unat_of_nat_small [OF ids(3)] ids(1) by (simp add: distinct_card)
  show ?thesis
    unfolding sv_counted_def
  proof (intro conjI allI impI ballI)
    fix i b assume "?m i = Some b"
    then show "b \<in> fst ` set (cs @ [(a, \<lparr>conn_info = addr, referenceCount = of_nat (length ids)\<rparr>)])"
      using old [of i b] by (cases "i \<in> set ids") auto
  next
    fix x assume x: "x \<in> set (cs @ [(a, \<lparr>conn_info = addr, referenceCount = of_nat (length ids)\<rparr>)])"
    show "case x of (b, d) \<Rightarrow> unat (referenceCount d) = card (threads_of ?m b) \<and> threads_of ?m b \<noteq> {}"
    proof (cases "x \<in> set cs")
      case True
      then have "fst x \<in> fst ` set cs" by (rule imageI)
      from same [OF this] show ?thesis using c True unfolding sv_counted_def by (cases x) auto
    next
      case False
      then show ?thesis using x new n ids(2) by simp
    qed
  qed
qed

text \<open>Removing one thread: its connection loses one reference, and goes when that was the last one.\<close>

definition dropped :: "'i connection \<Rightarrow> 'i connection" where
  "dropped c = c\<lparr>referenceCount := referenceCount c - 1\<rparr>"

lemma dropped_simps [simp]:
  "conn_info (dropped c) = conn_info c" "referenceCount (dropped c) = referenceCount c - 1"
  by (simp_all add: dropped_def)

lemma sv_removeThread_run:
  assumes r: "sv_repr s (xs @ (a, c) # ys) m" and i: "m i = Some a"
  shows "\<exists>s'. sv_removeThread i s = Some s'
           \<and> sv_repr s' (if referenceCount c = 1 then xs @ ys else xs @ (a, dropped c) # ys) (m(i := None))"
proof -
  obtain es where inv: "ht_inv id_hash (idsHeap s) (mThreadIDToStream s) es"
    and em: "entry_map es = (\<lambda>i. map_option Some (m i))" using r by (auto simp: sv_repr_def ht_holds_def)
  have l: "ll_repr (connHeap s) (mConnectionsList s) (xs @ (a, c) # ys)" using r by (simp add: sv_repr_def)
  have "entry_map es i = Some (Some a)" using em i by simp
  then obtain b n it ih tb es' where fd: "ht_find id_hash (=) i (idsHeap s) (mThreadIDToStream s) = Some (Some b)"
      "it_deref (idsHeap s) (Some b) = Some n" "pt_second n = Some a"
    and er: "ht_erase (Some b) (idsHeap s) (mThreadIDToStream s) = Some (it, ih, tb)"
    and inv': "ht_inv id_hash ih tb es'" "entry_map es' = (entry_map es)(i := None)"
    using ht_found [OF inv, of i "Some a"] by blast
  have "ht_holds id_hash (ih, tb) (\<lambda>j. map_option Some ((m(i := None)) j))"
    unfolding ht_holds_def using inv' em by (intro exI [of _ es']) (auto simp: fun_eq_iff)
  then have tab: "ht_holds id_hash (ih, tb) (\<lambda>j. map_option Some (if j = i then None else m j))"
    by (simp add: fun_upd_def)
  have d: "it_deref (connHeap s) (Some a) = Some c" using ll_repr_deref [OF l] by simp
  obtain ch where as: "it_assign (connHeap s) (Some a) (dropped c) = Some ch"
    and l1: "ll_repr ch (mConnectionsList s) (xs @ (a, dropped c) # ys)" using ll_repr_write [OF l] by blast
  obtain ch2 cl2 where del: "ll_erase (Some a) ch (mConnectionsList s)
      = Some (if ys = [] then last_ptr xs None else first_ptr ys None, ch2, cl2)" and l2: "ll_repr ch2 cl2 (xs @ ys)"
    using ll_erase_repr [OF l1] by blast
  have "referenceCount c - 1 = 0 \<longleftrightarrow> referenceCount c = 1" by simp
  then show ?thesis using fd er d as del l1 l2 tab
    by (auto simp: sv_removeThread_def sv_repr_def Let_def dropped_def fun_upd_def)
qed

lemma threads_of_remove: "threads_of (m(i := None)) b = threads_of m b - {i}"
  by (auto simp: threads_of_def)

lemma sv_removeThread_counted:
  assumes c: "sv_counted (xs @ (a, c) # ys) m" and d: "distinct (map fst (xs @ (a, c) # ys))" and i: "m i = Some a"
  shows "sv_counted (if referenceCount c = 1 then xs @ ys else xs @ (a, dropped c) # ys) (m(i := None))"
    and "referenceCount c = 1 \<longleftrightarrow> threads_of m a = {i}"
proof -
  let ?m = "m(i := None)"
  have in_cs: "j \<in> threads_of m b \<Longrightarrow> b \<in> fst ` set (xs @ (a, c) # ys)" for j b
    using c unfolding sv_counted_def threads_of_def by blast
  have ca: "unat (referenceCount c) = card (threads_of m a)" using c unfolding sv_counted_def by fastforce
  have mem: "i \<in> threads_of m a" using i by (simp add: threads_of_def)
  have pos: "0 < card (threads_of m a)" using mem by (auto simp: card_gt_0_iff)
  have "referenceCount c = 1 \<longleftrightarrow> card (threads_of m a) = 1"
    using ca by (metis eq_of_nat_unat of_nat_1 unat_1)
  then show one: "referenceCount c = 1 \<longleftrightarrow> threads_of m a = {i}"
    using mem by (auto simp: card_1_singleton_iff)
  have others: "threads_of ?m b = threads_of m b" if "b \<noteq> a" for b using that i by (auto simp: threads_of_def)
  have rest: "unat (referenceCount e) = card (threads_of ?m b) \<and> threads_of ?m b \<noteq> {}" if "(b, e) \<in> set (xs @ ys)" for b e
  proof -
    have "b \<in> fst ` set (xs @ ys)" using that by (metis fst_conv imageI)
    then have "b \<noteq> a" using d by auto
    moreover have "unat (referenceCount e) = card (threads_of m b) \<and> threads_of m b \<noteq> {}"
    proof -
      have "(b, e) \<in> set (xs @ (a, c) # ys)" using that by auto
      then show ?thesis using c unfolding sv_counted_def by blast
    qed
    ultimately show ?thesis using others [of b] by simp
  qed
  have sub: "threads_of ?m b \<subseteq> threads_of m b" for b by (auto simp: threads_of_remove)
  show "sv_counted (if referenceCount c = 1 then xs @ ys else xs @ (a, dropped c) # ys) ?m"
  proof (cases "referenceCount c = 1")
    case True
    then have "threads_of ?m a = {}" using one by (simp add: threads_of_remove)
    then have "b \<in> fst ` set (xs @ ys)" if "?m j = Some b" for j b
      using in_cs [of j b] that by (cases "b = a") (auto simp: threads_of_def split: if_splits)
    then show ?thesis using True rest unfolding sv_counted_def by auto
  next
    case False
    have "1 \<le> referenceCount c" using pos ca by (simp add: word_le_nat_alt)
    then have "unat (referenceCount c - 1) = card (threads_of ?m a)"
      using ca mem by (simp add: unat_sub threads_of_remove)
    moreover have "threads_of ?m a \<noteq> {}" using False one mem by (auto simp: threads_of_remove)
    moreover have "b \<in> fst ` set (xs @ (a, dropped c) # ys)" if "?m j = Some b" for j b
      using in_cs [of j b] that by (auto simp: threads_of_def split: if_splits)
    ultimately show ?thesis using False rest unfolding sv_counted_def by auto
  qed
qed

text \<open>The connections of a list with a thread left, and what a removal leaves of a list.\<close>

abbreviation infos :: "'i connections \<Rightarrow> (nat \<times> 'i) list" where
  "infos cs \<equiv> map (\<lambda>(a, c). (a, conn_info c)) cs"

definition still_used :: "(64 word \<Rightarrow> nat option) \<Rightarrow> nat \<times> 'i \<Rightarrow> bool" where
  "still_used m x \<longleftrightarrow> threads_of m (fst x) \<noteq> {}"

lemma sv_counted_used: "sv_counted cs m \<Longrightarrow> filter (still_used m) (infos cs) = infos cs"
  by (auto simp: filter_id_conv sv_counted_def still_used_def)

lemma sv_removeThread_step:
  assumes r: "sv_repr s cs m" and c: "sv_counted cs m" and i: "m i = Some a"
  shows "\<exists>s' cs'. sv_removeThread i s = Some s' \<and> sv_repr s' cs' (m(i := None)) \<and> sv_counted cs' (m(i := None))
           \<and> infos cs' = filter (still_used (m(i := None))) (infos cs)"
proof -
  have "a \<in> fst ` set cs" using c i by (auto simp: sv_counted_def)
  then obtain cn where "(a, cn) \<in> set cs" by auto
  then obtain xs ys where cs: "cs = xs @ (a, cn) # ys" by (meson split_list)
  have d: "distinct (map fst (xs @ (a, cn) # ys))" using r cs by (simp add: sv_repr_def ll_repr_def)
  let ?cs = "if referenceCount cn = 1 then xs @ ys else xs @ (a, dropped cn) # ys"
  note cc = sv_removeThread_counted [OF c [unfolded cs] d i]
  obtain s' where s': "sv_removeThread i s = Some s'" "sv_repr s' ?cs (m(i := None))"
    using sv_removeThread_run [OF r [unfolded cs] i] by blast
  have "infos ?cs = filter (still_used (m(i := None))) (infos ?cs)" using sv_counted_used [OF cc(1)] by simp
  also have "\<dots> = filter (still_used (m(i := None))) (infos cs)"
    using cs cc(2) by (auto simp: still_used_def threads_of_remove)
  finally show ?thesis using s' cc(1) by blast
qed

lemma sv_removeThreads_run:
  assumes "sv_repr s cs m" and "sv_counted cs m" and "distinct ids" and "set ids \<subseteq> dom m"
  shows "\<exists>s' cs'. sv_removeThreads ids s = Some s' \<and> sv_repr s' cs' (m |` (- set ids)) \<and> sv_counted cs' (m |` (- set ids))
           \<and> infos cs' = filter (still_used (m |` (- set ids))) (infos cs)"
  using assms
proof (induction ids arbitrary: s cs m)
  case Nil
  then show ?case using sv_counted_used [OF Nil.prems(2)] by (intro exI [of _ s] exI [of _ cs]) simp
next
  case (Cons i ids)
  let ?m = "m(i := None)" and ?m' = "m |` (- set (i # ids))"
  obtain a where a: "m i = Some a" using Cons.prems(4) by auto
  obtain s1 cs1 where s1: "sv_removeThread i s = Some s1" "sv_repr s1 cs1 ?m" "sv_counted cs1 ?m"
    "infos cs1 = filter (still_used ?m) (infos cs)"
    using sv_removeThread_step [OF Cons.prems(1,2) a] by blast
  have "distinct ids" "set ids \<subseteq> dom ?m" using Cons.prems(3,4) by auto
  from Cons.IH [OF s1(2,3) this] obtain s2 cs2 where s2: "sv_removeThreads ids s1 = Some s2"
    "sv_repr s2 cs2 (?m |` (- set ids))" "sv_counted cs2 (?m |` (- set ids))"
    "infos cs2 = filter (still_used (?m |` (- set ids))) (infos cs1)" by blast
  have m: "?m |` (- set ids) = ?m'" by (auto simp: restrict_map_def fun_eq_iff)
  have "still_used ?m' x \<Longrightarrow> still_used ?m x" for x :: "nat \<times> 'a"
    by (auto simp: still_used_def threads_of_def restrict_map_def split: if_splits)
  then have "filter (still_used ?m') (filter (still_used ?m) (infos cs)) = filter (still_used ?m') (infos cs)"
    by (auto simp: filter_filter intro!: filter_cong)
  then show ?case using s1 s2 m by (intro exI [of _ s2] exI [of _ cs2]) simp
qed

lemma sv_find_run:
  assumes r: "sv_repr s cs m" and c: "sv_counted cs m"
  shows "sv_findThreadStreamInfo i s
           = Some (case m i of None \<Rightarrow> Inl InvalidThreadID | Some a \<Rightarrow> Inr (conn_info (the (map_of cs a))))"
proof -
  obtain es where inv: "ht_inv id_hash (idsHeap s) (mThreadIDToStream s) es"
    and em: "entry_map es = (\<lambda>i. map_option Some (m i))" using r by (auto simp: sv_repr_def ht_holds_def)
  have l: "ll_repr (connHeap s) (mConnectionsList s) cs" using r by (simp add: sv_repr_def)
  show ?thesis
  proof (cases "m i")
    case None
    then have "entry_map es i = None" using em by simp
    then show ?thesis using None ht_find_run [OF inv, of i]
      by (simp add: sv_findThreadStreamInfo_def entry_map_None ll_cend_def)
  next
    case (Some a)
    have "entry_map es i = Some (Some a)" using em Some by simp
    then obtain b n where fd: "ht_find id_hash (=) i (idsHeap s) (mThreadIDToStream s) = Some (Some b)"
        "it_deref (idsHeap s) (Some b) = Some n" "pt_second n = Some a"
      using ht_found [OF inv, of i "Some a"] by blast
    have "a \<in> fst ` set cs" using c Some by (auto simp: sv_counted_def)
    then obtain cn where cn: "(a, cn) \<in> set cs" by auto
    have "map_of cs a = Some cn" using cn ll_repr_distinct [OF l] by simp
    then show ?thesis using fd Some ll_repr_deref [OF l cn]
      by (simp add: sv_findThreadStreamInfo_def ll_cend_def)
  qed
qed

section \<open>Sending to all peers\<close>

fun deliver_all :: "('i \<Rightarrow> 'w \<Rightarrow> 'w option) \<Rightarrow> 'i list \<Rightarrow> 'w \<Rightarrow> 'w option" where
  "deliver_all deliver [] w = Some w"
| "deliver_all deliver (i # is) w = Option.bind (deliver i w) (deliver_all deliver is)"

lemma sv_sendToAll_loop_run:
  assumes "ll_repr h l (xs @ ys)"
  shows "sv_sendToAll_loop deliver h (first_ptr ys None) w = deliver_all deliver (map (\<lambda>e. conn_info (snd e)) ys) w"
  using assms
proof (induction ys arbitrary: xs w)
  case Nil
  show ?case by (subst sv_sendToAll_loop.simps) (simp add: ll_cend_def)
next
  case (Cons y ys)
  obtain a c where y: "y = (a, c)" by (cases y)
  have d: "it_deref h (Some a) = Some c" using ll_repr_deref [OF Cons.prems, of a c] y by simp
  have n: "it_next h (Some a) = Some (first_ptr ys None)"
    using ll_repr_next [of h l xs a c ys] Cons.prems y by simp
  have "sv_sendToAll_loop deliver h (first_ptr ys None) w1 = deliver_all deliver (map (\<lambda>e. conn_info (snd e)) ys) w1" for w1
    using Cons.IH [of "xs @ [y]"] Cons.prems by simp
  then show ?case using y d n by (subst sv_sendToAll_loop.simps) (simp add: ll_cend_def)
qed

section \<open>Properties\<close>

text \<open>
  C2: a peer's hello adds one connection at the end, with the number of its threads, and sends each
  of these threads to it. If the threads are new, distinct and at least one, every connection still
  counts its threads. Every thread is found with the address of its connection, and only known threads
  are; a message to all peers goes to every connection once, in the order of their hellos.
\<close>

theorem peers_hello:
  assumes "sv_repr s cs m" and "sv_counted cs m"
  shows "(\<exists>a s'. sv_onHelloReceived addr ids s = Some s' \<and> a \<notin> fst ` set cs
           \<and> sv_repr s' (cs @ [(a, \<lparr>conn_info = addr, referenceCount = of_nat (length ids)\<rparr>)])
                (\<lambda>i. if i \<in> set ids then Some a else m i)
           \<and> (distinct ids \<and> ids \<noteq> [] \<and> length ids < 2 ^ 64 \<and> set ids \<inter> dom m = {} \<longrightarrow>
                sv_counted (cs @ [(a, \<lparr>conn_info = addr, referenceCount = of_nat (length ids)\<rparr>)])
                  (\<lambda>i. if i \<in> set ids then Some a else m i)))
       \<and> sv_findThreadStreamInfo i s
           = Some (case m i of None \<Rightarrow> Inl InvalidThreadID | Some a \<Rightarrow> Inr (conn_info (the (map_of cs a))))
       \<and> sv_sendToAll deliver msg s w = deliver_all (deliver msg) (map (\<lambda>e. conn_info (snd e)) cs) w"
proof (intro conjI)
  let ?a = "brk (connHeap s)"
  have l: "ll_repr (connHeap s) (mConnectionsList s) cs" using assms(1) by (simp add: sv_repr_def)
  have a: "?a \<notin> fst ` set cs" using ll_repr_fresh [OF l] .
  from sv_addThreads_run [OF assms(1), of ids addr] sv_addThreads_counted [OF assms(2) a, where ids = ids and addr = addr] a
  show "\<exists>a s'. sv_onHelloReceived addr ids s = Some s' \<and> a \<notin> fst ` set cs
           \<and> sv_repr s' (cs @ [(a, \<lparr>conn_info = addr, referenceCount = of_nat (length ids)\<rparr>)])
                (\<lambda>i. if i \<in> set ids then Some a else m i)
           \<and> (distinct ids \<and> ids \<noteq> [] \<and> length ids < 2 ^ 64 \<and> set ids \<inter> dom m = {} \<longrightarrow>
                sv_counted (cs @ [(a, \<lparr>conn_info = addr, referenceCount = of_nat (length ids)\<rparr>)])
                  (\<lambda>i. if i \<in> set ids then Some a else m i))"
    by (intro exI [of _ ?a]) (auto simp: sv_onHelloReceived_def domIff disjoint_iff)
  show "sv_findThreadStreamInfo i s
      = Some (case m i of None \<Rightarrow> Inl InvalidThreadID | Some a \<Rightarrow> Inr (conn_info (the (map_of cs a))))"
    by (rule sv_find_run [OF assms])
  show "sv_sendToAll deliver msg s w = deliver_all (deliver msg) (map (\<lambda>e. conn_info (snd e)) cs) w"
    using sv_sendToAll_loop_run [of "connHeap s" "mConnectionsList s" "[]" cs] l
    by (simp add: sv_sendToAll_def ll_repr_begin)
qed

text \<open>
  C3: a peer's goodbye for known, distinct threads removes exactly these threads, keeps the order of
  the connections, and drops exactly the connections that have no thread left; the others count the
  threads they have left.
\<close>

theorem peers_goodbye:
  assumes "sv_repr s cs m" and "sv_counted cs m" and "distinct ids" and "set ids \<subseteq> dom m"
  shows "\<exists>s' cs'. sv_onGoodbyeReceived ids s = Some s' \<and> sv_repr s' cs' (m |` (- set ids)) \<and> sv_counted cs' (m |` (- set ids))
           \<and> infos cs' = filter (still_used (m |` (- set ids))) (infos cs)"
  using sv_removeThreads_run [OF assms] by (simp add: sv_onGoodbyeReceived_def)


lemma peers_hello_witness:
  "\<exists>a s'. sv_onHelloReceived (7 :: nat) [1, 2] sv_new = Some s' \<and> sv_repr s' [(a, \<lparr>conn_info = 7, referenceCount = 2\<rparr>)] [1 \<mapsto> a, 2 \<mapsto> a]
     \<and> sv_counted [(a, \<lparr>conn_info = 7 :: nat, referenceCount = 2\<rparr>)] [1 \<mapsto> a, 2 \<mapsto> a]"
proof -
  have "(\<lambda>i. if i \<in> set [1, 2] then Some a else None) = [1 :: 64 word \<mapsto> a, 2 \<mapsto> a]" for a :: nat by (auto simp: fun_eq_iff)
  then show ?thesis
    using peers_hello [where addr = "7 :: nat" and ids = "[1, 2]", OF sv_repr_new sv_counted_new, THEN conjunct1] by auto
qed

lemma sample_peers:
  "\<exists>a s. sv_repr s [(a, \<lparr>conn_info = 7 :: nat, referenceCount = 2\<rparr>)] [1 \<mapsto> a, 2 \<mapsto> a]
     \<and> sv_counted [(a, \<lparr>conn_info = 7 :: nat, referenceCount = 2\<rparr>)] [1 \<mapsto> a, 2 \<mapsto> a]"
proof -
  let ?a = "brk (connHeap (sv_new :: nat other_servers))"
  have m: "(\<lambda>i. if i \<in> set [1, 2] then Some ?a else None) = [1 :: 64 word \<mapsto> ?a, 2 \<mapsto> ?a]" by (auto simp: fun_eq_iff)
  show ?thesis
    using sv_addThreads_run [OF sv_repr_new, of "[1, 2]" "7 :: nat"] m
      sv_addThreads_counted [OF sv_counted_new, where a = ?a and ids = "[1, 2]" and addr = "7 :: nat"] by auto
qed

lemma peers_goodbye_witness:
  "\<exists>(s :: nat other_servers) s' cs' a. sv_onGoodbyeReceived [1] s = Some s' \<and> sv_counted cs' [2 \<mapsto> a]
     \<and> infos cs' = [(a, 7 :: nat)]"
proof -
  obtain a and s :: "nat other_servers" where r: "sv_repr s [(a, \<lparr>conn_info = 7, referenceCount = 2\<rparr>)] [1 \<mapsto> a, 2 \<mapsto> a]"
    and c: "sv_counted [(a, \<lparr>conn_info = 7 :: nat, referenceCount = 2\<rparr>)] [1 \<mapsto> a, 2 \<mapsto> a]" using sample_peers by blast
  have m: "[1 \<mapsto> a, 2 \<mapsto> a] |` (- set [1]) = [2 :: 64 word \<mapsto> a]" by (auto simp: restrict_map_def fun_eq_iff)
  have "threads_of [2 \<mapsto> a] a \<noteq> {}" by (auto simp: threads_of_def)
  moreover obtain s' cs' where "sv_onGoodbyeReceived [1] s = Some s'" "sv_counted cs' [2 \<mapsto> a]"
    "infos cs' = filter (still_used [2 \<mapsto> a]) (infos [(a, \<lparr>conn_info = 7 :: nat, referenceCount = 2\<rparr>)])"
    using peers_goodbye [OF r c, of "[1]", unfolded m] by auto
  ultimately show ?thesis by (intro exI [of _ s] exI [of _ s'] exI [of _ cs'] exI [of _ a]) (simp add: still_used_def)
qed


end
