(* ===== verification/BinaryTrees.thy ===== *)
theory BinaryTrees
  imports ZqPrelude "HOL-Library.Tree"
begin

text \<open>
  Base/RedBlackTree.hpp: the binary tree's nodes and their queries, the iterators, the insertion at a
  place that was found, and the rotations. \<open>findNode\<close> itself mixes pointers and pointers to
  pointers in a way that has no meaning in C++, and the colouring of \<open>RedBlackTree::insert\<close> and
  \<open>erase\<close> build on it or are empty, so these are not modelled: the insertion takes what
  \<open>findNode\<close> is to return as an argument. Names of the source that start with an underscore, the
  versions without the parent check, have \<open>raw\<close> in their name here.
\<close>

section \<open>Nodes\<close>

record ('k, 'v) tree_node =
  nd_key :: 'k
  nd_value :: 'v
  mParent :: ptr
  mRight :: ptr
  mLeft :: ptr

type_synonym ('k, 'v) bt_heap = "('k, 'v) tree_node heap"

definition bt_hasParent :: "('k, 'v) tree_node \<Rightarrow> bool" where
  "bt_hasParent n \<longleftrightarrow> mParent n \<noteq> nullptr"

definition bt_raw_isRight :: "('k, 'v) bt_heap \<Rightarrow> ptr \<Rightarrow> bool option" where
  "bt_raw_isRight h this = do {
     n \<leftarrow> load h this;
     p \<leftarrow> load h (mParent n);
     Some (mRight p = this)
   }"

definition bt_raw_isLeft :: "('k, 'v) bt_heap \<Rightarrow> ptr \<Rightarrow> bool option" where
  "bt_raw_isLeft h this = do {
     n \<leftarrow> load h this;
     p \<leftarrow> load h (mParent n);
     Some (mRight p = this)
   }"

definition bt_isRight :: "('k, 'v) bt_heap \<Rightarrow> ptr \<Rightarrow> bool option" where
  "bt_isRight h this = do {
     n \<leftarrow> load h this;
     (if \<not> bt_hasParent n then Some False else bt_raw_isRight h this)
   }"

definition bt_isLeft :: "('k, 'v) bt_heap \<Rightarrow> ptr \<Rightarrow> bool option" where
  "bt_isLeft h this = do {
     n \<leftarrow> load h this;
     (if \<not> bt_hasParent n then Some False else bt_raw_isLeft h this)
   }"

definition bt_raw_getBrother :: "('k, 'v) bt_heap \<Rightarrow> ptr \<Rightarrow> ptr option" where
  "bt_raw_getBrother h this = do {
     n \<leftarrow> load h this;
     p \<leftarrow> load h (mParent n);
     Some (if mLeft p = this then mRight p else mLeft p)
   }"

definition bt_raw_getRightBrother :: "('k, 'v) bt_heap \<Rightarrow> ptr \<Rightarrow> ptr option" where
  "bt_raw_getRightBrother h this = do {
     n \<leftarrow> load h this;
     p \<leftarrow> load h (mParent n);
     Some (mRight p)
   }"

definition bt_raw_getLeftBrother :: "('k, 'v) bt_heap \<Rightarrow> ptr \<Rightarrow> ptr option" where
  "bt_raw_getLeftBrother h this = do {
     n \<leftarrow> load h this;
     p \<leftarrow> load h (mParent n);
     Some (mRight p)
   }"

text \<open>The versions with the parent check answer null without a parent.\<close>

definition bt_checked :: "(('k, 'v) bt_heap \<Rightarrow> ptr \<Rightarrow> ptr option) \<Rightarrow> ('k, 'v) bt_heap \<Rightarrow> ptr \<Rightarrow> ptr option" where
  "bt_checked raw h this = do {
     n \<leftarrow> load h this;
     (if \<not> bt_hasParent n then Some nullptr else raw h this)
   }"

definition bt_getBrother :: "('k, 'v) bt_heap \<Rightarrow> ptr \<Rightarrow> ptr option" where
  "bt_getBrother = bt_checked bt_raw_getBrother"

definition bt_getRightBrother :: "('k, 'v) bt_heap \<Rightarrow> ptr \<Rightarrow> ptr option" where
  "bt_getRightBrother = bt_checked bt_raw_getRightBrother"

definition bt_getLeftBrother :: "('k, 'v) bt_heap \<Rightarrow> ptr \<Rightarrow> ptr option" where
  "bt_getLeftBrother = bt_checked bt_raw_getLeftBrother"

definition bt_raw_getUncle :: "('k, 'v) bt_heap \<Rightarrow> ptr \<Rightarrow> ptr option" where
  "bt_raw_getUncle h this = do {
     n \<leftarrow> load h this;
     bt_getBrother h (mParent n)
   }"

definition bt_getUncle :: "('k, 'v) bt_heap \<Rightarrow> ptr \<Rightarrow> ptr option" where
  "bt_getUncle = bt_checked bt_raw_getUncle"

definition bt_raw_getGrandparent :: "('k, 'v) bt_heap \<Rightarrow> ptr \<Rightarrow> ptr option" where
  "bt_raw_getGrandparent h this = do {
     n \<leftarrow> load h this;
     p \<leftarrow> load h (mParent n);
     Some (mParent p)
   }"

definition bt_getGrandparent :: "('k, 'v) bt_heap \<Rightarrow> ptr \<Rightarrow> ptr option" where
  "bt_getGrandparent = bt_checked bt_raw_getGrandparent"

partial_function (option) bt_leftest_loop :: "('k, 'v) bt_heap \<Rightarrow> ptr \<Rightarrow> ptr option" where
  "bt_leftest_loop h node = do {
     n \<leftarrow> load h node;
     (if mLeft n \<noteq> nullptr then bt_leftest_loop h (mLeft n) else Some node)
   }"

definition bt_getLeftestNode :: "('k, 'v) bt_heap \<Rightarrow> ptr \<Rightarrow> ptr option" where
  "bt_getLeftestNode h this = do {
     n \<leftarrow> load h this;
     (if mLeft n = nullptr then Some this else bt_leftest_loop h (mLeft n))
   }"

partial_function (option) bt_rightest_loop :: "('k, 'v) bt_heap \<Rightarrow> ptr \<Rightarrow> ptr option" where
  "bt_rightest_loop h node = do {
     n \<leftarrow> load h node;
     (if mRight n \<noteq> nullptr then bt_rightest_loop h (mRight n) else Some node)
   }"

definition bt_getRightestNode :: "('k, 'v) bt_heap \<Rightarrow> ptr \<Rightarrow> ptr option" where
  "bt_getRightestNode h this = do {
     n \<leftarrow> load h this;
     (if mRight n = nullptr then Some this else bt_rightest_loop h (mRight n))
   }"

section \<open>Iterators\<close>

definition bt_next :: "('k, 'v) bt_heap \<Rightarrow> ptr \<Rightarrow> ptr option" where
  "bt_next h it = do {
     n \<leftarrow> load h it;
     (if \<not> bt_hasParent n then Some (mRight n)
      else do {
        left \<leftarrow> bt_raw_isLeft h it;
        (if left then do {
           rightBrother \<leftarrow> bt_raw_getRightBrother h it;
           (if rightBrother \<noteq> nullptr then bt_getLeftestNode h rightBrother else Some (mParent n))
         }
         else Some (mParent n))
      })
   }"

definition bt_previous :: "('k, 'v) bt_heap \<Rightarrow> ptr \<Rightarrow> ptr option" where
  "bt_previous h it = do {
     n \<leftarrow> load h it;
     (if \<not> bt_hasParent n then Some (mLeft n)
      else do {
        right \<leftarrow> bt_raw_isRight h it;
        (if right then do {
           leftBrother \<leftarrow> bt_raw_getLeftBrother h it;
           (if leftBrother \<noteq> nullptr then bt_getRightestNode h leftBrother else Some (mParent n))
         }
         else Some (mParent n))
      })
   }"

section \<open>The tree and its insertion\<close>

record binary_tree =
  mHead :: ptr
  mLeftest :: ptr
  mRightest :: ptr
  bt_mSize :: size_t

text \<open>\<open>pResultAtParent\<close> points to a pointer: the head, or a child pointer of a node.\<close>

datatype link = AtHead | AtRight nat | AtLeft nat

record find_node_result =
  resultParent :: ptr
  pResultAtParent :: link

fun link_read :: "link \<Rightarrow> ('k, 'v) bt_heap \<Rightarrow> binary_tree \<Rightarrow> ptr option" where
  "link_read AtHead h t = Some (mHead t)"
| "link_read (AtRight a) h t = map_option mRight (cells h a)"
| "link_read (AtLeft a) h t = map_option mLeft (cells h a)"

fun link_write :: "link \<Rightarrow> ptr \<Rightarrow> ('k, 'v) bt_heap \<Rightarrow> binary_tree \<Rightarrow> (('k, 'v) bt_heap \<times> binary_tree) option" where
  "link_write AtHead p h t = Some (h, t\<lparr>mHead := p\<rparr>)"
| "link_write (AtRight a) p h t = map_option (\<lambda>h1. (h1, t)) (modify h (Some a) (\<lambda>n. n\<lparr>mRight := p\<rparr>))"
| "link_write (AtLeft a) p h t = map_option (\<lambda>h1. (h1, t)) (modify h (Some a) (\<lambda>n. n\<lparr>mLeft := p\<rparr>))"

definition bt_insert ::
  "find_node_result \<Rightarrow> 'k \<Rightarrow> 'v \<Rightarrow> ('k, 'v) bt_heap \<Rightarrow> binary_tree
     \<Rightarrow> ((ptr \<times> bool) \<times> ('k, 'v) bt_heap \<times> binary_tree) option" where
  "bt_insert result key v h t =
     (if resultParent result = nullptr then
        (let (a, h1) = new h \<lparr>nd_key = key, nd_value = v, mParent = nullptr, mRight = nullptr, mLeft = nullptr\<rparr>
         in Some ((Some a, True), h1, t\<lparr>mHead := Some a, mLeftest := Some a, mRightest := Some a\<rparr>))
      else do {
        cur \<leftarrow> link_read (pResultAtParent result) h t;
        (if cur \<noteq> nullptr then Some ((cur, False), h, t)
         else do {
           let (a, h1) = new h \<lparr>nd_key = key, nd_value = v, mParent = resultParent result, mRight = nullptr, mLeft = nullptr\<rparr>;
           (h2, t1) \<leftarrow> link_write (pResultAtParent result) (Some a) h1 t;
           left \<leftarrow> bt_raw_isLeft h2 (Some a);
           let t2 = (if left then
                       (if mLeftest t1 = resultParent result then t1\<lparr>mLeftest := Some a\<rparr> else t1)
                     else (if mRightest t1 = resultParent result then t1\<lparr>mRightest := Some a\<rparr> else t1));
           Some ((Some a, True), h2, t2)
         })
      })"

section \<open>Rotations\<close>

definition bt_rotateLeft :: "ptr \<Rightarrow> ptr \<Rightarrow> ('k, 'v) bt_heap \<Rightarrow> ('k, 'v) bt_heap option" where
  "bt_rotateLeft node grandparent h = do {
     nd \<leftarrow> load h node;
     h1 \<leftarrow> modify h grandparent (\<lambda>g. g\<lparr>mRight := mLeft nd\<rparr>);
     g1 \<leftarrow> load h1 grandparent;
     h2 \<leftarrow> (if mLeft g1 \<noteq> nullptr then modify h1 (mRight g1) (\<lambda>n. n\<lparr>mParent := grandparent\<rparr>) else Some h1);
     h3 \<leftarrow> modify h2 node (\<lambda>n. n\<lparr>mLeft := grandparent\<rparr>);
     left \<leftarrow> bt_isLeft h3 grandparent;
     g3 \<leftarrow> load h3 grandparent;
     h4 \<leftarrow> (if left then modify h3 (mParent g3) (\<lambda>n. n\<lparr>mLeft := node\<rparr>)
            else modify h3 (mParent g3) (\<lambda>n. n\<lparr>mRight := node\<rparr>));
     modify h4 grandparent (\<lambda>g. g\<lparr>mParent := node\<rparr>)
   }"

definition bt_rotateRight :: "ptr \<Rightarrow> ptr \<Rightarrow> ('k, 'v) bt_heap \<Rightarrow> ('k, 'v) bt_heap option" where
  "bt_rotateRight node grandparent h = do {
     nd \<leftarrow> load h node;
     h1 \<leftarrow> modify h grandparent (\<lambda>g. g\<lparr>mLeft := mRight nd\<rparr>);
     g1 \<leftarrow> load h1 grandparent;
     h2 \<leftarrow> (if mRight g1 \<noteq> nullptr then modify h1 (mRight g1) (\<lambda>n. n\<lparr>mParent := grandparent\<rparr>) else Some h1);
     h3 \<leftarrow> modify h2 node (\<lambda>n. n\<lparr>mRight := grandparent\<rparr>);
     left \<leftarrow> bt_isLeft h3 grandparent;
     g3 \<leftarrow> load h3 grandparent;
     h4 \<leftarrow> (if left then modify h3 (mParent g3) (\<lambda>n. n\<lparr>mLeft := node\<rparr>)
            else modify h3 (mParent g3) (\<lambda>n. n\<lparr>mRight := node\<rparr>));
     modify h4 grandparent (\<lambda>g. g\<lparr>mParent := node\<rparr>)
   }"

section \<open>Trees in the heap\<close>

text \<open>\<open>tree_at h par p t\<close>: the nodes under \<open>p\<close>, whose parent is \<open>par\<close>, are those of \<open>t\<close>.\<close>

fun tree_at :: "('k, 'v) bt_heap \<Rightarrow> ptr \<Rightarrow> ptr \<Rightarrow> (nat \<times> 'k) tree \<Rightarrow> bool" where
  "tree_at h par p Leaf \<longleftrightarrow> p = nullptr"
| "tree_at h par p (Node l (a, k) r) \<longleftrightarrow> p = Some a
     \<and> (\<exists>n. cells h a = Some n \<and> nd_key n = k \<and> mParent n = par
          \<and> tree_at h (Some a) (mLeft n) l \<and> tree_at h (Some a) (mRight n) r)"

abbreviation nodes_of :: "(nat \<times> 'k) tree \<Rightarrow> nat set" where
  "nodes_of t \<equiv> fst ` set_tree t"

lemma tree_at_null: "tree_at h par None t \<longleftrightarrow> t = Leaf"
  by (cases t) auto

lemma leftest_loop_run:
  "tree_at h par (Some a) t \<Longrightarrow> bt_leftest_loop h (Some a) = Some (Some (fst (hd (inorder t))))"
proof (induction t arbitrary: par a)
  case (Node l x r)
  obtain b k where x: "x = (b, k)" by (cases x)
  obtain n where n: "b = a" "cells h a = Some n" "tree_at h (Some a) (mLeft n) l" using Node.prems x by auto
  show ?case
  proof (cases "mLeft n")
    case None
    then show ?thesis using n x by (subst bt_leftest_loop.simps) (simp add: tree_at_null)
  next
    case (Some c)
    then have "l \<noteq> Leaf" using n(3) by auto
    moreover have "bt_leftest_loop h (Some c) = Some (Some (fst (hd (inorder l))))" using Node.IH(1) n(3) Some by simp
    ultimately show ?thesis using n Some x by (subst bt_leftest_loop.simps) simp
  qed
qed simp

lemma rightest_loop_run:
  "tree_at h par (Some a) t \<Longrightarrow> bt_rightest_loop h (Some a) = Some (Some (fst (last (inorder t))))"
proof (induction t arbitrary: par a)
  case (Node l x r)
  obtain b k where x: "x = (b, k)" by (cases x)
  obtain n where n: "b = a" "cells h a = Some n" "tree_at h (Some a) (mRight n) r" using Node.prems x by auto
  show ?case
  proof (cases "mRight n")
    case None
    then show ?thesis using n x by (subst bt_rightest_loop.simps) (simp add: tree_at_null)
  next
    case (Some c)
    then have "r \<noteq> Leaf" using n(3) by auto
    moreover have "bt_rightest_loop h (Some c) = Some (Some (fst (last (inorder r))))" using Node.IH(2) n(3) Some by simp
    ultimately show ?thesis using n Some x by (subst bt_rightest_loop.simps) simp
  qed
qed simp

lemma getLeftestNode_run:
  assumes "tree_at h par (Some a) t"
  shows "bt_getLeftestNode h (Some a) = Some (Some (fst (hd (inorder t))))"
proof -
  obtain n where n: "cells h a = Some n" using assms by (cases t) auto
  then have "bt_getLeftestNode h (Some a) = bt_leftest_loop h (Some a)"
    by (subst bt_leftest_loop.simps) (cases "mLeft n"; simp add: bt_getLeftestNode_def)
  then show ?thesis using leftest_loop_run [OF assms] by simp
qed

lemma getRightestNode_run:
  assumes "tree_at h par (Some a) t"
  shows "bt_getRightestNode h (Some a) = Some (Some (fst (last (inorder t))))"
proof -
  obtain n where n: "cells h a = Some n" using assms by (cases t) auto
  then have "bt_getRightestNode h (Some a) = bt_rightest_loop h (Some a)"
    by (subst bt_rightest_loop.simps) (cases "mRight n"; simp add: bt_getRightestNode_def)
  then show ?thesis using rightest_loop_run [OF assms] by simp
qed

lemma hd_inorder_in: "t \<noteq> Leaf \<Longrightarrow> fst (hd (inorder t)) \<in> nodes_of t"
  by (metis eq_inorder_Nil hd_in_set imageI set_inorder)

text \<open>Every node of a tree is the root of a subtree, and its parent is in the tree or above its root.\<close>

definition node_in :: "('k, 'v) bt_heap \<Rightarrow> ptr \<Rightarrow> ptr \<Rightarrow> nat \<Rightarrow> nat set \<Rightarrow> bool" where
  "node_in h par p a A \<longleftrightarrow> (\<exists>n t'. cells h a = Some n \<and> tree_at h (mParent n) (Some a) t' \<and> nodes_of t' \<subseteq> A
     \<and> (p = Some a \<and> mParent n = par \<or> (\<exists>c \<in> A. mParent n = Some c)))"

lemma node_in_lift: "node_in h (Some b) q a A \<Longrightarrow> A \<subseteq> B \<Longrightarrow> b \<in> B \<Longrightarrow> node_in h par p a B"
  unfolding node_in_def by blast

lemma tree_node:
  assumes "tree_at h par p t" and "a \<in> nodes_of t"
  shows "node_in h par p a (nodes_of t)"
  using assms
proof (induction t arbitrary: par p)
  case (Node l x r)
  obtain b k where x: "x = (b, k)" by (cases x)
  obtain m where m: "p = Some b" "cells h b = Some m" "mParent m = par"
    "tree_at h (Some b) (mLeft m) l" "tree_at h (Some b) (mRight m) r" using Node.prems(1) x by auto
  have sub: "nodes_of l \<subseteq> nodes_of (Node l x r)" "nodes_of r \<subseteq> nodes_of (Node l x r)" "b \<in> nodes_of (Node l x r)"
    using x by auto
  consider "a = b" | "a \<in> nodes_of l" | "a \<in> nodes_of r" using Node.prems(2) x by auto
  then show ?case
  proof cases
    case 1
    then show ?thesis using m Node.prems(1) unfolding node_in_def
      by (intro exI [of _ m] exI [of _ "Node l x r"]) simp
  next
    case 2
    from node_in_lift [OF Node.IH(1) [OF m(4) this] sub(1,3)] show ?thesis .
  next
    case 3
    from node_in_lift [OF Node.IH(2) [OF m(5) this] sub(2,3)] show ?thesis .
  qed
qed simp

text \<open>Advancing an iterator \<open>n\<close> times.\<close>

fun bt_advance :: "nat \<Rightarrow> ('k, 'v) bt_heap \<Rightarrow> ptr \<Rightarrow> ptr option" where
  "bt_advance 0 h it = Some it"
| "bt_advance (Suc n) h it = Option.bind (bt_next h it) (bt_advance n h)"

lemma bt_next_right_subtree:
  assumes b: "cells h b = Some m" and r: "tree_at h (Some b) (mRight m) r" and a: "a \<in> nodes_of r"
  shows "\<exists>c \<in> nodes_of r. bt_next h (Some a) = Some (Some c)"
proof -
  obtain n t' where n: "cells h a = Some n" and t': "tree_at h (mParent n) (Some a) t'" "nodes_of t' \<subseteq> nodes_of r"
    and par: "mRight m = Some a \<and> mParent n = Some b \<or> (\<exists>c \<in> nodes_of r. mParent n = Some c)"
    using tree_node [OF r a] unfolding node_in_def by blast
  have "\<exists>c q. mParent n = Some c \<and> cells h c = Some q \<and> (mRight q = Some a \<or> c \<in> nodes_of r)"
    using par
  proof
    assume "mRight m = Some a \<and> mParent n = Some b"
    then show ?thesis using b by blast
  next
    assume "\<exists>c \<in> nodes_of r. mParent n = Some c"
    then show ?thesis using tree_node [OF r] unfolding node_in_def by blast
  qed
  then obtain c q where c: "mParent n = Some c" "cells h c = Some q" and or: "mRight q = Some a \<or> c \<in> nodes_of r" by blast
  have "t' \<noteq> Leaf" using t'(1) by auto
  then have lm: "fst (hd (inorder t')) \<in> nodes_of r" using hd_inorder_in [of t'] t'(2) by blast
  show ?thesis
  proof (cases "mRight q = Some a")
    case True
    then have "bt_next h (Some a) = Some (Some (fst (hd (inorder t'))))"
      using n c getLeftestNode_run [OF t'(1)]
      by (simp add: bt_next_def bt_hasParent_def bt_raw_isLeft_def bt_raw_getRightBrother_def)
    then show ?thesis using lm by blast
  next
    case False
    then have "bt_next h (Some a) = Some (Some c)"
      using n c by (simp add: bt_next_def bt_hasParent_def bt_raw_isLeft_def)
    then show ?thesis using or False by blast
  qed
qed

lemma bt_advance_right_subtree:
  assumes b: "cells h b = Some m" and r: "tree_at h (Some b) (mRight m) r" and a: "a \<in> nodes_of r"
  shows "\<exists>c \<in> nodes_of r. bt_advance n h (Some a) = Some (Some c)"
  using a
proof (induction n arbitrary: a)
  case (Suc n)
  obtain c where "c \<in> nodes_of r" "bt_next h (Some a) = Some (Some c)" using bt_next_right_subtree [OF b r Suc.prems] by blast
  then show ?case using Suc.IH by simp
qed simp

section \<open>Properties\<close>

text \<open>A heap with a root, its two children, and a node above the root's place for the rotations.\<close>

definition sample_tree :: "(nat, nat) bt_heap" where
  "sample_tree = \<lparr>cells = [0 \<mapsto> \<lparr>nd_key = 5, nd_value = 50, mParent = None, mRight = Some 2, mLeft = Some 1\<rparr>,
                           1 \<mapsto> \<lparr>nd_key = 3, nd_value = 30, mParent = Some 0, mRight = None, mLeft = None\<rparr>,
                           2 \<mapsto> \<lparr>nd_key = 8, nd_value = 80, mParent = Some 0, mRight = None, mLeft = None\<rparr>],
                  brk = 3\<rparr>"

text \<open>
  \<open>getLeftestNode\<close> and \<open>getRightestNode\<close> give the first and the last node of the subtree in key
  order. Iteration from the smallest to the largest element does not work: \<open>_isLeft\<close> answers for the
  right child, so an iterator that \<open>++\<close> takes from the root into a right subtree stays in that subtree
  for ever: however often it is advanced, it does not reach \<open>end ()\<close>.
\<close>

theorem tree_iteration:
  assumes "tree_at h None (Some b) (Node l (b, k) r)"
  shows "bt_getLeftestNode h (Some b) = Some (Some (fst (hd (inorder (Node l (b, k) r)))))
       \<and> bt_getRightestNode h (Some b) = Some (Some (fst (last (inorder (Node l (b, k) r)))))
       \<and> (if r = Leaf then bt_next h (Some b) = Some None
          else \<forall>n. \<exists>c \<in> nodes_of r. bt_advance (Suc n) h (Some b) = Some (Some c))"
proof (intro conjI)
  show "bt_getLeftestNode h (Some b) = Some (Some (fst (hd (inorder (Node l (b, k) r)))))"
    by (rule getLeftestNode_run [OF assms])
  show "bt_getRightestNode h (Some b) = Some (Some (fst (last (inorder (Node l (b, k) r)))))"
    by (rule getRightestNode_run [OF assms])
  obtain m where m: "cells h b = Some m" "mParent m = None" "tree_at h (Some b) (mRight m) r" using assms by auto
  have nx: "bt_next h (Some b) = Some (mRight m)" using m by (simp add: bt_next_def bt_hasParent_def)
  show "if r = Leaf then bt_next h (Some b) = Some None
        else \<forall>n. \<exists>c \<in> nodes_of r. bt_advance (Suc n) h (Some b) = Some (Some c)"
  proof (cases r)
    case Leaf
    then show ?thesis using nx m(3) by simp
  next
    case (Node rl x rr)
    then obtain c where c: "mRight m = Some c" "c \<in> nodes_of r" using m(3) by (cases x) auto
    show ?thesis using bt_advance_right_subtree [OF m(1,3) c(2)] nx c(1) Node by simp
  qed
qed

lemma tree_iteration_witness:
  "bt_getLeftestNode sample_tree (Some 0) = Some (Some 1)
     \<and> bt_advance (Suc 6) sample_tree (Some 0) = Some (Some 2)"
proof -
  have t: "tree_at sample_tree None (Some 0) (Node (Node Leaf (1, 3) Leaf) (0, 5) (Node Leaf (2, 8) Leaf))"
    by (simp add: sample_tree_def)
  from tree_iteration [OF t] have "bt_getLeftestNode sample_tree (Some 0) = Some (Some 1)"
    "\<forall>n. bt_advance (Suc n) sample_tree (Some 0) = Some (Some 2)" by (simp_all del: bt_advance.simps)
  then show ?thesis by blast
qed

text \<open>
  The insertion of a new leaf below \<open>p\<close> links the new node in the place it was given, but the
  bookkeeping is wrong: the size is never counted, and the ends are updated on the wrong side, so a node
  inserted to the right of the smallest one becomes the tree's smallest, and one to its left does not.
  When \<open>findNode\<close> reports no parent, as it does for the key of the head itself, the new node replaces
  the whole tree.
\<close>

theorem tree_insert:
  assumes "heap_ok h" and "cells h p = Some n"
  shows "(mRight n = None \<longrightarrow> (\<exists>h' t'. bt_insert \<lparr>resultParent = Some p, pResultAtParent = AtRight p\<rparr> k v h t
              = Some ((Some (brk h), True), h', t')
            \<and> cells h' p = Some (n\<lparr>mRight := Some (brk h)\<rparr>) \<and> map_option mParent (cells h' (brk h)) = Some (Some p)
            \<and> bt_mSize t' = bt_mSize t \<and> mRightest t' = mRightest t
            \<and> mLeftest t' = (if mLeftest t = Some p then Some (brk h) else mLeftest t)))
       \<and> (mLeft n = None \<longrightarrow> mRight n \<noteq> Some (brk h) \<longrightarrow>
            (\<exists>h' t'. bt_insert \<lparr>resultParent = Some p, pResultAtParent = AtLeft p\<rparr> k v h t
              = Some ((Some (brk h), True), h', t')
            \<and> cells h' p = Some (n\<lparr>mLeft := Some (brk h)\<rparr>) \<and> map_option mParent (cells h' (brk h)) = Some (Some p)
            \<and> bt_mSize t' = bt_mSize t \<and> mLeftest t' = mLeftest t
            \<and> mRightest t' = (if mRightest t = Some p then Some (brk h) else mRightest t)))
       \<and> (\<exists>h' t'. bt_insert \<lparr>resultParent = None, pResultAtParent = AtHead\<rparr> k v h t = Some ((Some (brk h), True), h', t')
            \<and> tree_at h' None (mHead t') (Node Leaf (brk h, k) Leaf))"
proof -
  have p: "p \<noteq> brk h" using assms heap_ok_brk by fastforce
  show ?thesis using assms p
    by (auto simp: bt_insert_def new_def modify_Some bt_raw_isLeft_def Let_def)
qed

text \<open>
  The rotations. At a grandparent without a parent, the tree's root, both dereference null. At a
  grandparent that is a left child, \<open>rotateLeft\<close> overwrites its parent's right child with the rotated
  node, so the parent's right subtree is lost while its left child stays, and leaves the rotated node
  with its old parent: it and the grandparent are each other's parent.
\<close>

theorem tree_rotations:
  assumes "cells h a = Some n" and "cells h g = Some gn" and "a \<noteq> g"
  shows "(mParent gn = None \<longrightarrow> mLeft n \<noteq> Some g \<longrightarrow> bt_rotateLeft (Some a) (Some g) h = None)
       \<and> (mParent gn = None \<longrightarrow> mRight gn \<noteq> Some g \<longrightarrow> bt_rotateRight (Some a) (Some g) h = None)
       \<and> (\<forall>q qn. mParent gn = Some q \<and> cells h q = Some qn \<and> q \<noteq> a \<and> q \<noteq> g \<and> mLeft qn = Some g
             \<and> mRight qn \<noteq> Some g \<and> mParent n = Some g \<and> mLeft gn = None \<longrightarrow>
            (\<exists>h'. bt_rotateLeft (Some a) (Some g) h = Some h'
               \<and> cells h' q = Some (qn\<lparr>mRight := Some a\<rparr>)
               \<and> cells h' a = Some (n\<lparr>mLeft := Some g\<rparr>)
               \<and> cells h' g = Some (gn\<lparr>mRight := mLeft n, mParent := Some a\<rparr>)))"
proof (intro conjI impI)
  assume root: "mParent gn = None" and "mLeft n \<noteq> Some g"
  then show "bt_rotateLeft (Some a) (Some g) h = None"
    using assms by (cases "mLeft gn"; cases "mLeft n"; cases "mLeft n = Some a"; cases "cells h (the (mLeft n))")
      (auto simp: bt_rotateLeft_def modify_Some bt_isLeft_def bt_hasParent_def)
next
  assume root: "mParent gn = None" and "mRight gn \<noteq> Some g"
  then show "bt_rotateRight (Some a) (Some g) h = None"
    using assms by (cases "mRight gn"; cases "mRight gn = Some a"; cases "cells h (the (mRight gn))")
      (auto simp: bt_rotateRight_def modify_Some bt_isLeft_def bt_hasParent_def)
next
  show "\<forall>q qn. mParent gn = Some q \<and> cells h q = Some qn \<and> q \<noteq> a \<and> q \<noteq> g \<and> mLeft qn = Some g
             \<and> mRight qn \<noteq> Some g \<and> mParent n = Some g \<and> mLeft gn = None \<longrightarrow>
            (\<exists>h'. bt_rotateLeft (Some a) (Some g) h = Some h'
               \<and> cells h' q = Some (qn\<lparr>mRight := Some a\<rparr>)
               \<and> cells h' a = Some (n\<lparr>mLeft := Some g\<rparr>)
               \<and> cells h' g = Some (gn\<lparr>mRight := mLeft n, mParent := Some a\<rparr>))"
    using assms
    by (auto simp: bt_rotateLeft_def modify_Some bt_isLeft_def bt_hasParent_def bt_raw_isLeft_def)
qed

lemma tree_insert_witness:
  "\<exists>h' t'. bt_insert \<lparr>resultParent = Some 1, pResultAtParent = AtRight 1\<rparr> 4 40 sample_tree
       \<lparr>mHead = Some 0, mLeftest = Some 1, mRightest = Some 2, bt_mSize = 0\<rparr> = Some ((Some 3, True), h', t')
     \<and> mLeftest t' = Some 3 \<and> bt_mSize t' = 0"
proof -
  have "heap_ok sample_tree" "cells sample_tree 1 = Some \<lparr>nd_key = 3, nd_value = 30, mParent = Some 0, mRight = None, mLeft = None\<rparr>"
    "brk sample_tree = 3"
    by (auto simp: sample_tree_def heap_ok_def)
  from tree_insert [OF this(1,2), THEN conjunct1] this(3) show ?thesis by fastforce
qed

lemma tree_rotations_witness: "bt_rotateLeft (Some 2) (Some 0) sample_tree = None"
proof -
  have "cells sample_tree 2 = Some \<lparr>nd_key = 8, nd_value = 80, mParent = Some 0, mRight = None, mLeft = None\<rparr>"
    "cells sample_tree 0 = Some \<lparr>nd_key = 5, nd_value = 50, mParent = None, mRight = Some 2, mLeft = Some 1\<rparr>"
    by (auto simp: sample_tree_def)
  from tree_rotations [OF this, THEN conjunct1] show ?thesis by simp
qed

end
