(* ===== verification/Pointers.thy ===== *)
theory Pointers
  imports ZqPrelude
begin

text \<open>
  Base/UniquePointer.hpp and Base/SharedPointer.hpp: owning pointers. The objects live in one heap and
  the reference blocks of the shared pointers in another; a deleter is the default one, which deletes
  the object. \<open>SharedPointerBase::reset\<close> binds a temporary to a reference and \<open>WeakPointer\<close> uses
  an operator its container does not have, so neither can be instantiated and neither is modelled.
  The assignments of a unique pointer here are those from its own type (\<open>PointerObjects\<close> has the others).
\<close>

section \<open>UniquePointer\<close>

text \<open>The state of a unique pointer is its \<open>mPointer\<close>.\<close>

definition up_null :: ptr where
  "up_null = nullptr"

definition up_reset :: "ptr \<Rightarrow> 'a heap \<Rightarrow> ptr \<Rightarrow> ('a heap \<times> ptr) option" where
  "up_reset pointer h u = do {
     h1 \<leftarrow> (if u \<noteq> nullptr then free h u else Some h);
     Some (h1, pointer)
   }"

definition up_destroy :: "'a heap \<Rightarrow> ptr \<Rightarrow> ('a heap \<times> ptr) option" where
  "up_destroy h u = up_reset nullptr h u"

definition up_release :: "ptr \<Rightarrow> ptr \<times> ptr" where
  "up_release u = (u, nullptr)"

text \<open>The new pointer and the source.\<close>

definition up_move_construct :: "ptr \<Rightarrow> ptr \<times> ptr" where
  "up_move_construct other = (other, nullptr)"

definition up_move_assign :: "'a heap \<Rightarrow> ptr \<Rightarrow> ptr \<Rightarrow> ('a heap \<times> ptr \<times> ptr) option" where
  "up_move_assign h u other = map_option (\<lambda>(h1, u1). (h1, u1, nullptr)) (up_reset other h u)"

text \<open>The same assignment when both sides are one object: the last write wins.\<close>

definition up_move_assign_self :: "'a heap \<Rightarrow> ptr \<Rightarrow> ('a heap \<times> ptr) option" where
  "up_move_assign_self h u = map_option (\<lambda>(h1, _). (h1, nullptr)) (up_reset u h u)"

definition up_bool :: "ptr \<Rightarrow> bool" where
  "up_bool u \<longleftrightarrow> u \<noteq> nullptr"

definition up_deref :: "'a heap \<Rightarrow> ptr \<Rightarrow> 'a option" where
  "up_deref h u = load h u"

definition makeUnique :: "'a \<Rightarrow> 'a heap \<Rightarrow> 'a heap \<times> ptr" where
  "makeUnique v h = (let (a, h1) = new h v in (h1, Some a))"

section \<open>SharedPointer\<close>

record ref_block =
  mReferenceCount :: size_t
  mWeakCount :: size_t

record shared_pointer =
  sp_mPointer :: ptr
  sp_mReference :: ptr

text \<open>The objects and the reference blocks.\<close>

record 'a sp_heap =
  objects :: "'a heap"
  blocks :: "ref_block heap"

definition sp_null :: shared_pointer where
  "sp_null = \<lparr>sp_mPointer = nullptr, sp_mReference = nullptr\<rparr>"

definition sp_of :: "ptr \<Rightarrow> shared_pointer" where
  "sp_of pointer = \<lparr>sp_mPointer = pointer, sp_mReference = nullptr\<rparr>"

definition sp_increaseCount :: "'a sp_heap \<Rightarrow> shared_pointer \<Rightarrow> ('a sp_heap \<times> shared_pointer) option" where
  "sp_increaseCount h s =
     (if sp_mPointer s = nullptr then Some (h, s)
      else if sp_mReference s = nullptr then
        (let (b, bs) = new (blocks h) \<lparr>mReferenceCount = 1, mWeakCount = 0\<rparr>
         in Some (h\<lparr>blocks := bs\<rparr>, s\<lparr>sp_mReference := Some b\<rparr>))
      else do {
        bs \<leftarrow> modify (blocks h) (sp_mReference s) (\<lambda>r. r\<lparr>mReferenceCount := mReferenceCount r + 1\<rparr>);
        Some (h\<lparr>blocks := bs\<rparr>, s)
      })"

text \<open>\<open>mReference->mDeleter (mPointer)\<close>: the deleter is a member of the reference block.\<close>

definition sp_deleteObject :: "'a sp_heap \<Rightarrow> shared_pointer \<Rightarrow> 'a sp_heap option" where
  "sp_deleteObject h s = do {
     _ \<leftarrow> load (blocks h) (sp_mReference s);
     os \<leftarrow> free (objects h) (sp_mPointer s);
     Some (h\<lparr>objects := os\<rparr>)
   }"

definition sp_deleteReference :: "'a sp_heap \<Rightarrow> shared_pointer \<Rightarrow> 'a sp_heap option" where
  "sp_deleteReference h s =
     (if sp_mReference s \<noteq> nullptr then map_option (\<lambda>bs. h\<lparr>blocks := bs\<rparr>) (free (blocks h) (sp_mReference s))
      else Some h)"

definition sp_decreaseCount :: "bool \<Rightarrow> 'a sp_heap \<Rightarrow> shared_pointer \<Rightarrow> ('a sp_heap \<times> shared_pointer) option" where
  "sp_decreaseCount shouldDeleteReference h s =
     (if sp_mPointer s = nullptr then Some (h, s)
      else do {
        h1 \<leftarrow> (if sp_mReference s = nullptr then sp_deleteObject h s
               else do {
                 r \<leftarrow> load (blocks h) (sp_mReference s);
                 (if mReferenceCount r = 0 then do {
                    h1 \<leftarrow> sp_deleteObject h s;
                    (if shouldDeleteReference then sp_deleteReference h1 s else Some h1)
                  }
                  else Some h)
               });
        Some (h1, sp_null)
      })"

definition sp_decreaseCountAndDeleteReference :: "'a sp_heap \<Rightarrow> shared_pointer \<Rightarrow> ('a sp_heap \<times> shared_pointer) option" where
  "sp_decreaseCountAndDeleteReference h s = sp_decreaseCount False h s"

definition sp_destroy :: "'a sp_heap \<Rightarrow> shared_pointer \<Rightarrow> 'a sp_heap option" where
  "sp_destroy h s = map_option fst (sp_decreaseCountAndDeleteReference h s)"

definition sp_copy_construct :: "'a sp_heap \<Rightarrow> shared_pointer \<Rightarrow> ('a sp_heap \<times> shared_pointer) option" where
  "sp_copy_construct h other =
     sp_increaseCount h \<lparr>sp_mPointer = sp_mPointer other, sp_mReference = sp_mReference other\<rparr>"

definition sp_move_construct :: "shared_pointer \<Rightarrow> shared_pointer \<times> shared_pointer" where
  "sp_move_construct other = (other, sp_null)"

text \<open>The assignments of the template, from a shared pointer of another type, and of the own type.\<close>

definition sp_move_assign_other ::
  "'a sp_heap \<Rightarrow> shared_pointer \<Rightarrow> shared_pointer \<Rightarrow> ('a sp_heap \<times> shared_pointer \<times> shared_pointer) option" where
  "sp_move_assign_other h s other = do {
     (h1, s1) \<leftarrow> sp_decreaseCountAndDeleteReference h s;
     Some (h1, s1\<lparr>sp_mPointer := sp_mPointer other, sp_mReference := sp_mReference other\<rparr>, sp_null)
   }"

definition sp_copy_assign_other ::
  "'a sp_heap \<Rightarrow> shared_pointer \<Rightarrow> shared_pointer \<Rightarrow> ('a sp_heap \<times> shared_pointer) option" where
  "sp_copy_assign_other h s other = do {
     (h1, s1) \<leftarrow> sp_decreaseCountAndDeleteReference h s;
     sp_increaseCount h1 (s1\<lparr>sp_mPointer := sp_mPointer other, sp_mReference := sp_mReference other\<rparr>)
   }"

definition sp_swap :: "shared_pointer \<Rightarrow> shared_pointer \<Rightarrow> shared_pointer \<times> shared_pointer" where
  "sp_swap s other =
     (s\<lparr>sp_mReference := sp_mReference other\<rparr>, other\<lparr>sp_mReference := sp_mReference s\<rparr>)"

definition sp_move_assign :: "shared_pointer \<Rightarrow> shared_pointer \<Rightarrow> shared_pointer \<times> shared_pointer" where
  "sp_move_assign s other = sp_swap s other"

definition sp_copy_assign :: "shared_pointer \<Rightarrow> shared_pointer \<Rightarrow> shared_pointer" where
  "sp_copy_assign s other = s\<lparr>sp_mReference := sp_mReference other\<rparr>"

definition sp_setPointer :: "ptr \<Rightarrow> 'a sp_heap \<Rightarrow> shared_pointer \<Rightarrow> ('a sp_heap \<times> shared_pointer) option" where
  "sp_setPointer pointer h s = do {
     (h1, s1) \<leftarrow> sp_decreaseCount False h s;
     Some (h1, s1\<lparr>sp_mPointer := pointer\<rparr>)
   }"

definition sp_getReferenceCount :: "'a sp_heap \<Rightarrow> shared_pointer \<Rightarrow> size_t option" where
  "sp_getReferenceCount h s =
     (if sp_mPointer s = nullptr then Some 0
      else if sp_mReference s = nullptr then Some 1
      else map_option (\<lambda>r. mReferenceCount r + 1) (load (blocks h) (sp_mReference s)))"

definition sp_bool :: "shared_pointer \<Rightarrow> bool" where
  "sp_bool s \<longleftrightarrow> sp_mPointer s \<noteq> nullptr"

definition sp_deref :: "'a sp_heap \<Rightarrow> shared_pointer \<Rightarrow> 'a option" where
  "sp_deref h s = load (objects h) (sp_mPointer s)"

definition makeShared :: "'a \<Rightarrow> 'a sp_heap \<Rightarrow> 'a sp_heap \<times> shared_pointer" where
  "makeShared v h = (let (a, os) = new (objects h) v in (h\<lparr>objects := os\<rparr>, sp_of (Some a)))"

section \<open>The weak container of a reference block\<close>

text \<open>\<open>SharedContainer\<close> counts in the copy that the non-constant \<open>get\<close> returns, which is no lvalue: no instance of it compiles.\<close>

definition wc_construct :: "ptr \<Rightarrow> ref_block heap \<Rightarrow> ref_block heap option" where
  "wc_construct reference h = modify h reference (\<lambda>r. r\<lparr>mWeakCount := mWeakCount r + 1\<rparr>)"

definition wc_destroy :: "ptr \<Rightarrow> ref_block heap \<Rightarrow> ref_block heap option" where
  "wc_destroy reference h = do {
     h1 \<leftarrow> modify h reference (\<lambda>r. r\<lparr>mWeakCount := mWeakCount r - 1\<rparr>);
     r \<leftarrow> load h1 reference;
     (if mWeakCount r = 0 then free h1 reference else Some h1)
   }"

section \<open>Reference blocks\<close>

text \<open>
  A weak container that comes and goes leaves the counts as they were; the block is deleted when no other
  weak container refers to it, whatever the count of owners is.
\<close>

lemma wc_construct_destroy:
  assumes "cells h b = Some r"
  shows "\<exists>h1 h2. wc_construct (Some b) h = Some h1 \<and> wc_destroy (Some b) h1 = Some h2
           \<and> cells h2 b = (if mWeakCount r = 0 then None else Some r)"
  using assms by (auto simp: wc_construct_def wc_destroy_def modify_Some free_Some)

section \<open>Properties\<close>

text \<open>
  A unique pointer deletes its object exactly once. \<open>makeUnique\<close> owns the new object; the
  destructor deletes the object and nothing else; the move constructor and the move assignment hand the
  object over and leave a source whose destructor does nothing; the assignment deletes the object the
  target had. A pointer assigned to itself deletes its object and is null.
\<close>

theorem unique_pointer_owns:
  assumes "cells h a = Some v" and "cells h b = Some w" and "a \<noteq> b"
  shows "up_destroy h (Some a) = Some (h\<lparr>cells := (cells h)(a := None)\<rparr>, up_null)
       \<and> (let (moved, source) = up_move_construct (Some a)
          in moved = Some a \<and> up_destroy h source = Some (h, up_null)
             \<and> up_deref h moved = Some v)
       \<and> (\<exists>h' u source. up_move_assign h (Some a) (Some b) = Some (h', u, source)
            \<and> cells h' = (cells h)(a := None) \<and> up_deref h' u = Some w \<and> up_destroy h' source = Some (h', up_null)
            \<and> map_option (\<lambda>x. cells (fst x)) (up_destroy h' u) = Some ((cells h)(a := None, b := None)))
       \<and> (\<exists>h'. up_move_assign_self h (Some a) = Some (h', up_null) \<and> cells h' a = None)
       \<and> (\<exists>h' u. makeUnique x h = (h', u) \<and> up_bool u \<and> up_deref h' u = Some x)"
  using assms
  by (auto simp: up_destroy_def up_reset_def up_null_def up_move_construct_def up_move_assign_def up_deref_def
      up_move_assign_self_def makeUnique_def up_bool_def new_def free_Some)

lemma unique_pointer_owns_witness:
  "map_option snd (up_destroy \<lparr>cells = [0 \<mapsto> (5 :: nat), 1 \<mapsto> 6], brk = 2\<rparr> (Some 0)) = Some up_null"
proof -
  have "cells \<lparr>cells = [0 \<mapsto> (5 :: nat), 1 \<mapsto> 6], brk = 2\<rparr> 0 = Some 5"
    "cells \<lparr>cells = [0 \<mapsto> (5 :: nat), 1 \<mapsto> 6], brk = 2\<rparr> 1 = Some 6" "(0 :: nat) \<noteq> 1" by simp_all
  from unique_pointer_owns [OF this, THEN conjunct1] show ?thesis by simp
qed

text \<open>
  A shared pointer does not delete its object, or dereferences null. The only owner of an object
  has no reference block, and its destructor looks for the deleter in that block. A copy creates the
  block for itself only: the source still counts one owner and its destructor still fails, and the
  destructors of the copies never count down, so the object and the block stay for ever. The copy
  assignment takes the block but keeps the pointer, and \<open>swap\<close> exchanges the blocks but not the pointers.
\<close>

theorem shared_pointer_hazards:
  assumes "cells (objects h) a = Some v"
  shows "sp_destroy h (sp_of (Some a)) = None
       \<and> (\<exists>h1 c h2 d. sp_copy_construct h (sp_of (Some a)) = Some (h1, c)
            \<and> sp_getReferenceCount h1 (sp_of (Some a)) = Some 1 \<and> sp_getReferenceCount h1 c = Some 2
            \<and> sp_destroy h1 (sp_of (Some a)) = None
            \<and> sp_copy_construct h1 c = Some (h2, d) \<and> sp_getReferenceCount h2 d = Some 3
            \<and> sp_destroy h2 c = Some h2 \<and> sp_destroy h2 d = Some h2 \<and> sp_deref h2 d = Some v)
       \<and> (\<forall>s other. sp_mPointer (sp_copy_assign s other) = sp_mPointer s
            \<and> sp_mPointer (fst (sp_move_assign s other)) = sp_mPointer s)"
  using assms
  by (auto simp: sp_destroy_def sp_decreaseCountAndDeleteReference_def sp_decreaseCount_def sp_of_def sp_deleteObject_def
      sp_copy_construct_def sp_increaseCount_def new_def sp_getReferenceCount_def modify_Some sp_deref_def
      sp_copy_assign_def sp_move_assign_def sp_swap_def)

lemma shared_pointer_hazards_witness:
  "(let (h, s) = makeShared (7 :: nat) \<lparr>objects = empty_heap, blocks = empty_heap\<rparr> in sp_destroy h s = None)"
  using shared_pointer_hazards [of "fst (makeShared (7 :: nat) \<lparr>objects = empty_heap, blocks = empty_heap\<rparr>)" 0 7, THEN conjunct1]
  by (simp add: makeShared_def new_def empty_heap_def)

end
