(* ===== verification/Locks.thy ===== *)
theory Locks
  imports ZqPrelude
begin

text \<open>
  Base/RWLock.hpp, Base/Mutex.hpp and Base/SpinLock.hpp: the lock objects with their scoped guards, and
  \<open>RWLocked\<close>, the value that is reached through guards only. The platform's lock functions are the
  fields of \<open>lock_platform\<close>; a lock function that has to wait has the value \<open>None\<close> in that state.
  The three classes have the same guards; a mutex and a spin lock use the exclusive functions only.
\<close>

section \<open>Lock objects\<close>

text \<open>
  \<open>'h\<close> are the platform's handles and \<open>'p\<close> its state. \<open>None\<close> is the undefined handle
  (\<open>ZQ_UNDEFINED_RWLOCK\<close> and the like).
\<close>

record ('h, 'p) lock_platform =
  lk_init :: "'p \<Rightarrow> 'h option \<times> 'p"
  lk_deinit :: "'h option \<Rightarrow> 'p \<Rightarrow> 'p"
  lk_tryLock :: "'h option \<Rightarrow> 'p \<Rightarrow> bool \<times> 'p"
  lk_lockRead :: "'h option \<Rightarrow> 'p \<Rightarrow> 'p option"
  lk_unlockRead :: "'h option \<Rightarrow> 'p \<Rightarrow> 'p option"
  lk_lockWrite :: "'h option \<Rightarrow> 'p \<Rightarrow> 'p option"
  lk_unlockWrite :: "'h option \<Rightarrow> 'p \<Rightarrow> 'p option"

text \<open>A lock object is its handle.\<close>

definition rw_construct :: "('h, 'p) lock_platform \<Rightarrow> 'p \<Rightarrow> 'h option \<times> 'p" where
  "rw_construct os p = lk_init os p"

definition rw_destroy :: "('h, 'p) lock_platform \<Rightarrow> 'h option \<Rightarrow> 'p \<Rightarrow> 'p" where
  "rw_destroy os mLock p = (if mLock = None then p else lk_deinit os mLock p)"

definition rw_move_construct :: "'h option \<Rightarrow> 'h option \<times> 'h option" where
  "rw_move_construct other = (other, None)"

text \<open>The move assignments: the reader-writer lock and the mutex do not test their own handle.\<close>

definition rw_move_assign ::
  "('h, 'p) lock_platform \<Rightarrow> 'h option \<Rightarrow> 'h option \<Rightarrow> 'p \<Rightarrow> 'h option \<times> 'h option \<times> 'p" where
  "rw_move_assign os mLock other p = (other, None, lk_deinit os mLock p)"

definition sl_move_assign ::
  "('h, 'p) lock_platform \<Rightarrow> 'h option \<Rightarrow> 'h option \<Rightarrow> 'p \<Rightarrow> 'h option \<times> 'h option \<times> 'p" where
  "sl_move_assign os mLock other p = (other, None, (if mLock \<noteq> None then lk_deinit os mLock p else p))"

definition mx_move_assign ::
  "('h, 'p) lock_platform \<Rightarrow> 'h option \<Rightarrow> 'h option \<Rightarrow> 'p \<Rightarrow> 'h option \<times> 'h option \<times> 'p" where
  "mx_move_assign os mMutex other p =
     (let (_, p1) = lk_tryLock os mMutex p
      in (other, None, lk_deinit os mMutex p1))"

definition mx_destroy :: "('h, 'p) lock_platform \<Rightarrow> 'h option \<Rightarrow> 'p \<Rightarrow> 'p" where
  "mx_destroy os mMutex p =
     (if mMutex = None then p
      else (let (_, p1) = lk_tryLock os mMutex p in lk_deinit os mMutex p1))"

section \<open>Guards\<close>

text \<open>
  \<open>mLockedLock\<close> points to the lock object, or is null after the guard was moved; here it says whether
  it points to the object, whose handle the operations get.
\<close>

record scoped_lock =
  sc_write :: bool
  mLockedLock :: bool

definition ScopedReadLock :: "('h, 'p) lock_platform \<Rightarrow> 'h option \<Rightarrow> 'p \<Rightarrow> (scoped_lock \<times> 'p) option" where
  "ScopedReadLock os mLock p = do {
     p1 \<leftarrow> lk_lockRead os mLock p;
     Some (\<lparr>sc_write = False, mLockedLock = True\<rparr>, p1)
   }"

definition ScopedWriteLock :: "('h, 'p) lock_platform \<Rightarrow> 'h option \<Rightarrow> 'p \<Rightarrow> (scoped_lock \<times> 'p) option" where
  "ScopedWriteLock os mLock p = do {
     p1 \<leftarrow> lk_lockWrite os mLock p;
     Some (\<lparr>sc_write = True, mLockedLock = True\<rparr>, p1)
   }"

definition sc_destroy_guard :: "('h, 'p) lock_platform \<Rightarrow> 'h option \<Rightarrow> scoped_lock \<Rightarrow> 'p \<Rightarrow> 'p option" where
  "sc_destroy_guard os mLock g p =
     (if mLockedLock g then (if sc_write g then lk_unlockWrite os mLock p else lk_unlockRead os mLock p)
      else Some p)"

text \<open>The new guard and the source.\<close>

definition sc_move_guard :: "scoped_lock \<Rightarrow> scoped_lock \<times> scoped_lock" where
  "sc_move_guard other = (other, other\<lparr>mLockedLock := False\<rparr>)"

text \<open>The guard of a mutex and of a spin lock, with the platform's exclusive functions.\<close>

definition ScopedLock :: "('h, 'p) lock_platform \<Rightarrow> 'h option \<Rightarrow> 'p \<Rightarrow> (scoped_lock \<times> 'p) option" where
  "ScopedLock os mutex p = do {
     p1 \<leftarrow> lk_lockWrite os mutex p;
     Some (\<lparr>sc_write = True, mLockedLock = True\<rparr>, p1)
   }"

section \<open>RWLocked\<close>

record ('h, 'v) rw_locked =
  rl_mLock :: "'h option"
  rl_mValue :: 'v

text \<open>What \<open>getRead\<close> and \<open>getWrite\<close> give is a reference to the value and a guard.\<close>

definition rl_getRead ::
  "('h, 'p) lock_platform \<Rightarrow> ('h, 'v) rw_locked \<Rightarrow> 'p \<Rightarrow> (scoped_lock \<times> 'p) option" where
  "rl_getRead os l p = ScopedReadLock os (rl_mLock l) p"

definition rl_getWrite ::
  "('h, 'p) lock_platform \<Rightarrow> ('h, 'v) rw_locked \<Rightarrow> 'p \<Rightarrow> (scoped_lock \<times> 'p) option" where
  "rl_getWrite os l p = ScopedWriteLock os (rl_mLock l) p"

text \<open>\<open>SpinLocked\<close> has one access function.\<close>

definition sl_get ::
  "('h, 'p) lock_platform \<Rightarrow> ('h, 'v) rw_locked \<Rightarrow> 'p \<Rightarrow> (scoped_lock \<times> 'p) option" where
  "sl_get os l p = ScopedLock os (rl_mLock l) p"

text \<open>So a \<open>SpinLocked\<close> behaves as an \<open>RWLocked\<close> of which only \<open>getWrite\<close> is called.\<close>

lemma sl_get_is_getWrite: "sl_get = rl_getWrite"
  by (intro ext) (simp add: sl_get_def rl_getWrite_def ScopedLock_def ScopedWriteLock_def)

section \<open>Threads that share a locked value\<close>

text \<open>
  The guards that exist, by name; any thread may create, move and destroy them, read the value through
  a guard that is not null and write it through such a write guard. The steps of all threads interleave.
\<close>

record ('h, 'v, 'p) rw_state =
  st_locked :: "('h, 'v) rw_locked"
  st_platform :: 'p
  st_guards :: "nat \<Rightarrow> scoped_lock option"

inductive rw_step :: "('h, 'p) lock_platform \<Rightarrow> ('h, 'v, 'p) rw_state \<Rightarrow> ('h, 'v, 'p) rw_state \<Rightarrow> bool"
  for os :: "('h, 'p) lock_platform" where
  get_read: "st_guards s i = None \<Longrightarrow> rl_getRead os (st_locked s) (st_platform s) = Some (g, p) \<Longrightarrow>
    rw_step os s (s\<lparr>st_platform := p, st_guards := (st_guards s)(i \<mapsto> g)\<rparr>)"
| get_write: "st_guards s i = None \<Longrightarrow> rl_getWrite os (st_locked s) (st_platform s) = Some (g, p) \<Longrightarrow>
    rw_step os s (s\<lparr>st_platform := p, st_guards := (st_guards s)(i \<mapsto> g)\<rparr>)"
| move_guard: "st_guards s i = Some g \<Longrightarrow> st_guards s j = None \<Longrightarrow> sc_move_guard g = (g1, g2) \<Longrightarrow>
    rw_step os s (s\<lparr>st_guards := (st_guards s)(j \<mapsto> g1, i \<mapsto> g2)\<rparr>)"
| drop_guard: "st_guards s i = Some g \<Longrightarrow> sc_destroy_guard os (rl_mLock (st_locked s)) g (st_platform s) = Some p \<Longrightarrow>
    rw_step os s (s\<lparr>st_platform := p, st_guards := (st_guards s)(i := None)\<rparr>)"
| write_value: "st_guards s i = Some g \<Longrightarrow> mLockedLock g \<Longrightarrow> sc_write g \<Longrightarrow>
    rw_step os s (s\<lparr>st_locked := (st_locked s)\<lparr>rl_mValue := v\<rparr>\<rparr>)"

inductive_cases rw_stepE: "rw_step os s s'"

definition rw_reachable :: "('h, 'p) lock_platform \<Rightarrow> ('h, 'v, 'p) rw_state \<Rightarrow> ('h, 'v, 'p) rw_state \<Rightarrow> bool" where
  "rw_reachable os = (rw_step os)\<^sup>*\<^sup>*"

text \<open>
  The documented behaviour of a reader-writer lock: \<open>held p\<close> is the number of read holds and whether
  the write hold is taken. Locking waits until it is allowed, unlocking of what is held succeeds.
\<close>

definition rw_documented :: "('h, 'p) lock_platform \<Rightarrow> 'h option \<Rightarrow> ('p \<Rightarrow> nat \<times> bool) \<Rightarrow> bool" where
  "rw_documented os mLock held \<longleftrightarrow>
     (\<forall>p p'. lk_lockRead os mLock p = Some p' \<longrightarrow> \<not> snd (held p) \<and> held p' = (Suc (fst (held p)), False))
   \<and> (\<forall>p p'. lk_lockWrite os mLock p = Some p' \<longrightarrow> held p = (0, False) \<and> held p' = (0, True))
   \<and> (\<forall>p. 0 < fst (held p) \<longrightarrow> (\<exists>p'. lk_unlockRead os mLock p = Some p' \<and> held p' = (fst (held p) - 1, snd (held p))))
   \<and> (\<forall>p. snd (held p) \<longrightarrow> (\<exists>p'. lk_unlockWrite os mLock p = Some p' \<and> held p' = (fst (held p), False)))"

section \<open>The invariant\<close>

definition readers :: "(nat \<Rightarrow> scoped_lock option) \<Rightarrow> nat set" where
  "readers gs = {i. \<exists>g. gs i = Some g \<and> mLockedLock g \<and> \<not> sc_write g}"

definition writers :: "(nat \<Rightarrow> scoped_lock option) \<Rightarrow> nat set" where
  "writers gs = {i. \<exists>g. gs i = Some g \<and> mLockedLock g \<and> sc_write g}"

definition rw_inv :: "('p \<Rightarrow> nat \<times> bool) \<Rightarrow> ('h, 'v, 'p) rw_state \<Rightarrow> bool" where
  "rw_inv held s \<longleftrightarrow> finite (dom (st_guards s)) \<and> fst (held (st_platform s)) = card (readers (st_guards s))
     \<and> (if snd (held (st_platform s)) then readers (st_guards s) = {} \<and> (\<exists>i. writers (st_guards s) = {i})
        else writers (st_guards s) = {})"

lemma readers_finite [simp]: "finite (dom gs) \<Longrightarrow> finite (readers gs)"
  by (rule finite_subset [of _ "dom gs"]) (auto simp: readers_def)

lemma guards_new:
  "gs i = None \<Longrightarrow> readers (gs(i \<mapsto> g)) = (if mLockedLock g \<and> \<not> sc_write g then insert i (readers gs) else readers gs)"
  "gs i = None \<Longrightarrow> writers (gs(i \<mapsto> g)) = (if mLockedLock g \<and> sc_write g then insert i (writers gs) else writers gs)"
  by (auto simp: readers_def writers_def)

lemma guards_drop:
  "readers (gs(i := None)) = readers gs - {i}" "writers (gs(i := None)) = writers gs - {i}"
  by (auto simp: readers_def writers_def)

lemma guards_null:
  "gs i = Some g \<Longrightarrow> readers (gs(i \<mapsto> g\<lparr>mLockedLock := False\<rparr>)) = readers gs - {i}"
  "gs i = Some g \<Longrightarrow> writers (gs(i \<mapsto> g\<lparr>mLockedLock := False\<rparr>)) = writers gs - {i}"
  by (auto simp: readers_def writers_def)

lemma guards_none: "gs i = None \<Longrightarrow> i \<notin> readers gs \<and> i \<notin> writers gs"
  by (auto simp: readers_def writers_def)

lemma guards_some:
  "gs i = Some g \<Longrightarrow> (i \<in> readers gs \<longleftrightarrow> mLockedLock g \<and> \<not> sc_write g) \<and> (i \<in> writers gs \<longleftrightarrow> mLockedLock g \<and> sc_write g)"
  by (auto simp: readers_def writers_def)

lemma documented_lockRead:
  "rw_documented os h held \<Longrightarrow> lk_lockRead os h p = Some p' \<Longrightarrow>
     \<not> snd (held p) \<and> held p' = (Suc (fst (held p)), False)"
  by (simp add: rw_documented_def)

lemma documented_lockWrite:
  "rw_documented os h held \<Longrightarrow> lk_lockWrite os h p = Some p' \<Longrightarrow> held p = (0, False) \<and> held p' = (0, True)"
  by (simp add: rw_documented_def)

lemma documented_unlockRead:
  "rw_documented os h held \<Longrightarrow> 0 < fst (held p) \<Longrightarrow>
     \<exists>p'. lk_unlockRead os h p = Some p' \<and> held p' = (fst (held p) - 1, snd (held p))"
  by (simp add: rw_documented_def)

lemma documented_unlockWrite:
  "rw_documented os h held \<Longrightarrow> snd (held p) \<Longrightarrow>
     \<exists>p'. lk_unlockWrite os h p = Some p' \<and> held p' = (fst (held p), False)"
  by (simp add: rw_documented_def)

lemma rl_getRead_Some:
  "rl_getRead os l p = Some (g, p') \<longleftrightarrow>
     lk_lockRead os (rl_mLock l) p = Some p' \<and> g = \<lparr>sc_write = False, mLockedLock = True\<rparr>"
  by (auto simp: rl_getRead_def ScopedReadLock_def split: Option.bind_splits)

lemma rl_getWrite_Some:
  "rl_getWrite os l p = Some (g, p') \<longleftrightarrow>
     lk_lockWrite os (rl_mLock l) p = Some p' \<and> g = \<lparr>sc_write = True, mLockedLock = True\<rparr>"
  by (auto simp: rl_getWrite_def ScopedWriteLock_def split: Option.bind_splits)

text \<open>Each step keeps the invariant; the lock object of the value stays the same.\<close>

lemma rw_inv_new_reader:
  assumes "rw_inv held s" "st_guards s i = None" "\<not> snd (held (st_platform s))"
    and "held p = (Suc (fst (held (st_platform s))), False)"
  shows "rw_inv held (s\<lparr>st_platform := p, st_guards := (st_guards s)(i \<mapsto> \<lparr>sc_write = False, mLockedLock = True\<rparr>)\<rparr>)"
  using assms guards_none [of "st_guards s" i] by (simp add: rw_inv_def guards_new)

lemma rw_inv_new_writer:
  assumes "rw_inv held s" "st_guards s i = None" "held (st_platform s) = (0, False)" "held p = (0, True)"
  shows "rw_inv held (s\<lparr>st_platform := p, st_guards := (st_guards s)(i \<mapsto> \<lparr>sc_write = True, mLockedLock = True\<rparr>)\<rparr>)"
  using assms by (auto simp: rw_inv_def guards_new)

lemma rw_inv_move:
  assumes "rw_inv held s" "st_guards s i = Some g" "st_guards s j = None"
  shows "rw_inv held (s\<lparr>st_guards := (st_guards s)(j \<mapsto> g, i \<mapsto> g\<lparr>mLockedLock := False\<rparr>)\<rparr>)"
proof -
  let ?gs = "st_guards s"
  have ij: "i \<noteq> j" using assms by auto
  have r: "readers (?gs(j \<mapsto> g, i \<mapsto> g\<lparr>mLockedLock := False\<rparr>)) =
      (if i \<in> readers ?gs then insert j (readers ?gs - {i}) else readers ?gs)"
    and w: "writers (?gs(j \<mapsto> g, i \<mapsto> g\<lparr>mLockedLock := False\<rparr>)) =
      (if i \<in> writers ?gs then insert j (writers ?gs - {i}) else writers ?gs)"
    using assms(2,3) ij by (auto simp: readers_def writers_def)
  have nj: "j \<notin> readers ?gs" using guards_none assms(3) by auto
  have "finite (readers ?gs)" using assms(1) by (simp add: rw_inv_def)
  then have c: "card (readers (?gs(j \<mapsto> g, i \<mapsto> g\<lparr>mLockedLock := False\<rparr>))) = card (readers ?gs)"
    unfolding r using nj card_Suc_Diff1 [of "readers ?gs" i] by auto
  show ?thesis using assms(1) unfolding rw_inv_def
    by (auto simp: c) (auto simp: r w)
qed

lemma rw_drop_guard:
  assumes "rw_documented os (rl_mLock (st_locked s)) held" "rw_inv held s" "st_guards s i = Some g"
  obtains p where "sc_destroy_guard os (rl_mLock (st_locked s)) g (st_platform s) = Some p"
    and "rw_inv held (s\<lparr>st_platform := p, st_guards := (st_guards s)(i := None)\<rparr>)"
proof -
  let ?gs = "st_guards s"
  have fin: "finite (dom ?gs)" and n: "fst (held (st_platform s)) = card (readers ?gs)"
    using assms(2) by (simp_all add: rw_inv_def)
  note m = guards_some [of ?gs, OF assms(3)]
  consider (null) "\<not> mLockedLock g" | (reader) "mLockedLock g" "\<not> sc_write g" | (writer) "mLockedLock g" "sc_write g"
    by blast
  then show thesis
  proof cases
    case null
    then show ?thesis using that assms(2) m by (simp add: sc_destroy_guard_def rw_inv_def guards_drop)
  next
    case reader
    then have i: "i \<in> readers ?gs" using m by blast
    then have c: "0 < card (readers ?gs)" using fin by (auto simp: card_gt_0_iff)
    then obtain p where p: "lk_unlockRead os (rl_mLock (st_locked s)) (st_platform s) = Some p"
      "held p = (card (readers ?gs) - 1, snd (held (st_platform s)))"
      using documented_unlockRead [OF assms(1), of "st_platform s"] n by auto
    show ?thesis using that [of p] assms(2) p reader i m fin
      by (auto simp: sc_destroy_guard_def rw_inv_def guards_drop card_Diff_singleton split: if_splits)
  next
    case writer
    then have i: "i \<in> writers ?gs" using m by blast
    then have t: "snd (held (st_platform s))" "readers ?gs = {}" "writers ?gs = {i}"
      using assms(2) by (auto simp: rw_inv_def split: if_splits)
    then obtain p where p: "lk_unlockWrite os (rl_mLock (st_locked s)) (st_platform s) = Some p"
      "held p = (fst (held (st_platform s)), False)"
      using documented_unlockWrite [OF assms(1), of "st_platform s"] by auto
    show ?thesis using that [of p] assms(2) p writer t
      by (auto simp: sc_destroy_guard_def rw_inv_def guards_drop)
  qed
qed

lemma rw_step_inv:
  assumes "rw_step os s s'" "rw_documented os (rl_mLock (st_locked s)) held" "rw_inv held s"
  shows "rw_inv held s' \<and> rl_mLock (st_locked s') = rl_mLock (st_locked s)"
  using assms
proof (cases rule: rw_step.cases)
  case (get_read i g p)
  then show ?thesis using documented_lockRead [OF assms(2)] assms(3)
    by (auto simp: rl_getRead_Some intro!: rw_inv_new_reader)
next
  case (get_write i g p)
  then show ?thesis using documented_lockWrite [OF assms(2)] assms(3)
    by (auto simp: rl_getWrite_Some intro!: rw_inv_new_writer)
next
  case (move_guard i g j g1 g2)
  then show ?thesis using assms(3) by (auto simp: sc_move_guard_def intro!: rw_inv_move)
next
  case (drop_guard i g p)
  obtain q where "sc_destroy_guard os (rl_mLock (st_locked s)) g (st_platform s) = Some q"
    "rw_inv held (s\<lparr>st_platform := q, st_guards := (st_guards s)(i := None)\<rparr>)"
    by (rule rw_drop_guard [OF assms(2,3) drop_guard(2)])
  then show ?thesis using drop_guard by simp
next
  case (write_value i g v)
  then show ?thesis using assms(3) by (simp add: rw_inv_def)
qed

lemma rw_reachable_inv:
  assumes "rw_reachable os s s'" "rw_documented os (rl_mLock (st_locked s)) held" "rw_inv held s"
  shows "rw_inv held s' \<and> rl_mLock (st_locked s') = rl_mLock (st_locked s)"
  using assms(1) unfolding rw_reachable_def
proof (induction rule: rtranclp_induct)
  case base
  then show ?case using assms(3) by simp
next
  case (step t u)
  then show ?case using rw_step_inv [of os t u held] assms(2) by simp
qed

text \<open>An active write guard is the only active guard.\<close>

lemma rw_inv_exclusive:
  assumes "rw_inv held s" "i \<in> writers (st_guards s)" "j \<in> readers (st_guards s) \<or> j \<in> writers (st_guards s)"
  shows "j = i"
  using assms by (auto simp: rw_inv_def split: if_splits)

text \<open>A value that changes was written through a write guard, while nobody else could look at it.\<close>

lemma rw_step_value:
  assumes "rw_step os s s'" "rl_mValue (st_locked s') \<noteq> rl_mValue (st_locked s)"
  shows "\<exists>i. i \<in> writers (st_guards s)"
  using assms by (cases rule: rw_stepE) (auto simp: writers_def)

section \<open>Properties\<close>

text \<open>
  C9: mutual exclusion of \<open>RWLocked\<close>. Over a lock that behaves as documented, starting with no guards
  and a free lock, in every state that any interleaving of creating, moving and destroying guards and
  writing through them reaches: a write guard that was not moved from is the only guard that locks; the
  lock's holds are exactly these guards; every guard can be destroyed, which unlocks what its
  construction locked, or does nothing for a guard that was moved from; and a step changes the value
  only while a write guard locks, so never while a read guard does.
\<close>

theorem rw_locked_exclusive:
  assumes "rw_documented os (rl_mLock (st_locked s)) held" and "rw_reachable os s s'"
    and "st_guards s = Map.empty" and "held (st_platform s) = (0, False)"
  shows "(\<forall>i \<in> writers (st_guards s'). \<forall>j \<in> readers (st_guards s') \<union> writers (st_guards s'). j = i)
       \<and> held (st_platform s') = (card (readers (st_guards s')), writers (st_guards s') \<noteq> {})
       \<and> (\<forall>i g. st_guards s' i = Some g \<longrightarrow>
            (\<exists>p. sc_destroy_guard os (rl_mLock (st_locked s')) g (st_platform s') = Some p
               \<and> (\<not> mLockedLock g \<longrightarrow> p = st_platform s')))
       \<and> (\<forall>s''. rw_step os s' s'' \<longrightarrow> rl_mValue (st_locked s'') \<noteq> rl_mValue (st_locked s') \<longrightarrow>
            readers (st_guards s') = {} \<and> (\<exists>i. writers (st_guards s') = {i}))"
proof -
  have "rw_inv held s" using assms(3,4) by (simp add: rw_inv_def readers_def writers_def)
  then have inv: "rw_inv held s'" and same: "rl_mLock (st_locked s') = rl_mLock (st_locked s)"
    using rw_reachable_inv [OF assms(2,1)] by simp_all
  have doc: "rw_documented os (rl_mLock (st_locked s')) held" using assms(1) same by simp
  have drop: "\<exists>p. sc_destroy_guard os (rl_mLock (st_locked s')) g (st_platform s') = Some p
      \<and> (\<not> mLockedLock g \<longrightarrow> p = st_platform s')" if "st_guards s' i = Some g" for i g
    using rw_drop_guard [OF doc inv that] by (metis option.inject sc_destroy_guard_def)
  have hold: "held (st_platform s') = (card (readers (st_guards s')), writers (st_guards s') \<noteq> {})"
    using inv by (cases "held (st_platform s')") (auto simp: rw_inv_def split: if_splits)
  have one: "readers (st_guards s') = {} \<and> (\<exists>i. writers (st_guards s') = {i})" if "i \<in> writers (st_guards s')" for i
    using inv that by (auto simp: rw_inv_def split: if_splits)
  show ?thesis
  proof (intro conjI)
    show "\<forall>i \<in> writers (st_guards s'). \<forall>j \<in> readers (st_guards s') \<union> writers (st_guards s'). j = i"
      using rw_inv_exclusive [OF inv] by blast
    show "\<forall>s''. rw_step os s' s'' \<longrightarrow> rl_mValue (st_locked s'') \<noteq> rl_mValue (st_locked s') \<longrightarrow>
            readers (st_guards s') = {} \<and> (\<exists>i. writers (st_guards s') = {i})"
      using rw_step_value one by blast
  qed (use drop hold in simp_all)
qed

text \<open>A lock that only counts: the platform's state is the number of read holds and the write hold.\<close>

definition counting_platform :: "(unit, nat \<times> bool) lock_platform" where
  "counting_platform = \<lparr>lk_init = (\<lambda>p. (Some (), p)), lk_deinit = (\<lambda>_ p. p), lk_tryLock = (\<lambda>_ p. (True, p)),
     lk_lockRead = (\<lambda>_ p. if snd p then None else Some (Suc (fst p), False)),
     lk_unlockRead = (\<lambda>_ p. if 0 < fst p then Some (fst p - 1, snd p) else None),
     lk_lockWrite = (\<lambda>_ p. if p = (0, False) then Some (0, True) else None),
     lk_unlockWrite = (\<lambda>_ p. if snd p then Some (fst p, False) else None)\<rparr>"

lemma counting_documented: "rw_documented counting_platform h id"
  by (auto simp: rw_documented_def counting_platform_def split: if_splits)

lemma rw_locked_exclusive_witness:
  "\<exists>s'. rw_reachable counting_platform
       \<lparr>st_locked = \<lparr>rl_mLock = Some (), rl_mValue = 5 :: nat\<rparr>, st_platform = (0 :: nat, False), st_guards = Map.empty\<rparr> s'
     \<and> writers (st_guards s') = {1} \<and> id (st_platform s') = (0, True)"
proof -
  let ?s0 = "\<lparr>st_locked = \<lparr>rl_mLock = Some (), rl_mValue = 5 :: nat\<rparr>, st_platform = (0 :: nat, False), st_guards = Map.empty\<rparr>"
  let ?w = "\<lparr>sc_write = True, mLockedLock = True\<rparr>"
  let ?s1 = "?s0\<lparr>st_platform := (0, True), st_guards := (st_guards ?s0)(0 \<mapsto> ?w)\<rparr>"
  let ?s2 = "?s1\<lparr>st_guards := (st_guards ?s1)(1 \<mapsto> ?w, 0 \<mapsto> ?w\<lparr>mLockedLock := False\<rparr>)\<rparr>"
  have "rw_step counting_platform ?s0 ?s1"
    by (rule rw_step.get_write) (simp_all add: rl_getWrite_Some counting_platform_def)
  moreover have "rw_step counting_platform ?s1 ?s2"
    by (rule rw_step.move_guard [where g = ?w and ?g1.0 = ?w and ?g2.0 = "?w\<lparr>mLockedLock := False\<rparr>"])
      (simp_all add: sc_move_guard_def)
  ultimately have r: "rw_reachable counting_platform ?s0 ?s2" by (simp add: rw_reachable_def)
  have w: "writers (st_guards ?s2) = {1}" by (auto simp: writers_def split: if_splits)
  have "id (st_platform ?s2) = (card (readers (st_guards ?s2)), writers (st_guards ?s2) \<noteq> {})
      \<and> (\<forall>i \<in> writers (st_guards ?s2). \<forall>j \<in> readers (st_guards ?s2) \<union> writers (st_guards ?s2). j = i)"
    using rw_locked_exclusive [OF counting_documented r] by simp
  then show ?thesis using r w by (intro exI [of _ ?s2]) simp
qed

end
