(* ===== verification/Clients.thy ===== *)
theory Clients
  imports Messages PeersServer Variants
begin

text \<open>
  The classes of Core that wait for messages: Core/Common/GlobalPeers, Core/Common/ProcessPeersClient,
  Core/Host/ThreadClient and Core/Host/PeerLookupServer. The servers and streams they use are
  arguments: \<open>accept\<close> takes the next client of a server (\<open>None\<close> when it waits for ever), \<open>receive\<close> is
  \<open>receiveMessage\<close> of a stream, and sending acts on the world \<open>'w\<close>. The messages without a class of
  their own come from a generator that is not in the repository, so what sends them is an argument.
  The payloads that the handlers do not read are left out.
\<close>

section \<open>GlobalPeers\<close>

record 'c run_thread_task =
  rt_isComplete :: bool
  mMaybeProposedClient :: "'c optional"

definition rt_new :: "'c run_thread_task" where
  "rt_new = \<lparr>rt_isComplete = False, mMaybeProposedClient = op_new\<rparr>"

definition rt_setProposedClient :: "'c \<Rightarrow> 'c run_thread_task \<Rightarrow> 'c run_thread_task option" where
  "rt_setProposedClient stream t = do {
     client \<leftarrow> op_construct stream (mMaybeProposedClient t);
     Some (t\<lparr>mMaybeProposedClient := client, rt_isComplete := True\<rparr>)
   }"

definition rt_getProposedClient :: "'c run_thread_task \<Rightarrow> 'c option" where
  "rt_getProposedClient t = op_get (mMaybeProposedClient t)"

definition gp_onMessageReceived ::
  "('c \<Rightarrow> 'w \<Rightarrow> 'w option) \<Rightarrow> 16 word \<Rightarrow> 'c \<Rightarrow> 'c run_thread_task \<Rightarrow> 'w \<Rightarrow> ('c run_thread_task \<times> 'w) option" where
  "gp_onMessageReceived sendPropose type messageStream task w =
     (if type = type_code RunThreadPeerLookup then do {
        w1 \<leftarrow> sendPropose messageStream w;
        Some (task, w1)
      }
      else if type = type_code RunThreadPeerLookupAcceptPropose then Some (task, w)
      else if type = type_code RunThreadPeerLookupPropose then
        (if \<not> rt_isComplete task then do {
           task1 \<leftarrow> rt_setProposedClient messageStream task;
           Some (task1, w)
         }
         else Some (task, w))
      else Some (task, w))"

text \<open>The task that is waited for is \<open>mCurrentThreadSentTask\<close>, the one the handler completes.\<close>

partial_function (option) gp_waitForTask ::
  "('e \<Rightarrow> ('c \<times> 'e) option) \<Rightarrow> ('c \<Rightarrow> ((receive_message_error + 16 word) \<times> 'c) option) \<Rightarrow> ('c \<Rightarrow> 'w \<Rightarrow> 'w option)
     \<Rightarrow> 'c run_thread_task \<Rightarrow> 'e \<Rightarrow> 'w \<Rightarrow> ('c run_thread_task \<times> 'e \<times> 'w) option" where
  "gp_waitForTask accept receive sendPropose task server w =
     (if rt_isComplete task then Some (task, server, w)
      else do {
        (client, server1) \<leftarrow> accept server;
        (maybeMessage, client1) \<leftarrow> receive client;
        (case maybeMessage of
           Inl _ \<Rightarrow> gp_waitForTask accept receive sendPropose task server1 w
         | Inr type \<Rightarrow> do {
             (task1, w1) \<leftarrow> gp_onMessageReceived sendPropose type client1 task w;
             gp_waitForTask accept receive sendPropose task1 server1 w1
           })
      })"

text \<open>
  \<open>runThread\<close> up to the acceptance: the lookup is broadcast, the server takes over the stream, and the
  peer that proposed gets the accept message. What follows names a class that does not exist.
\<close>

definition gp_runThread ::
  "('w \<Rightarrow> 's \<times> 'w) \<Rightarrow> ('s \<Rightarrow> 'w \<Rightarrow> ('s \<times> 'w) option) \<Rightarrow> ('s \<Rightarrow> 'w \<Rightarrow> 'e \<times> 'w)
     \<Rightarrow> ('e \<Rightarrow> ('c \<times> 'e) option) \<Rightarrow> ('c \<Rightarrow> ((receive_message_error + 16 word) \<times> 'c) option) \<Rightarrow> ('c \<Rightarrow> 'w \<Rightarrow> 'w option)
     \<Rightarrow> ('c \<Rightarrow> 'w \<Rightarrow> 'w option) \<Rightarrow> 'c run_thread_task \<Rightarrow> 'w \<Rightarrow> ('c run_thread_task \<times> 'e \<times> 'w) option" where
  "gp_runThread createGlobal sendLookup serverFromStream accept receive sendPropose sendAccept task w = do {
     let (globalStream, w1) = createGlobal w;
     (globalStream1, w2) \<leftarrow> sendLookup globalStream w1;
     let (globalServer, w3) = serverFromStream globalStream1 w2;
     (task1, globalServer1, w4) \<leftarrow> gp_waitForTask accept receive sendPropose task globalServer w3;
     client \<leftarrow> rt_getProposedClient task1;
     w5 \<leftarrow> sendAccept client w4;
     Some (task1, globalServer1, w5)
   }"

section \<open>PeerLookupServer\<close>

definition pl_handleMessage :: "('c \<Rightarrow> 'w \<Rightarrow> 'w option) \<Rightarrow> 'c \<Rightarrow> 16 word \<Rightarrow> 'w \<Rightarrow> 'w option" where
  "pl_handleMessage sendPropose clientStream type w =
     (if type = type_code RunThreadPeerLookup then sendPropose clientStream w else Some w)"

partial_function (option) pl_run ::
  "('e \<Rightarrow> ('c \<times> 'e) option) \<Rightarrow> ('c \<Rightarrow> ((receive_message_error + 16 word) \<times> 'c) option) \<Rightarrow> ('c \<Rightarrow> 'w \<Rightarrow> 'w option)
     \<Rightarrow> 'e \<Rightarrow> 'w \<Rightarrow> ('e \<times> 'w) option" where
  "pl_run accept receive sendPropose server w = do {
     (client, server1) \<leftarrow> accept server;
     (maybeMessage, client1) \<leftarrow> receive client;
     (case maybeMessage of
        Inl _ \<Rightarrow> Some (server1, w)
      | Inr type \<Rightarrow> do {
          w1 \<leftarrow> pl_handleMessage sendPropose client1 type w;
          pl_run accept receive sendPropose server1 w1
        })
   }"

section \<open>ProcessPeersClient\<close>

datatype pc_task_type = RunThreadTask | StopRemoteThread | KillRemoteThread | ContinueRemoteThread

record pc_task =
  pc_taskType :: pc_task_type
  pc_isComplete :: bool

definition pc_task_of :: "pc_task_type \<Rightarrow> pc_task" where
  "pc_task_of t = \<lparr>pc_taskType = t, pc_isComplete = False\<rparr>"

definition pc_onMessageReceived :: "16 word \<Rightarrow> pc_task \<Rightarrow> pc_task" where
  "pc_onMessageReceived type t = t"

text \<open>\<open>continue\<close> in the loop goes to its condition.\<close>

partial_function (option) pc_waitUntilCurrentTaskComplete ::
  "('s \<Rightarrow> ((receive_message_error + 16 word) \<times> 's) option) \<Rightarrow> pc_task \<Rightarrow> 's \<Rightarrow> (pc_task \<times> 's) option" where
  "pc_waitUntilCurrentTaskComplete receive t messageStream = do {
     (message, messageStream1) \<leftarrow> receive messageStream;
     let t1 = (case message of Inl _ \<Rightarrow> t | Inr type \<Rightarrow> pc_onMessageReceived type t);
     (if pc_isComplete t1 then Some (t1, messageStream1)
      else pc_waitUntilCurrentTaskComplete receive t1 messageStream1)
   }"

text \<open>The result says whether the thread is known; the new state of the task and the world follow.\<close>

definition pc_sendThreadMessageAndWait ::
  "('i \<Rightarrow> 'w \<Rightarrow> 's \<times> 'w) \<Rightarrow> (thread_message \<Rightarrow> 's \<Rightarrow> 'w \<Rightarrow> ('s \<times> 'w) option)
     \<Rightarrow> ('s \<Rightarrow> ((receive_message_error + 16 word) \<times> 's) option) \<Rightarrow> 'i other_servers \<Rightarrow> 64 word \<Rightarrow> thread_message
     \<Rightarrow> pc_task \<Rightarrow> 'w \<Rightarrow> (bool \<times> pc_task \<times> 'w) option" where
  "pc_sendThreadMessageAndWait createStream sendMessage receive connections threadID data t w = do {
     maybeStreamInfo \<leftarrow> sv_findThreadStreamInfo threadID connections;
     (case maybeStreamInfo of
        Inl _ \<Rightarrow> Some (False, t, w)
      | Inr streamInfo \<Rightarrow> do {
          let (newStream, w1) = createStream streamInfo w;
          (newStream1, w2) \<leftarrow> sendMessage data newStream w1;
          (t1, newStream2) \<leftarrow> pc_waitUntilCurrentTaskComplete receive t newStream1;
          Some (True, t1, w2)
        })
   }"

text \<open>The three requests; a thread that is not known is reported and nothing is sent.\<close>

definition pc_continueRemoteThread ::
  "('i \<Rightarrow> 'w \<Rightarrow> 's \<times> 'w) \<Rightarrow> (thread_message \<Rightarrow> 's \<Rightarrow> 'w \<Rightarrow> ('s \<times> 'w) option)
     \<Rightarrow> ('s \<Rightarrow> ((receive_message_error + 16 word) \<times> 's) option) \<Rightarrow> 'i other_servers \<Rightarrow> 64 word \<Rightarrow> 'w \<Rightarrow> (pc_task \<times> 'w) option" where
  "pc_continueRemoteThread createStream sendMessage receive connections threadID w = do {
     (_, t, w1) \<leftarrow> pc_sendThreadMessageAndWait createStream sendMessage receive connections threadID
       \<lparr>mMessageType = type_code ContinueThread, mThreadID = threadID\<rparr> (pc_task_of ContinueRemoteThread) w;
     Some (t, w1)
   }"

definition pc_killRemoteThread ::
  "('i \<Rightarrow> 'w \<Rightarrow> 's \<times> 'w) \<Rightarrow> (thread_message \<Rightarrow> 's \<Rightarrow> 'w \<Rightarrow> ('s \<times> 'w) option)
     \<Rightarrow> ('s \<Rightarrow> ((receive_message_error + 16 word) \<times> 's) option) \<Rightarrow> 'i other_servers \<Rightarrow> 64 word \<Rightarrow> 'w \<Rightarrow> (pc_task \<times> 'w) option" where
  "pc_killRemoteThread createStream sendMessage receive connections threadID w = do {
     (_, t, w1) \<leftarrow> pc_sendThreadMessageAndWait createStream sendMessage receive connections threadID
       \<lparr>mMessageType = type_code KillThread, mThreadID = threadID\<rparr> (pc_task_of KillRemoteThread) w;
     Some (t, w1)
   }"

definition pc_stopRemoteThread ::
  "('i \<Rightarrow> 'w \<Rightarrow> 's \<times> 'w) \<Rightarrow> (thread_message \<Rightarrow> 's \<Rightarrow> 'w \<Rightarrow> ('s \<times> 'w) option)
     \<Rightarrow> ('s \<Rightarrow> ((receive_message_error + 16 word) \<times> 's) option) \<Rightarrow> 'i other_servers \<Rightarrow> 64 word \<Rightarrow> 'w \<Rightarrow> (pc_task \<times> 'w) option" where
  "pc_stopRemoteThread createStream sendMessage receive connections threadID w = do {
     (_, t, w1) \<leftarrow> pc_sendThreadMessageAndWait createStream sendMessage receive connections threadID
       \<lparr>mMessageType = type_code StopThread, mThreadID = threadID\<rparr> (pc_task_of StopRemoteThread) w;
     Some (t, w1)
   }"

section \<open>ThreadClient\<close>

datatype tc_task_type = TaskNone | DoSystemCallTask | GetAndReserveMemoryTask

text \<open>A task with its result, which nothing initializes; a read of it before it is set has no value.\<close>

record tc_task =
  tc_taskType :: tc_task_type
  tc_isComplete :: bool
  tc_result :: "64 word option"

record 's thread_client =
  mCurrentTaskType :: tc_task_type
  mSystemCallTask :: tc_task
  mGetAndReserveMemoryTask :: tc_task
  mThreadOwnerStream :: 's

definition tc_new :: "'s \<Rightarrow> 's thread_client" where
  "tc_new stream = \<lparr>mCurrentTaskType = TaskNone,
     mSystemCallTask = \<lparr>tc_taskType = DoSystemCallTask, tc_isComplete = False, tc_result = None\<rparr>,
     mGetAndReserveMemoryTask = \<lparr>tc_taskType = GetAndReserveMemoryTask, tc_isComplete = False, tc_result = None\<rparr>,
     mThreadOwnerStream = stream\<rparr>"

text \<open>
  The loop throws away what \<open>receiveMessage\<close> returns; \<open>task\<close> is a reference to one of the client's
  tasks, given here by the field that reads it.
\<close>

partial_function (option) tc_wait_loop ::
  "('s \<Rightarrow> ((receive_message_error + 16 word) \<times> 's) option) \<Rightarrow> ('s thread_client \<Rightarrow> tc_task) \<Rightarrow> 's thread_client
     \<Rightarrow> 's thread_client option" where
  "tc_wait_loop receive task c = do {
     (_, stream) \<leftarrow> receive (mThreadOwnerStream c);
     let c1 = c\<lparr>mThreadOwnerStream := stream\<rparr>;
     (if tc_isComplete (task c1) then Some c1 else tc_wait_loop receive task c1)
   }"

definition tc_waitUntilTaskComplete ::
  "('s \<Rightarrow> ((receive_message_error + 16 word) \<times> 's) option) \<Rightarrow> ('s thread_client \<Rightarrow> tc_task) \<Rightarrow> 's thread_client
     \<Rightarrow> 's thread_client option" where
  "tc_waitUntilTaskComplete receive task c =
     tc_wait_loop receive task (c\<lparr>mCurrentTaskType := tc_taskType (task c)\<rparr>)"

definition tc_doSystemCall ::
  "('s \<Rightarrow> 's option) \<Rightarrow> ('s \<Rightarrow> ((receive_message_error + 16 word) \<times> 's) option) \<Rightarrow> 's thread_client
     \<Rightarrow> (64 word \<times> 's thread_client) option" where
  "tc_doSystemCall sendDoSystemCall receive c = do {
     stream \<leftarrow> sendDoSystemCall (mThreadOwnerStream c);
     c1 \<leftarrow> tc_waitUntilTaskComplete receive mSystemCallTask (c\<lparr>mThreadOwnerStream := stream\<rparr>);
     result \<leftarrow> tc_result (mSystemCallTask c1);
     Some (result, c1)
   }"

definition tc_getAndReserveMemory ::
  "('s \<Rightarrow> 's option) \<Rightarrow> ('s \<Rightarrow> ((receive_message_error + 16 word) \<times> 's) option) \<Rightarrow> 's thread_client
     \<Rightarrow> (64 word \<times> 's thread_client) option" where
  "tc_getAndReserveMemory sendGetAndReserveMemory receive c = do {
     stream \<leftarrow> sendGetAndReserveMemory (mThreadOwnerStream c);
     c1 \<leftarrow> tc_waitUntilTaskComplete receive mGetAndReserveMemoryTask (c\<lparr>mThreadOwnerStream := stream\<rparr>);
     address \<leftarrow> tc_result (mGetAndReserveMemoryTask c1);
     Some (address, c1)
   }"

section \<open>Waiting that ends\<close>

text \<open>A server with a list of clients to come; after them it waits for ever.\<close>

fun accept_list :: "'c list \<Rightarrow> ('c \<times> 'c list) option" where
  "accept_list [] = None"
| "accept_list (c # cs) = Some (c, cs)"

definition sent :: "('c \<Rightarrow> receive_message_error + 16 word) \<Rightarrow> message_type \<Rightarrow> 'c \<Rightarrow> bool" where
  "sent message t c \<longleftrightarrow> message c = Inr (type_code t)"

text \<open>The peers among \<open>cs\<close> that look for somebody, in the state after their message was received.\<close>

definition lookups :: "('c \<Rightarrow> receive_message_error + 16 word) \<Rightarrow> ('c \<Rightarrow> 'c) \<Rightarrow> 'c list \<Rightarrow> 'c list" where
  "lookups message rest cs = map rest (filter (sent message RunThreadPeerLookup) cs)"

lemma lookups_simps [simp]:
  "lookups message rest [] = []"
  "lookups message rest (c # cs) =
     (if sent message RunThreadPeerLookup c then rest c # lookups message rest cs else lookups message rest cs)"
  by (simp_all add: lookups_def)

lemma sent_unique: "sent message t c \<Longrightarrow> sent message u c \<longleftrightarrow> t = u"
  by (auto simp: sent_def type_code_eq_iff)

lemma gp_onMessageReceived_run:
  assumes "message c = Inr ty" and "\<not> rt_isComplete t" and "op_ok (mMaybeProposedClient t)"
  shows "gp_onMessageReceived send ty c' t w =
     (if sent message RunThreadPeerLookup c then map_option (Pair t) (send c' w)
      else if sent message RunThreadPeerLookupPropose c
        then Some (t\<lparr>mMaybeProposedClient := op_of c', rt_isComplete := True\<rparr>, w)
      else Some (t, w))"
proof -
  have "op_construct c' (mMaybeProposedClient t) = Some (op_of c')"
    using assms(3) by (cases "mMaybeProposedClient t") (auto simp: op_ok_def op_defs)
  then show ?thesis using assms(1,2)
    by (cases "send c' w") (auto simp: gp_onMessageReceived_def rt_setProposedClient_def sent_def)
qed

text \<open>The loop ends with the first proposal, and the peers that looked before it were answered in order.\<close>

lemma gp_wait_complete [simp]:
  "rt_isComplete t \<Longrightarrow> gp_waitForTask accept receive send t e w = Some (t, e, w)"
  by (subst gp_waitForTask.simps) simp

lemma gp_wait_run:
  assumes "\<not> rt_isComplete t" and "op_ok (mMaybeProposedClient t)"
    and "\<And>c. c \<in> set cs \<Longrightarrow> receive c = Some (message c, rest c)"
  shows "gp_waitForTask accept_list receive send t cs w =
     (case dropWhile (\<lambda>c. \<not> sent message RunThreadPeerLookupPropose c) cs of
        [] \<Rightarrow> None
      | p # ps \<Rightarrow> map_option (\<lambda>w1. (t\<lparr>mMaybeProposedClient := op_of (rest p), rt_isComplete := True\<rparr>, ps, w1))
          (deliver_all send (lookups message rest (takeWhile (\<lambda>c. \<not> sent message RunThreadPeerLookupPropose c) cs)) w))"
  using assms(3)
proof (induction cs arbitrary: w)
  case Nil
  then show ?case using assms(1) by (subst gp_waitForTask.simps) simp
next
  case (Cons c cs)
  have r: "receive c = Some (message c, rest c)" using Cons.prems by simp
  have IH: "gp_waitForTask accept_list receive send t cs v = (case dropWhile (\<lambda>c. \<not> sent message RunThreadPeerLookupPropose c) cs of
        [] \<Rightarrow> None
      | p # ps \<Rightarrow> map_option (\<lambda>w1. (t\<lparr>mMaybeProposedClient := op_of (rest p), rt_isComplete := True\<rparr>, ps, w1))
          (deliver_all send (lookups message rest (takeWhile (\<lambda>c. \<not> sent message RunThreadPeerLookupPropose c) cs)) v))" for v
    using Cons by simp
  show ?case
  proof (cases "message c")
    case (Inl e)
    then have "\<not> sent message u c" for u by (simp add: sent_def)
    then show ?thesis using r assms(1) Inl
      by (subst gp_waitForTask.simps)
        (cases "dropWhile (\<lambda>c. \<not> sent message RunThreadPeerLookupPropose c) cs"; simp del: dropWhile_eq_Nil_conv add: IH)
  next
    case (Inr ty)
    note h = gp_onMessageReceived_run [of message, OF Inr assms(1,2)]
    consider (look) "sent message RunThreadPeerLookup c" "\<not> sent message RunThreadPeerLookupPropose c"
      | (propose) "sent message RunThreadPeerLookupPropose c" "\<not> sent message RunThreadPeerLookup c"
      | (other) "\<not> sent message RunThreadPeerLookup c" "\<not> sent message RunThreadPeerLookupPropose c"
      using sent_unique [of message RunThreadPeerLookup c RunThreadPeerLookupPropose] by auto
    then show ?thesis
    proof cases
      case look
      then show ?thesis using r assms(1) Inr
        by (subst gp_waitForTask.simps)
          (cases "dropWhile (\<lambda>c. \<not> sent message RunThreadPeerLookupPropose c) cs"; cases "send (rest c) w";
            simp del: dropWhile_eq_Nil_conv add: h IH)
    next
      case propose
      then show ?thesis using r assms(1) Inr by (subst gp_waitForTask.simps) (simp add: h)
    next
      case other
      then show ?thesis using r assms(1) Inr
        by (subst gp_waitForTask.simps)
          (cases "dropWhile (\<lambda>c. \<not> sent message RunThreadPeerLookupPropose c) cs"; simp del: dropWhile_eq_Nil_conv add: h IH)
    qed
  qed
qed

lemma pl_run_list:
  assumes "\<And>c. c \<in> set cs \<Longrightarrow> receive c = Some (message c, rest c)"
  shows "pl_run accept_list receive send cs w =
     (case dropWhile (\<lambda>c. \<not> isl (message c)) cs of
        [] \<Rightarrow> None
      | c # later \<Rightarrow> map_option (Pair later)
          (deliver_all send (lookups message rest (takeWhile (\<lambda>c. \<not> isl (message c)) cs)) w))"
  using assms
proof (induction cs arbitrary: w)
  case Nil
  then show ?case by (subst pl_run.simps) simp
next
  case (Cons c cs)
  have r: "receive c = Some (message c, rest c)" using Cons.prems by simp
  have IH: "pl_run accept_list receive send cs v = (case dropWhile (\<lambda>c. \<not> isl (message c)) cs of
        [] \<Rightarrow> None
      | c # later \<Rightarrow> map_option (Pair later)
          (deliver_all send (lookups message rest (takeWhile (\<lambda>c. \<not> isl (message c)) cs)) v))" for v
    using Cons by simp
  show ?case
  proof (cases "message c")
    case (Inl e)
    then show ?thesis using r by (subst pl_run.simps) simp
  next
    case (Inr ty)
    then show ?thesis using r
      by (subst pl_run.simps)
        (cases "dropWhile (\<lambda>c. \<not> isl (message c)) cs"; cases "send (rest c) w";
          simp del: dropWhile_eq_Nil_conv add: pl_handleMessage_def sent_def IH)
  qed
qed

section \<open>Waiting that does not end\<close>

text \<open>A stream that never yields a message does not complete a lookup.\<close>

lemma gp_wait_needs_message:
  fixes accept :: "'e \<Rightarrow> ('c \<times> 'e) option" and send :: "'c \<Rightarrow> 'w \<Rightarrow> 'w option"
  assumes "gp_waitForTask accept receive send t e w = Some r" and "\<And>c. pred_option (\<lambda>x. isl (fst x)) (receive c)"
  shows "rt_isComplete t"
proof -
  have "(\<forall>c. pred_option (\<lambda>x. isl (fst x)) (receive c)) \<longrightarrow> rt_isComplete t"
  proof (rule gp_waitForTask.raw_induct [OF _ assms(1)])
    fix f and accept :: "'e \<Rightarrow> ('c \<times> 'e) option" and receive :: "'c \<Rightarrow> ((receive_message_error + 16 word) \<times> 'c) option"
      and send :: "'c \<Rightarrow> 'w \<Rightarrow> 'w option" and t e w and r :: "'c run_thread_task \<times> 'e \<times> 'w"
    assume IH: "\<And>accept receive send t e w r. f accept receive send t e w = Some r \<Longrightarrow>
        (\<forall>c. pred_option (\<lambda>x. isl (fst x)) (receive c)) \<longrightarrow> rt_isComplete t"
      and body: "(if rt_isComplete t then Some (t, e, w)
        else accept e \<bind> (\<lambda>(client, server1). receive client \<bind> (\<lambda>(maybeMessage, client1).
          case maybeMessage of Inl _ \<Rightarrow> f accept receive send t server1 w
          | Inr type \<Rightarrow> gp_onMessageReceived send type client1 t w \<bind>
              (\<lambda>(task1, w1). f accept receive send task1 server1 w1)))) = Some r"
    show "(\<forall>c. pred_option (\<lambda>x. isl (fst x)) (receive c)) \<longrightarrow> rt_isComplete t"
    proof (rule impI, rule ccontr)
      assume never: "\<forall>c. pred_option (\<lambda>x. isl (fst x)) (receive c)" and n: "\<not> rt_isComplete t"
      then obtain c e1 m c1 where rc: "receive c = Some (m, c1)"
        and b: "(case m of Inl _ \<Rightarrow> f accept receive send t e1 w
             | Inr type \<Rightarrow> gp_onMessageReceived send type c1 t w \<bind> (\<lambda>(task1, w1). f accept receive send task1 e1 w1)) = Some r"
        using body by (auto simp: bind_eq_Some_conv split: if_splits)
      have "isl m" using spec [OF never, of c] rc by simp
      then have "f accept receive send t e1 w = Some r" using b by (cases m) auto
      then show False using IH never n by blast
    qed
  qed
  then show ?thesis using assms(2) by blast
qed

text \<open>No message completes a task of \<open>ProcessPeersClient\<close> and nothing completes one of \<open>ThreadClient\<close>.\<close>

lemma pc_onMessageReceived_nothing [simp]:
  "(case m of Inl _ \<Rightarrow> t | Inr ty \<Rightarrow> pc_onMessageReceived ty t) = t"
  by (simp add: pc_onMessageReceived_def split: sum.split)

lemma pc_wait_never:
  assumes "pc_waitUntilCurrentTaskComplete receive t s = Some r"
  shows "pc_isComplete t"
  by (rule pc_waitUntilCurrentTaskComplete.raw_induct [OF _ assms])
    (auto simp: bind_eq_Some_conv Let_def split: if_splits)

lemma tc_wait_never:
  fixes c :: "'s thread_client"
  assumes "tc_wait_loop receive task c = Some r" and "task = mSystemCallTask \<or> task = mGetAndReserveMemoryTask"
  shows "tc_isComplete (task c)"
proof -
  let ?P = "\<lambda>task (c :: 's thread_client). (task = mSystemCallTask \<or> task = mGetAndReserveMemoryTask) \<longrightarrow> tc_isComplete (task c)"
  have "?P task c"
  proof (rule tc_wait_loop.raw_induct [OF _ assms(1)])
    fix f and receive :: "'s \<Rightarrow> ((receive_message_error + 16 word) \<times> 's) option" and task and c r :: "'s thread_client"
    assume IH: "\<And>receive task c r. f receive task c = Some r \<Longrightarrow> ?P task c"
      and body: "receive (mThreadOwnerStream c) \<bind> (\<lambda>(_, stream). let c1 = c\<lparr>mThreadOwnerStream := stream\<rparr>
        in if tc_isComplete (task c1) then Some c1 else f receive task c1) = Some r"
    obtain s where "tc_isComplete (task (c\<lparr>mThreadOwnerStream := s\<rparr>)) \<or> f receive task (c\<lparr>mThreadOwnerStream := s\<rparr>) = Some r"
      using body by (auto simp: bind_eq_Some_conv Let_def split: if_splits)
    then have "tc_isComplete (task (c\<lparr>mThreadOwnerStream := s\<rparr>)) \<or> ?P task (c\<lparr>mThreadOwnerStream := s\<rparr>)" using IH by blast
    then show "?P task c" by auto
  qed
  then show ?thesis using assms(2) by blast
qed

section \<open>Properties\<close>


definition stream_receive ::
  "('env \<Rightarrow> (Streams.receive_error + byte list) \<times> 'env) \<Rightarrow> 'env \<times> input_stream
     \<Rightarrow> ((receive_message_error + 16 word) \<times> 'env \<times> input_stream) option" where
  "stream_receive receiveData c = ms_receiveMessage receiveData (fst c) (snd c)"

lemma stream_receive_no_message: "pred_option (\<lambda>x. isl (fst x)) (stream_receive receiveData c)"
  by (cases "stream_receive receiveData c")
    (auto simp: stream_receive_def ms_receiveMessage_def IsValidMessageType_def bind_eq_Some_conv split: if_splits)

text \<open>
  \<open>PeerLookupServer\<close> answers the peers that look for a host, in their order, up to the first
  client whose message cannot be received; that client ends the server for all later ones. Only if
  no such client comes does the server run on. With the stream's own \<open>receiveMessage\<close>, which yields no
  message, the first client ends it.
\<close>

theorem lookup_server_run:
  assumes "\<And>c. c \<in> set cs \<Longrightarrow> receive c = Some (message c, rest c)"
  shows "pl_run accept_list receive sendPropose cs w =
           (case dropWhile (\<lambda>c. \<not> isl (message c)) cs of
              [] \<Rightarrow> None
            | c # later \<Rightarrow> map_option (Pair later)
                (deliver_all sendPropose (lookups message rest (takeWhile (\<lambda>c. \<not> isl (message c)) cs)) w))
       \<and> (stream_receive receiveData c = Some m \<longrightarrow>
            pl_run accept_list (stream_receive receiveData) sendAny (c # later) w = Some (later, w))"
proof (intro conjI impI)
  assume m: "stream_receive receiveData c = Some m"
  then obtain e c1 where "m = (Inl e, c1)" using stream_receive_no_message [of receiveData c] by (cases m) (auto simp: isl_def)
  then show "pl_run accept_list (stream_receive receiveData) sendAny (c # later) w = Some (later, w)"
    using m by (subst pl_run.simps) simp
qed (rule pl_run_list [OF assms])

text \<open>
  Requests that block for ever. Stopping, killing or continuing a thread returns at once when the
  thread is not known, with nothing sent; for a thread in the table it never returns, whatever the
  peer answers, as no message completes the task. A system call or a reservation of memory over a
  \<open>ThreadClient\<close> never returns either. And \<open>runThread\<close> with the stream's own \<open>receiveMessage\<close> never
  returns the first time, since no message is ever received.
\<close>

theorem requests_never_return:
  assumes "sv_repr conns cs m" and "sv_counted cs m"
  shows "(if m i = None
          then pc_stopRemoteThread createStream sendMessage receive conns i w = Some (pc_task_of StopRemoteThread, w)
             \<and> pc_killRemoteThread createStream sendMessage receive conns i w = Some (pc_task_of KillRemoteThread, w)
             \<and> pc_continueRemoteThread createStream sendMessage receive conns i w = Some (pc_task_of ContinueRemoteThread, w)
          else pc_stopRemoteThread createStream sendMessage receive conns i w = None
             \<and> pc_killRemoteThread createStream sendMessage receive conns i w = None
             \<and> pc_continueRemoteThread createStream sendMessage receive conns i w = None)
       \<and> tc_doSystemCall send receive (tc_new stream) = None
       \<and> tc_getAndReserveMemory send receive (tc_new stream) = None
       \<and> gp_runThread createGlobal sendLookup serverFromStream accept (stream_receive receiveData) sendPropose sendAccept rt_new w = None"
proof (intro conjI)
  have never: "pc_waitUntilCurrentTaskComplete receive (pc_task_of ty) s = None" for ty s
    using pc_wait_never [of receive "pc_task_of ty" s] by (cases "pc_waitUntilCurrentTaskComplete receive (pc_task_of ty) s") (auto simp: pc_task_of_def)
  have all: "pc_sendThreadMessageAndWait createStream sendMessage receive conns i d (pc_task_of ty) w =
      (if m i = None then Some (False, pc_task_of ty, w) else None)" for d ty
    by (simp add: pc_sendThreadMessageAndWait_def sv_find_run [OF assms] never split: option.split prod.split)
      (auto simp: bind_eq_None_conv)
  show "if m i = None
        then pc_stopRemoteThread createStream sendMessage receive conns i w = Some (pc_task_of StopRemoteThread, w)
           \<and> pc_killRemoteThread createStream sendMessage receive conns i w = Some (pc_task_of KillRemoteThread, w)
           \<and> pc_continueRemoteThread createStream sendMessage receive conns i w = Some (pc_task_of ContinueRemoteThread, w)
        else pc_stopRemoteThread createStream sendMessage receive conns i w = None
           \<and> pc_killRemoteThread createStream sendMessage receive conns i w = None
           \<and> pc_continueRemoteThread createStream sendMessage receive conns i w = None"
    by (simp add: pc_stopRemoteThread_def pc_killRemoteThread_def pc_continueRemoteThread_def all)
  show "tc_doSystemCall send receive (tc_new stream) = None"
    by (rule ccontr)
      (auto simp: tc_doSystemCall_def tc_waitUntilTaskComplete_def bind_eq_Some_conv tc_new_def dest!: tc_wait_never)
  show "tc_getAndReserveMemory send receive (tc_new stream) = None"
    by (rule ccontr)
      (auto simp: tc_getAndReserveMemory_def tc_waitUntilTaskComplete_def bind_eq_Some_conv tc_new_def dest!: tc_wait_never)
  show "gp_runThread createGlobal sendLookup serverFromStream accept (stream_receive receiveData) sendPropose sendAccept rt_new w = None"
  proof -
    have "gp_waitForTask accept (stream_receive receiveData) sendPropose rt_new e v = None" for e v
      using gp_wait_needs_message [of accept "stream_receive receiveData" sendPropose rt_new e v, OF _ stream_receive_no_message]
      by (cases "gp_waitForTask accept (stream_receive receiveData) sendPropose rt_new e v") (auto simp: rt_new_def)
    then show ?thesis by (auto simp: gp_runThread_def split: prod.splits Option.bind_splits)
  qed
qed


lemma lookup_server_run_witness:
  "pl_run accept_list (\<lambda>c. Some (fst c, c)) (\<lambda>c w. Some (w @ [snd c]))
     [(Inr (type_code RunThreadPeerLookup), 1 :: nat), (Inr (type_code StopThread), 2), (Inl ReceiveMessageOther, 3),
      (Inr (type_code RunThreadPeerLookup), 4)] [] = Some ([(Inr (type_code RunThreadPeerLookup), 4)], [1])"
  using lookup_server_run [where receive = "\<lambda>c. Some (fst c, c)" and message = fst and rest = "\<lambda>c. c" and w = "[]"
      and cs = "[(Inr (type_code RunThreadPeerLookup), 1 :: nat), (Inr (type_code StopThread), 2), (Inl ReceiveMessageOther, 3),
        (Inr (type_code RunThreadPeerLookup), 4)]" and sendPropose = "\<lambda>c w. Some (w @ [snd c])", THEN conjunct1]
  by (simp add: sent_def)

lemma requests_never_return_witness:
  "\<exists>conns :: nat other_servers.
     pc_stopRemoteThread (\<lambda>i w. (i, w)) (\<lambda>msg s w. Some (s, w @ [msg])) (\<lambda>s. Some (Inr (type_code StopThreadOK), s)) conns 1 [] = None
   \<and> pc_stopRemoteThread (\<lambda>i w. (i, w)) (\<lambda>msg s w. Some (s, w @ [msg])) (\<lambda>s. Some (Inr (type_code StopThreadOK), s)) conns 3 []
       = Some (pc_task_of StopRemoteThread, [])"
proof -
  obtain a and s :: "nat other_servers" where r: "sv_repr s [(a, \<lparr>conn_info = 7, referenceCount = 2\<rparr>)] [1 \<mapsto> a, 2 \<mapsto> a]"
    and c: "sv_counted [(a, \<lparr>conn_info = 7 :: nat, referenceCount = 2\<rparr>)] [1 \<mapsto> a, 2 \<mapsto> a]" using sample_peers by blast
  note never = requests_never_return [OF r c, where createStream = "\<lambda>i w. (i, w)" and w = "[]"
      and sendMessage = "\<lambda>msg s w. Some (s, w @ [msg])" and receive = "\<lambda>s. Some (Inr (type_code StopThreadOK), s)", THEN conjunct1]
  show ?thesis using never [of 1] never [of 3] by (intro exI [of _ s]) simp
qed

end
