(* ===== verification/KernelMemory.thy ===== *)
theory KernelMemory
  imports ZqPrelude Variants "HOL-Library.Multiset"
begin

unbundle bit_operations_syntax

text \<open>
  Platforms/Linux/CppCore/Memory.c and Platforms/Linux/OS/Memory.hpp: mapping user memory into the
  kernel and kernel memory into a process. The functions of the Linux kernel are the fields of
  \<open>kernel_mm\<close>, with \<open>'k\<close> the kernel's state and \<open>'p\<close> its pages; a lock that is never granted has the
  value \<open>None\<close>. An array that \<open>kmalloc\<close> gives has slots without a value until they are written.
\<close>

section \<open>The kernel's functions\<close>

datatype pgprot = PAGE_NONE | PAGE_KERNEL_RO | PAGE_KERNEL_RX | PAGE_SHARED | PAGE_SHARED_EXEC

type_synonym zq_error = "32 word"
type_synonym address = "64 word"

text \<open>A mapping is of no file, or of one whose operations are \<open>kernel_memory_fops\<close>; its creation and release are left out.\<close>

datatype mmap_file = NoFile | KernelMemoryFile

record vm_area =
  vm_start :: address
  vm_pgoff :: address

text \<open>
  \<open>kmalloc\<close> says whether there is memory. \<open>get_user_pages\<close> gives its result and the pages it pinned,
  which it stores at the beginning of the array; \<open>vm_mmap\<close> gives the address, or a negative error
  number, and the area of the process.
\<close>

record ('p, 'k) kernel_mm =
  k_kmalloc :: "address \<Rightarrow> 'k \<Rightarrow> bool \<times> 'k"
  k_kfree :: "'k \<Rightarrow> 'k"
  k_get_user_pages :: "address \<Rightarrow> address \<Rightarrow> 32 word \<Rightarrow> 'k \<Rightarrow> (32 word \<times> 'p list) \<times> 'k"
  k_get_page :: "'p \<Rightarrow> 'k \<Rightarrow> 'k"
  k_put_page :: "'p \<Rightarrow> 'k \<Rightarrow> 'k"
  k_vmap :: "'p option list option \<Rightarrow> address \<Rightarrow> pgprot \<Rightarrow> 'k \<Rightarrow> address option \<times> 'k"
  k_vunmap :: "address option \<Rightarrow> 'k \<Rightarrow> 'k"
  k_vmalloc_to_page :: "address \<Rightarrow> 'p option"
  k_vm_mmap :: "mmap_file \<Rightarrow> address \<Rightarrow> address \<Rightarrow> address \<Rightarrow> 'k \<Rightarrow> (address \<times> vm_area) \<times> 'k"
  k_vm_munmap :: "address \<Rightarrow> address \<Rightarrow> 'k \<Rightarrow> 'k"
  k_down_read :: "'k \<Rightarrow> 'k option"
  k_up_read :: "'k \<Rightarrow> 'k option"
  k_down_write :: "'k \<Rightarrow> 'k option"

definition ZQ_E_OK :: zq_error where "ZQ_E_OK = 0"
definition ZQ_E_MEM_FAULT :: zq_error where "ZQ_E_MEM_FAULT = 14"
definition ZQ_E_NO_MEMORY :: zq_error where "ZQ_E_NO_MEMORY = 12"

definition PAGE_MASK :: address where "PAGE_MASK = NOT 4095"

section \<open>Platforms/Linux/CppCore/Memory.c\<close>

text \<open>An invalid protection is reported as a bug and read as none.\<close>

definition memory_prot_to_pgprot_kernel :: "address \<Rightarrow> pgprot" where
  "memory_prot_to_pgprot_kernel protection =
     (if protection = 0 then PAGE_NONE
      else if protection = 1 then PAGE_KERNEL_RO
      else if protection = 4 \<or> protection = 5 then PAGE_KERNEL_RX
      else if protection = 2 \<or> protection = 3 then PAGE_SHARED
      else if protection = 6 \<or> protection = 7 then PAGE_SHARED_EXEC
      else PAGE_NONE)"

definition ZqMmAllocateUserMemory ::
  "('p, 'k) kernel_mm \<Rightarrow> address \<Rightarrow> address \<Rightarrow> 'k \<Rightarrow> (zq_error + address) \<times> 'k" where
  "ZqMmAllocateUserMemory mm len protection k =
     (let ((addr, _), k1) = k_vm_mmap mm NoFile len protection 0 k
      in ((if addr = 0 then Inl ZQ_E_NO_MEMORY else Inr addr), k1))"

definition ZqMmDeallocateUserMemory :: "('p, 'k) kernel_mm \<Rightarrow> address \<Rightarrow> address \<Rightarrow> 'k \<Rightarrow> 'k" where
  "ZqMmDeallocateUserMemory mm addr len k = k_vm_munmap mm addr len k"

datatype vm_fault = VM_FAULT_SIGSEGV | VM_FAULT_MAJOR

text \<open>The result, the page that the fault gets, and the kernel.\<close>

definition kernel_memory_vma_fault ::
  "('p, 'k) kernel_mm \<Rightarrow> vm_area \<Rightarrow> address \<Rightarrow> 'k \<Rightarrow> (vm_fault \<times> 'p option) \<times> 'k" where
  "kernel_memory_vma_fault mm vma addr k =
     (let byte_offset_in_kernel_memory = (addr - vm_start vma) + push_bit 12 (vm_pgoff vma)
      in case k_vmalloc_to_page mm byte_offset_in_kernel_memory of
           None \<Rightarrow> ((VM_FAULT_SIGSEGV, None), k)
         | Some page \<Rightarrow> ((VM_FAULT_MAJOR, Some page), k_get_page mm page k))"

record to_user_map =
  tu_sourceAddress :: address
  tu_length :: address
  tu_protection :: address
  tu_destinationAddress :: address

text \<open>The area is the one that the callback \<open>kernel_memory_mmap\<close> gave its fault handler.\<close>

definition ZqMmMapKernelToUser ::
  "('p, 'k) kernel_mm \<Rightarrow> to_user_map \<Rightarrow> 'k \<Rightarrow> zq_error \<times> to_user_map \<times> vm_area \<times> 'k" where
  "ZqMmMapKernelToUser mm c k =
     (let ((addr, vma), k1) = k_vm_mmap mm KernelMemoryFile (tu_length c) (tu_protection c) (tu_sourceAddress c) k
      in (ZQ_E_OK, c\<lparr>tu_destinationAddress := addr\<rparr>, vma, k1))"

definition ZqMmLockUserMemoryRead :: "('p, 'k) kernel_mm \<Rightarrow> 'k \<Rightarrow> 'k option" where
  "ZqMmLockUserMemoryRead mm k = k_down_read mm k"

definition ZqMmUnlockUserMemoryRead :: "('p, 'k) kernel_mm \<Rightarrow> 'k \<Rightarrow> 'k option" where
  "ZqMmUnlockUserMemoryRead mm k = k_up_read mm k"

definition ZqMmLockUserMemoryWrite :: "('p, 'k) kernel_mm \<Rightarrow> 'k \<Rightarrow> 'k option" where
  "ZqMmLockUserMemoryWrite mm k = k_down_write mm k"

definition ZqMmUnlockUserMemoryWrite :: "('p, 'k) kernel_mm \<Rightarrow> 'k \<Rightarrow> 'k option" where
  "ZqMmUnlockUserMemoryWrite mm k = k_down_write mm k"

text \<open>Putting a page of an array reads its slot.\<close>

fun put_slots :: "('p, 'k) kernel_mm \<Rightarrow> 'p option list \<Rightarrow> 'k \<Rightarrow> 'k option" where
  "put_slots mm [] k = Some k"
| "put_slots mm (None # ps) k = None"
| "put_slots mm (Some p # ps) k = put_slots mm ps (k_put_page mm p k)"

definition zq_put_pages :: "('p, 'k) kernel_mm \<Rightarrow> 'p option list option \<Rightarrow> address \<Rightarrow> 'k \<Rightarrow> 'k option" where
  "zq_put_pages mm pages pages_count k =
     (case pages of
        None \<Rightarrow> if pages_count = 0 then Some k else None
      | Some ps \<Rightarrow> if unat pages_count \<le> length ps then put_slots mm (take (unat pages_count) ps) k else None)"

record 'p to_kernel_map =
  tk_sourceAddress :: address
  tk_length :: address
  tk_protection :: address
  tk_destinationAddress :: "address option"
  tk_pagesArray :: "'p option list option"
  tk_pagesArraySize :: address

definition tk_pagesCount :: "address \<Rightarrow> address \<Rightarrow> address" where
  "tk_pagesCount sourceAddress len =
     (let firstPage = drop_bit 12 (sourceAddress AND PAGE_MASK);
          lastPage = drop_bit 12 ((sourceAddress + len - 1) AND PAGE_MASK)
      in lastPage - firstPage)"

text \<open>Writing the pinned pages to the beginning of the array; a null array gets none of them.\<close>

definition store_pages :: "'p list \<Rightarrow> 'p option list option \<Rightarrow> 'p option list option" where
  "store_pages pinned = map_option (\<lambda>ps. map Some pinned @ drop (length pinned) ps)"

text \<open>
  \<open>ret\<close> is an \<open>int\<close> that is compared with an unsigned size. \<open>FOLL_GET\<close> is 4 and \<open>FOLL_WRITE\<close> 1.
\<close>

definition ZqMmMapUserToKernel ::
  "('p, 'k) kernel_mm \<Rightarrow> 'p to_kernel_map \<Rightarrow> 'k \<Rightarrow> (zq_error \<times> 'p to_kernel_map \<times> 'k) option" where
  "ZqMmMapUserToKernel mm c k =
     (let pagesCount = tk_pagesCount (tk_sourceAddress c) (tk_length c);
          (allocated, k1) = k_kmalloc mm (pagesCount * 8) k;
          pagesArray = (if allocated then Some (replicate (unat pagesCount) None) else None)
      in do {
        k2 \<leftarrow> ZqMmLockUserMemoryRead mm k1;
        let ((ret, pinned), k3) = k_get_user_pages mm (tk_sourceAddress c) pagesCount
          (4 OR (if tk_protection c AND 2 \<noteq> 0 then 1 else 0)) k2;
        let pages = store_pages pinned pagesArray;
        let c1 = c\<lparr>tk_pagesArray := pages, tk_pagesArraySize := pagesCount\<rparr>;
        (if scast ret \<noteq> pagesCount then do {
           k4 \<leftarrow> (if 0 <s ret then zq_put_pages mm pages (scast ret) k3 else Some k3);
           k5 \<leftarrow> ZqMmUnlockUserMemoryRead mm k4;
           Some (ret, c1, k_kfree mm k5)
         }
         else do {
           k4 \<leftarrow> ZqMmUnlockUserMemoryRead mm k3;
           let (destination, k5) = k_vmap mm pages pagesCount (memory_prot_to_pgprot_kernel (tk_protection c)) k4;
           Some ((if destination = None then ZQ_E_MEM_FAULT else ZQ_E_OK), c1\<lparr>tk_destinationAddress := destination\<rparr>, k5)
         })
      })"

definition ZqMmUnmapUserToKernel :: "('p, 'k) kernel_mm \<Rightarrow> 'p to_kernel_map \<Rightarrow> 'k \<Rightarrow> 'k option" where
  "ZqMmUnmapUserToKernel mm c k = do {
     k1 \<leftarrow> zq_put_pages mm (tk_pagesArray c) (tk_pagesArraySize c) k;
     Some (k_vunmap mm (tk_destinationAddress c) (k_kfree mm k1))
   }"

section \<open>Platforms/Linux/OS/Memory.hpp\<close>

text \<open>The allocators: neither looks at a null or negative address.\<close>

definition os_kernel_Allocate :: "(address \<Rightarrow> 'k \<Rightarrow> address option \<times> 'k) \<Rightarrow> address \<Rightarrow> 'k \<Rightarrow> (zq_error + address option) \<times> 'k" where
  "os_kernel_Allocate zqAllocate len k = (let (addr, k1) = zqAllocate len k in (Inr addr, k1))"

definition os_user_Allocate :: "('p, 'k) kernel_mm \<Rightarrow> address \<Rightarrow> address \<Rightarrow> 'k \<Rightarrow> (zq_error + address) \<times> 'k" where
  "os_user_Allocate mm len protection k =
     (case ZqMmAllocateUserMemory mm len protection k of
        (Inl result, k1) \<Rightarrow> (Inl result, k1)
      | (Inr addressResult, k1) \<Rightarrow> (Inr addressResult, k1))"

text \<open>
  \<open>Map::UserToKernel\<close> holds its context in an \<open>Optional\<close>. \<open>Create\<close> leaves the protection and the other
  fields of the context as they were on the stack, which \<open>stack\<close> gives.
\<close>

type_synonym 'p user_to_kernel = "'p to_kernel_map optional"

definition uk_Create ::
  "('p, 'k) kernel_mm \<Rightarrow> 'p to_kernel_map \<Rightarrow> address \<Rightarrow> address \<Rightarrow> 'k \<Rightarrow> ((zq_error + 'p user_to_kernel) \<times> 'k) option" where
  "uk_Create mm stack userAddress len k = do {
     (result, kernelMap, k1) \<leftarrow> ZqMmMapUserToKernel mm (stack\<lparr>tk_sourceAddress := userAddress, tk_length := len\<rparr>) k;
     Some (if result = ZQ_E_OK then Inr (op_of kernelMap) else Inl result, k1)
   }"

definition uk_move_construct :: "'p user_to_kernel \<Rightarrow> ('p user_to_kernel \<times> 'p user_to_kernel) option" where
  "uk_move_construct other = op_move_construct other"

definition uk_destroy :: "('p, 'k) kernel_mm \<Rightarrow> 'p user_to_kernel \<Rightarrow> 'k \<Rightarrow> 'k option" where
  "uk_destroy mm u k =
     (if op_isValid u then Option.bind (op_get u) (\<lambda>c. ZqMmUnmapUserToKernel mm c k) else Some k)"

definition uk_getKernelAddress :: "'p user_to_kernel \<Rightarrow> address option option" where
  "uk_getKernelAddress u = map_option tk_destinationAddress (op_get u)"

definition uk_getUserAddress :: "'p user_to_kernel \<Rightarrow> address option" where
  "uk_getUserAddress u = map_option tk_sourceAddress (op_get u)"

definition uk_getMapLength :: "'p user_to_kernel \<Rightarrow> address option" where
  "uk_getMapLength u = map_option tk_length (op_get u)"

text \<open>\<open>Map::KernelToUser\<close>; its unmapping is not defined anywhere and is an argument.\<close>

type_synonym kernel_to_user = "to_user_map optional"

definition ku_Create ::
  "('p, 'k) kernel_mm \<Rightarrow> to_user_map \<Rightarrow> address \<Rightarrow> address \<Rightarrow> 'k \<Rightarrow> (zq_error + kernel_to_user) \<times> vm_area \<times> 'k" where
  "ku_Create mm stack kernelAddress len k =
     (case ZqMmMapKernelToUser mm (stack\<lparr>tu_sourceAddress := kernelAddress, tu_length := len\<rparr>) k of
        (result, context, vma, k1) \<Rightarrow> (if result = ZQ_E_OK then Inr (op_of context) else Inl result, vma, k1))"

definition ku_destroy :: "(to_user_map \<Rightarrow> 'k \<Rightarrow> 'k option) \<Rightarrow> kernel_to_user \<Rightarrow> 'k \<Rightarrow> 'k option" where
  "ku_destroy unmap u k = (if op_isValid u then Option.bind (op_get u) (\<lambda>c. unmap c k) else Some k)"

definition ku_getKernelAddress :: "kernel_to_user \<Rightarrow> address option" where
  "ku_getKernelAddress u = map_option tu_sourceAddress (op_get u)"

definition ku_getUserAddress :: "kernel_to_user \<Rightarrow> address option" where
  "ku_getUserAddress u = map_option tu_destinationAddress (op_get u)"

section \<open>What the kernel promises\<close>

text \<open>
  \<open>pins k\<close> are the references on pages, \<open>sem k\<close> the number of readers and whether there is a writer of
  the process's memory. As documented, \<open>get_user_pages\<close> gives the number of the pages it pinned, which
  may be fewer than asked for, or a negative error, and 0 only when asked for none.
\<close>

definition mm_documented :: "('p, 'k) kernel_mm \<Rightarrow> ('k \<Rightarrow> 'p multiset) \<Rightarrow> ('k \<Rightarrow> nat \<times> bool) \<Rightarrow> bool" where
  "mm_documented mm pins sem \<longleftrightarrow>
     (\<forall>a n f k ret ps k'. k_get_user_pages mm a n f k = ((ret, ps), k') \<longrightarrow>
        pins k' = pins k + mset ps \<and> sem k' = sem k \<and> length ps \<le> unat n
        \<and> (if 0 <s ret then unat ret = length ps else ps = []) \<and> (ret = 0 \<longrightarrow> n = 0))
   \<and> (\<forall>p k. pins (k_put_page mm p k) = pins k - {#p#} \<and> sem (k_put_page mm p k) = sem k)
   \<and> (\<forall>n k. fst (k_kmalloc mm n k) \<and> pins (snd (k_kmalloc mm n k)) = pins k \<and> sem (snd (k_kmalloc mm n k)) = sem k)
   \<and> (\<forall>k. pins (k_kfree mm k) = pins k \<and> sem (k_kfree mm k) = sem k)
   \<and> (\<forall>ps n pr k. pins (snd (k_vmap mm ps n pr k)) = pins k \<and> sem (snd (k_vmap mm ps n pr k)) = sem k)
   \<and> (\<forall>a k. pins (k_vunmap mm a k) = pins k \<and> sem (k_vunmap mm a k) = sem k)
   \<and> (\<forall>k. (\<not> snd (sem k) \<longrightarrow> k_down_read mm k \<noteq> None)
        \<and> (\<forall>k'. k_down_read mm k = Some k' \<longrightarrow> pins k' = pins k \<and> \<not> snd (sem k) \<and> sem k' = (Suc (fst (sem k)), False)))
   \<and> (\<forall>k. 0 < fst (sem k) \<longrightarrow> (\<exists>k'. k_up_read mm k = Some k' \<and> pins k' = pins k \<and> sem k' = (fst (sem k) - 1, snd (sem k))))
   \<and> (\<forall>k k'. k_down_write mm k = Some k' \<longrightarrow> sem k = (0, False) \<and> sem k' = (0, True))"

lemma doc_get_user_pages:
  assumes "mm_documented mm pins sem" and "k_get_user_pages mm a n f k = ((ret, ps), k')"
  shows "pins k' = pins k + mset ps" "sem k' = sem k" "length ps \<le> unat n"
    "if 0 <s ret then unat ret = length ps else ps = []" "ret = 0 \<Longrightarrow> n = 0"
  using assms by (simp_all add: mm_documented_def)

lemma doc_simps:
  assumes "mm_documented mm pins sem"
  shows "pins (k_put_page mm p k) = pins k - {#p#}" "sem (k_put_page mm p k) = sem k"
    "fst (k_kmalloc mm n k)" "pins (snd (k_kmalloc mm n k)) = pins k" "sem (snd (k_kmalloc mm n k)) = sem k"
    "pins (k_kfree mm k) = pins k" "sem (k_kfree mm k) = sem k"
    "pins (snd (k_vmap mm ps n pr k)) = pins k" "sem (snd (k_vmap mm ps n pr k)) = sem k"
    "pins (k_vunmap mm v k) = pins k" "sem (k_vunmap mm v k) = sem k"
  using assms by (simp_all add: mm_documented_def)

lemma doc_down_read:
  assumes "mm_documented mm pins sem" and "\<not> snd (sem k)"
  obtains k' where "k_down_read mm k = Some k'" "pins k' = pins k" "sem k' = (Suc (fst (sem k)), False)"
proof -
  have "k_down_read mm k \<noteq> None" and "k_down_read mm k = Some k' \<Longrightarrow> pins k' = pins k \<and> sem k' = (Suc (fst (sem k)), False)" for k'
    using assms by (simp_all add: mm_documented_def)
  then show thesis using that by (cases "k_down_read mm k") auto
qed

lemma doc_up_read:
  assumes "mm_documented mm pins sem" and "0 < fst (sem k)"
  obtains k' where "k_up_read mm k = Some k'" "pins k' = pins k" "sem k' = (fst (sem k) - 1, snd (sem k))"
proof -
  have "\<exists>k'. k_up_read mm k = Some k' \<and> pins k' = pins k \<and> sem k' = (fst (sem k) - 1, snd (sem k))"
    using assms by (simp add: mm_documented_def)
  then show thesis using that by blast
qed

lemma doc_down_write:
  "mm_documented mm pins sem \<Longrightarrow> k_down_write mm k = Some k' \<Longrightarrow> sem k = (0, False) \<and> sem k' = (0, True)"
  unfolding mm_documented_def by blast

text \<open>The write lock of a process's memory is never given back: unlocking locks it again and waits for ever.\<close>

lemma user_memory_write_unlock:
  assumes "mm_documented mm pins sem" and "ZqMmLockUserMemoryWrite mm k = Some k'"
  shows "ZqMmUnlockUserMemoryWrite mm k' = None"
proof (rule ccontr)
  assume "ZqMmUnlockUserMemoryWrite mm k' \<noteq> None"
  then obtain k'' where "k_down_write mm k' = Some k''" by (auto simp: ZqMmUnlockUserMemoryWrite_def)
  moreover have "k_down_write mm k = Some k'" using assms(2) by (simp add: ZqMmLockUserMemoryWrite_def)
  ultimately show False using doc_down_write [OF assms(1)] by (metis prod.inject)
qed

section \<open>Pages\<close>

lemma drop_page_mask: "drop_bit 12 (a AND PAGE_MASK) = drop_bit 12 a"
proof -
  have "PAGE_MASK = NOT (mask 12)" by (simp add: PAGE_MASK_def mask_eq_exp_minus_1)
  moreover have "drop_bit 12 (a AND NOT (mask 12)) = drop_bit 12 a" by (rule bit_word_eqI) (auto simp: bit_simps dest: bit_imp_le_length)
  ultimately show ?thesis by simp
qed

lemma unat_page: "unat (drop_bit 12 a :: address) = unat a div 4096"
  by (simp add: drop_bit_eq_div unat_div)

lemma tk_pagesCount_run:
  assumes "0 < len" and "unat a + unat len \<le> 2 ^ 64"
  shows "unat (tk_pagesCount a len) = (unat a + unat len - 1) div 4096 - unat a div 4096"
proof -
  have l: "0 < unat len" using assms(1) by (simp add: word_less_nat_alt)
  have "unat (a + len - 1) = unat a + unat len - 1"
  proof (cases "unat a + unat len = 2 ^ 64")
    case True
    then have "unat (a + len) = 0" by (simp add: unat_word_ariths)
    then have "a + len = 0" by (simp only: unat_eq_0)
    then show ?thesis using True unat_neg_of_nat [of 1] by simp
  next
    case False
    then have "unat (a + len) = unat a + unat len" using assms(2) by (simp add: unat_word_ariths)
    then show ?thesis using l by (subst unat_sub) (simp_all add: word_le_nat_alt)
  qed
  then show ?thesis unfolding tk_pagesCount_def Let_def drop_page_mask
    using l by (subst unat_sub) (simp_all add: word_le_nat_alt unat_page div_le_mono)
qed

section \<open>Pinning\<close>

lemma put_slots_Some:
  assumes "mm_documented mm pins sem"
  shows "\<exists>k'. put_slots mm (map Some ps) k = Some k' \<and> pins k' = pins k - mset ps \<and> sem k' = sem k"
proof (induction ps arbitrary: k)
  case (Cons p ps)
  from Cons [of "k_put_page mm p k"] show ?case by (auto simp: doc_simps [OF assms])
qed simp

lemma zq_put_pages_all:
  assumes "mm_documented mm pins sem" and "unat n = length ps"
  shows "\<exists>k'. zq_put_pages mm (Some (map Some ps @ rs)) n k = Some k' \<and> pins k' = pins k - mset ps \<and> sem k' = sem k"
  using put_slots_Some [OF assms(1), of ps k] assms(2) by (simp add: zq_put_pages_def)

lemma pages_less: "0 < len \<Longrightarrow> unat a + unat len \<le> 2 ^ 64 \<Longrightarrow> unat (tk_pagesCount a len) < 2 ^ 52"
  using unat_less_2p64 [of a] by (simp add: tk_pagesCount_run less_mult_imp_div_less)

text \<open>A page count that equals the \<open>int\<close> result of the kernel: the result is not negative.\<close>

lemma sint_nat:
  assumes "sint (ret :: 32 word) = int m"
  shows "unat ret = m" "unat (scast ret :: address) = m" "ret = 0 \<or> 0 <s ret"
proof -
  have m: "int m < 2 ^ 31" using assms sint_lt [of ret] by simp
  have "ret = of_int (sint ret)" by simp
  then have "ret = of_nat m" using assms by (simp only: of_int_of_nat_eq)
  then show "unat ret = m" using m by (simp add: unat_of_nat take_bit_nat_eq_self)
  have "(scast ret :: address) = of_nat m" by (simp add: scast_eq assms)
  then show "unat (scast ret :: address) = m" using m by (simp add: unat_of_nat take_bit_nat_eq_self)
  show "ret = 0 \<or> 0 <s ret" using assms \<open>ret = of_nat m\<close> by (cases m) (simp_all add: word_sless_alt)
qed

lemma scast_count:
  assumes "scast (ret :: 32 word) = (c :: address)" and "unat c < 2 ^ 52"
  shows "(ret = 0 \<or> 0 <s ret) \<and> unat c = unat ret"
proof -
  have c: "sint ret = sint c" using assms(1) by (auto simp: sint_up_scast is_up)
  have "int (unat c) < int (2 ^ 52)" using assms(2) by (simp only: of_nat_less_iff)
  then have "uint c < 2 ^ 52" and "0 \<le> uint c" by simp_all
  then have "signed_take_bit 63 (uint c) = uint c" by (intro signed_take_bit_int_eq_self; simp; linarith)
  then have "sint ret = int (unat c)" using c by (simp add: sint_uint)
  from sint_nat [OF this] show ?thesis by simp
qed

lemma scast_positive: "0 <s (ret :: 32 word) \<Longrightarrow> unat (scast ret :: address) = unat ret"
  using sint_nat [of ret "nat (sint ret)"] by (simp add: word_sless_alt)

text \<open>One run: with free memory lock and memory for the array it ends, and the lock is free again.\<close>

lemma map_user_to_kernel_run:
  assumes doc: "mm_documented mm pins sem" and free: "\<not> snd (sem k)"
    and range: "0 < tk_length c" "unat (tk_sourceAddress c) + unat (tk_length c) \<le> 2 ^ 64"
  defines "n \<equiv> tk_pagesCount (tk_sourceAddress c) (tk_length c)"
  obtains (pinned) ps e c' k' where "ZqMmMapUserToKernel mm c k = Some (e, c', k')" "sem k' = sem k"
      "length ps = unat n" "pins k' = pins k + mset ps" "tk_pagesArray c' = Some (map Some ps)"
      "tk_pagesArraySize c' = n" "e = ZQ_E_OK \<or> e = ZQ_E_MEM_FAULT"
    | (failed) e c' k' where "ZqMmMapUserToKernel mm c k = Some (e, c', k')" "sem k' = sem k"
      "pins k' = pins k" "e \<noteq> ZQ_E_OK"
proof -
  have small: "unat n < 2 ^ 52" unfolding n_def using pages_less range by simp
  have u: "sem k = (fst (sem k), False)" using free by (cases "sem k") auto
  obtain k1 where k1: "k_kmalloc mm (n * 8) k = (True, k1)" "pins k1 = pins k" "sem k1 = sem k"
    using doc_simps(3-5) [OF doc, of "n * 8" k] by (cases "k_kmalloc mm (n * 8) k") auto
  then obtain k2 where k2: "k_down_read mm k1 = Some k2" "pins k2 = pins k" "sem k2 = (Suc (fst (sem k)), False)"
    using doc_down_read [OF doc, of k1] free by metis
  let ?f = "4 OR (if tk_protection c AND 2 \<noteq> 0 then 1 else 0)"
  obtain ret ps k3 where g: "k_get_user_pages mm (tk_sourceAddress c) n ?f k2 = ((ret, ps), k3)" by (metis prod.collapse)
  note d = doc_get_user_pages [OF doc g]
  let ?pages = "map Some ps @ replicate (unat n - length ps) None"
  have store: "store_pages ps (Some (replicate (unat n) None)) = Some ?pages" by (simp add: store_pages_def)
  let ?c1 = "c\<lparr>tk_pagesArray := Some ?pages, tk_pagesArraySize := n\<rparr>"
  note run = ZqMmMapUserToKernel_def n_def [symmetric] ZqMmLockUserMemoryRead_def ZqMmUnlockUserMemoryRead_def Let_def
  show thesis
  proof (cases "scast ret = n")
    case True
    then have r: "ret = 0 \<or> 0 <s ret" "unat n = unat ret" using scast_count [OF True small] by simp_all
    then have len: "length ps = unat n" using d(4) by (auto split: if_splits)
    obtain k4 where k4: "k_up_read mm k3 = Some k4" "pins k4 = pins k3" "sem k4 = (fst (sem k), False)"
      using doc_up_read [OF doc, of k3] d(2) k2(3) by auto
    let ?pr = "memory_prot_to_pgprot_kernel (tk_protection c)"
    obtain v k5 where v: "k_vmap mm (Some ?pages) n ?pr k4 = (v, k5)" by fastforce
    have "pins k5 = pins k + mset ps" "sem k5 = sem k"
      using doc_simps(8,9) [OF doc, of "Some ?pages" n ?pr k4] v k4 d(1) k2(2) u by auto
    moreover have "ZqMmMapUserToKernel mm c k =
        Some ((if v = None then ZQ_E_MEM_FAULT else ZQ_E_OK), ?c1\<lparr>tk_destinationAddress := v\<rparr>, k5)"
      using True store k1(1) k2(1) g k4(1) v by (simp add: run)
    ultimately show thesis using pinned [of _ "?c1\<lparr>tk_destinationAddress := v\<rparr>" k5 ps] len by simp
  next
    case False
    obtain k4 where k4: "(if 0 <s ret then zq_put_pages mm (Some ?pages) (scast ret) k3 else Some k3) = Some k4"
      "pins k4 = pins k" "sem k4 = sem k3"
    proof (cases "0 <s ret")
      case True
      have "unat (scast ret :: address) = length ps" using True d(4) scast_positive by simp
      from zq_put_pages_all [OF doc this, of "replicate (unat n - length ps) None" k3] that True d(1) k2(2)
      show ?thesis by auto
    next
      case False
      then show ?thesis using that [of k3] d(1,4) k2(2) by simp
    qed
    obtain k5 where k5: "k_up_read mm k4 = Some k5" "pins k5 = pins k" "sem k5 = sem k"
      using doc_up_read [OF doc, of k4] d(2) k2(3) k4(2,3) u by auto
    have nz: "ret \<noteq> ZQ_E_OK" using d(5) False by (auto simp: ZQ_E_OK_def)
    moreover have "ZqMmMapUserToKernel mm c k = Some (ret, ?c1, k_kfree mm k5)"
      using False store k1(1) k2(1) g k4(1) k5(1) by (cases "0 <s ret") (simp_all add: run)
    ultimately show thesis using failed [of ret ?c1 "k_kfree mm k5"] k5 doc_simps(6,7) [OF doc, of k5] by simp
  qed
qed

section \<open>Properties\<close>


definition pages_of_range :: "address \<Rightarrow> address \<Rightarrow> nat set" where
  "pages_of_range a len = (\<lambda>i. (unat a + i) div 4096) ` {..<unat len}"

text \<open>
  \<open>MapUserToKernel\<close> counts one page too few. The bytes of a non-empty range lie on the pages from
  its first byte's to its last byte's; \<open>pagesCount\<close> is one less than their number, so the last page is
  never pinned, and for a range on one page no page is.
\<close>

theorem user_map_misses_last_page:
  assumes "0 < len" and "unat a + unat len \<le> 2 ^ 64"
  shows "card (pages_of_range a len) = Suc (unat (tk_pagesCount a len))"
proof -
  let ?f = "unat a div 4096" and ?l = "(unat a + unat len - 1) div 4096"
  have l: "0 < unat len" using assms(1) by (simp add: word_less_nat_alt)
  have "pages_of_range a len = {?f..?l}"
  proof (intro set_eqI iffI)
    fix p assume "p \<in> pages_of_range a len"
    then show "p \<in> {?f..?l}" by (auto simp: pages_of_range_def intro!: div_le_mono)
  next
    fix p assume p: "p \<in> {?f..?l}"
    show "p \<in> pages_of_range a len"
    proof (cases "p = ?f")
      case True
      then show ?thesis using l by (auto simp: pages_of_range_def intro!: image_eqI [of _ _ 0])
    next
      case False
      then have "?f < p" "p \<le> ?l" using p by auto
      then have "unat a < p * 4096" "p * 4096 \<le> unat a + unat len - 1"
        by (simp_all add: div_less_iff_less_mult less_eq_div_iff_mult_less_eq)
      then show ?thesis using l
        by (auto simp: pages_of_range_def intro!: image_eqI [of _ _ "p * 4096 - unat a"])
    qed
  qed
  moreover have "?f \<le> ?l" using l by (intro div_le_mono) simp
  ultimately show ?thesis using tk_pagesCount_run [OF assms] by (simp add: Suc_diff_le)
qed

text \<open>
  A mapping of page-aligned kernel memory into a process shows that memory: when \<open>vm_mmap\<close> keeps
  the offset it was given, in pages, as the area's offset, a fault at the byte \<open>i\<close> after the start
  of the area finds the page of the byte \<open>i\<close> after the kernel address and takes a reference on it, or
  is a segmentation fault when the kernel has no page there. \<open>MapKernelToUser\<close> reports success whatever
  \<open>vm_mmap\<close> returned.
\<close>

theorem kernel_to_user_faults:
  assumes "k_vm_mmap mm KernelMemoryFile (tu_length c) (tu_protection c) (tu_sourceAddress c) k
             = ((start, \<lparr>vm_start = start, vm_pgoff = drop_bit 12 (tu_sourceAddress c)\<rparr>), k1)"
    and "tu_sourceAddress c AND 4095 = 0"
  shows "\<exists>c' vma. ZqMmMapKernelToUser mm c k = (ZQ_E_OK, c', vma, k1) \<and> tu_destinationAddress c' = start
     \<and> (\<forall>i k2. kernel_memory_vma_fault mm vma (tu_destinationAddress c' + i) k2 =
          (case k_vmalloc_to_page mm (tu_sourceAddress c + i) of
             None \<Rightarrow> ((VM_FAULT_SIGSEGV, None), k2)
           | Some page \<Rightarrow> ((VM_FAULT_MAJOR, Some page), k_get_page mm page k2)))"
proof -
  let ?s = "tu_sourceAddress c"
  have "push_bit 12 (drop_bit 12 ?s) = ?s AND NOT (mask 12)"
    by (rule bit_word_eqI) (auto simp: bit_simps)
  also have "\<dots> = ?s"
  proof -
    have "(?s AND mask 12) OR (?s AND NOT (mask 12)) = ?s" by (rule bit_word_eqI) (auto simp: bit_simps)
    moreover have "?s AND mask 12 = 0" using assms(2) by (simp add: mask_eq_exp_minus_1)
    ultimately show ?thesis by simp
  qed
  finally have "push_bit 12 (drop_bit 12 ?s) = ?s" .
  then show ?thesis using assms(1) by (simp add: ZqMmMapKernelToUser_def kernel_memory_vma_fault_def add.commute)
qed

text \<open>
  A kernel with page 0 to 9 for user memory, of which the first two can be pinned at most; its state is
  the references on pages and the lock.
\<close>

definition sample_mm :: "(nat, nat multiset \<times> nat \<times> bool) kernel_mm" where
  "sample_mm = \<lparr>k_kmalloc = (\<lambda>n k. (True, k)), k_kfree = (\<lambda>k. k),
     k_get_user_pages = (\<lambda>a n f k. let m = min 2 (unat n); ps = map (\<lambda>i. unat a div 4096 + i) [0..<m]
       in ((of_nat m, ps), (fst k + mset ps, snd k))),
     k_get_page = (\<lambda>p k. (add_mset p (fst k), snd k)), k_put_page = (\<lambda>p k. (fst k - {#p#}, snd k)),
     k_vmap = (\<lambda>ps n pr k. (Some 0x1000, k)), k_vunmap = (\<lambda>a k. k),
     k_vmalloc_to_page = (\<lambda>a. if a < 0x5000 then Some (unat a div 4096) else None),
     k_vm_mmap = (\<lambda>file len pr off k. ((0x7000, \<lparr>vm_start = 0x7000, vm_pgoff = drop_bit 12 off\<rparr>), k)),
     k_vm_munmap = (\<lambda>a len k. k),
     k_down_read = (\<lambda>(ps, r, w). if w then None else Some (ps, Suc r, False)),
     k_up_read = (\<lambda>(ps, r, w). if r = 0 then None else Some (ps, r - 1, w)),
     k_down_write = (\<lambda>(ps, r, w). if r = 0 \<and> \<not> w then Some (ps, 0, True) else None)\<rparr>"

lemma sample_pinned:
  assumes "k_get_user_pages sample_mm a n f k = ((ret, ps), k')"
  shows "fst k' = fst k + mset ps" "snd k' = snd k" "length ps \<le> unat n"
    "if 0 <s ret then unat ret = length ps else ps = []" "ret = 0 \<longrightarrow> n = 0"
proof -
  let ?m = "min 2 (unat n)"
  have r: "ret = of_nat ?m" and ps: "ps = map (\<lambda>i. unat a div 4096 + i) [0..<?m]" and k': "k' = (fst k + mset ps, snd k)"
    using assms by (auto simp: sample_mm_def Let_def)
  have "?m = 0 \<or> ?m = 1 \<or> ?m = 2" by auto
  then have "(0 <s ret \<longleftrightarrow> 0 < ?m) \<and> unat ret = ?m \<and> (ret = 0 \<longrightarrow> ?m = 0)" unfolding r
    by (elim disjE) (simp_all add: word_sless_alt)
  then show "if 0 <s ret then unat ret = length ps else ps = []" "ret = 0 \<longrightarrow> n = 0" using ps by (auto simp: unat_eq_0 min_def split: if_splits)
  show "fst k' = fst k + mset ps" "snd k' = snd k" "length ps \<le> unat n" using k' ps by simp_all
qed

lemma sample_mm_documented: "mm_documented sample_mm fst snd"
  unfolding mm_documented_def
proof (intro conjI allI impI)
  fix a n f and k k' :: "nat multiset \<times> nat \<times> bool" and ret ps
  assume g: "k_get_user_pages sample_mm a n f k = ((ret, ps), k')"
  show "fst k' = fst k + mset ps" "snd k' = snd k" "length ps \<le> unat n"
    "if 0 <s ret then unat ret = length ps else ps = []" by (fact sample_pinned [OF g])+
  assume "ret = 0" then show "n = 0" using sample_pinned(5) [OF g] by blast
qed (auto simp: sample_mm_def split: prod.splits if_splits)


lemma user_map_misses_last_page_witness: "card (pages_of_range 0x1800 0x1000) = 2"
  using user_map_misses_last_page [of "0x1000" "0x1800"] tk_pagesCount_run [of "0x1000" "0x1800"] by simp

lemma kernel_to_user_faults_witness:
  "\<exists>c' vma. ZqMmMapKernelToUser sample_mm \<lparr>tu_sourceAddress = 0x3000, tu_length = 0x2000, tu_protection = 1, tu_destinationAddress = 0\<rparr>
        ({#}, 0, False) = (ZQ_E_OK, c', vma, ({#}, 0, False))
     \<and> kernel_memory_vma_fault sample_mm vma (tu_destinationAddress c' + 0x1234) ({#}, 0, False)
         = ((VM_FAULT_MAJOR, Some 4), ({#4#}, 0, False))"
proof -
  let ?c = "\<lparr>tu_sourceAddress = 0x3000, tu_length = 0x2000, tu_protection = 1, tu_destinationAddress = 0\<rparr>"
  have m: "k_vm_mmap sample_mm KernelMemoryFile (tu_length ?c) (tu_protection ?c) (tu_sourceAddress ?c) ({#}, 0, False)
      = ((0x7000, \<lparr>vm_start = 0x7000, vm_pgoff = drop_bit 12 (tu_sourceAddress ?c)\<rparr>), ({#}, 0, False))"
    by (simp add: sample_mm_def)
  have "tu_sourceAddress ?c AND 4095 = 0" by simp
  from kernel_to_user_faults [OF m this] obtain c' vma where
    r: "ZqMmMapKernelToUser sample_mm ?c ({#}, 0, False) = (ZQ_E_OK, c', vma, ({#}, 0, False))"
    and f: "\<And>i k2. kernel_memory_vma_fault sample_mm vma (tu_destinationAddress c' + i) k2 =
          (case k_vmalloc_to_page sample_mm (tu_sourceAddress ?c + i) of
             None \<Rightarrow> ((VM_FAULT_SIGSEGV, None), k2)
           | Some page \<Rightarrow> ((VM_FAULT_MAJOR, Some page), k_get_page sample_mm page k2))" by blast
  show ?thesis using r f [of "0x1234"] by (simp add: sample_mm_def)
qed

end
