(* ===== verification/MultiHashTables.thy ===== *)
theory MultiHashTables
  imports HashTables
begin

text \<open>
  Base/HashTable.hpp: \<open>MultiHashTable\<close>, the table that keeps several entries with one key. It calls
  members of its base class (\<open>hash\<close>, \<open>getTableIterator\<close>, \<open>lookupKeyInKeyList\<close>, \<open>find\<close>, \<open>mIsEqual\<close>) without
  qualification, which a compiler that looks names up in two phases rejects; they are read as these
  members. Its \<open>erase (key)\<close> calls an overload that its own name hides, and is left out.
\<close>

section \<open>Operations\<close>

definition mt_insert ::
  "('k \<Rightarrow> size_t) \<Rightarrow> ('k \<Rightarrow> 'k \<Rightarrow> bool) \<Rightarrow> 'k \<Rightarrow> 't \<Rightarrow> ('k, 't) ht_heap \<Rightarrow> hash_table
     \<Rightarrow> (ptr \<times> ('k, 't) ht_heap \<times> hash_table) option" where
  "mt_insert H E key v h t = do {
     slot \<leftarrow> ht_getTableIterator t (H key);
     firstKeyEntry \<leftarrow> table_at t slot;
     let isEmptyHashEntry = (firstKeyEntry = ll_cend);
     where_it \<leftarrow> (if isEmptyHashEntry then Some (mBeforeEnd (mKeysList t))
       else do {
         keyEntry \<leftarrow> ht_lookupKeyInKeyList E h firstKeyEntry key;
         Some (if keyEntry \<noteq> ll_cend then keyEntry else firstKeyEntry)
       });
     (newKeyEntry, h1, l1) \<leftarrow>
       ll_emplace_after where_it \<lparr>pt_first = key, pt_second = v, tableIterator = slot\<rparr> h (mKeysList t);
     let t1 = t\<lparr>mKeysList := l1\<rparr>;
     t2 \<leftarrow> (if isEmptyHashEntry then table_set t1 slot newKeyEntry else Some t1);
     Some (newKeyEntry, h1, t2)
   }"

text \<open>The loops of \<open>count\<close> and \<open>getEqualRange\<close>: the iterator after the equal keys, and their number.\<close>

partial_function (option) mt_count_loop ::
  "('k \<Rightarrow> 'k \<Rightarrow> bool) \<Rightarrow> 'k \<Rightarrow> ('k, 't) ht_heap \<Rightarrow> ptr \<Rightarrow> size_t \<Rightarrow> (ptr \<times> size_t) option" where
  "mt_count_loop E key h iterator keyCount = do {
     it \<leftarrow> it_next h iterator;
     (if it = ll_cend then Some (it, keyCount + 1)
      else do {
        n \<leftarrow> it_deref h it;
        (if E key (pt_first n) then mt_count_loop E key h it (keyCount + 1)
         else Some (it, keyCount + 1))
      })
   }"

definition mt_count ::
  "('k \<Rightarrow> size_t) \<Rightarrow> ('k \<Rightarrow> 'k \<Rightarrow> bool) \<Rightarrow> 'k \<Rightarrow> ('k, 't) ht_heap \<Rightarrow> hash_table \<Rightarrow> size_t option" where
  "mt_count H E key h t = do {
     iterator \<leftarrow> ht_find H E key h t;
     (if iterator = ll_cend then Some 0
      else map_option snd (mt_count_loop E key h iterator 0))
   }"

definition mt_getEqualRange ::
  "('k \<Rightarrow> size_t) \<Rightarrow> ('k \<Rightarrow> 'k \<Rightarrow> bool) \<Rightarrow> 'k \<Rightarrow> ('k, 't) ht_heap \<Rightarrow> hash_table \<Rightarrow> (ptr \<times> ptr) option" where
  "mt_getEqualRange H E key h t = do {
     firstIterator \<leftarrow> ht_find H E key h t;
     (if firstIterator = ll_cend then Some (ll_cend, ll_cend)
      else map_option (\<lambda>r. (firstIterator, fst r)) (mt_count_loop E key h firstIterator 0))
   }"

section \<open>Insertion\<close>

text \<open>Where a new entry goes: after the first entry with its key, else the first of its slot, else at the end.\<close>

definition mt_split :: "('k \<Rightarrow> size_t) \<Rightarrow> hash_table \<Rightarrow> 'k \<Rightarrow> ('k, 't) entries \<Rightarrow> ('k, 't) entries \<times> ('k, 't) entries" where
  "mt_split H t key es =
     (let after = (\<lambda>P. (takeWhile (\<lambda>e. \<not> P e) es @ take 1 (dropWhile (\<lambda>e. \<not> P e) es), drop 1 (dropWhile (\<lambda>e. \<not> P e) es)))
      in if \<exists>e \<in> set es. e_key e = key then after (\<lambda>e. e_key e = key) else after (\<lambda>e. e_slot e = slot_of H t key))"

lemma split_first:
  assumes "\<exists>e \<in> set es. P e"
  obtains xs a n ys where "es = xs @ (a, n) # ys" "\<forall>e \<in> set xs. \<not> P e" "P (a, n)"
    "takeWhile (\<lambda>e. \<not> P e) es = xs" "dropWhile (\<lambda>e. \<not> P e) es = (a, n) # ys" "first_ptr (filter P es) None = Some a"
proof -
  obtain xs x ys where es: "es = xs @ x # ys" "\<forall>e \<in> set xs. \<not> P e" "P x"
    using split_list_first_prop [OF assms] by blast
  have "takeWhile (\<lambda>e. \<not> P e) es = xs" "dropWhile (\<lambda>e. \<not> P e) es = x # ys"
    using es by (simp_all add: takeWhile_append2 dropWhile_append2)
  moreover have "filter P xs = []" using es(2) by (simp add: filter_empty_conv)
  ultimately show thesis using that [of xs "fst x" "snd x" ys] es by simp
qed

lemma mt_insert_run:
  fixes key and v
  assumes inv: "mt_inv H h t es" and sp: "mt_split H t key es = (xs, ys)"
  defines "m \<equiv> \<lparr>pt_first = key, pt_second = v, tableIterator = slot_of H t key\<rparr>"
  shows "es = xs @ ys \<and> (\<exists>h' t'. mt_insert H (=) key v h t = Some (Some (brk h), h', t')
           \<and> mt_inv H h' t' (xs @ (brk h, m) # ys) \<and> length (mTable t') = length (mTable t))"
proof -
  let ?i = "slot_of H t key"
  note pre = mt_inv_getTableIterator [OF inv] mt_inv_table_at [OF inv]
  have lk: "ht_lookupKeyInKeyList (=) h (first_ptr (filter (\<lambda>e. e_slot e = ?i) es) None) key =
      Some (first_ptr (filter (\<lambda>e. e_key e = key) es) None)" by (rule mt_lookupKeyInKeyList_run [OF inv refl])
  show ?thesis
  proof (cases "\<exists>e \<in> set es. e_slot e = ?i")
    case False
    then have g: "filter (\<lambda>e. e_slot e = ?i) es = []" by (simp add: filter_empty_conv)
    have nk: "\<not> (\<exists>e \<in> set es. e_key e = key)" using False mt_inv_slot [OF inv] by auto
    have tw: "takeWhile (\<lambda>e. e_slot e \<noteq> ?i) es = es" using False by (simp add: takeWhile_eq_all_conv)
    have dw: "dropWhile (\<lambda>e. e_slot e \<noteq> ?i) es = []" using False by simp
    have xy: "xs = es" "ys = []" using sp nk by (simp_all add: mt_split_def Let_def tw dw)
    obtain h1 l1 where ins: "ll_emplace_after (mBeforeEnd (mKeysList t)) m h (mKeysList t) = Some (Some (brk h), h1, l1)"
      and r1: "ll_repr h1 l1 (es @ [(brk h, m)])"
      using ll_emplace_back_repr [OF mt_inv_repr [OF inv], of m] by (auto simp: ll_emplace_back_def)
    let ?t = "\<lparr>mTable = (mTable t)[?i := Some (brk h)], mKeysList = l1\<rparr>"
    have "mt_insert H (=) key v h t = Some (Some (brk h), h1, ?t)"
      using pre g ins mt_inv_slot_less [OF inv, of key]
      by (simp add: mt_insert_def ll_cend_def Let_def table_set_def m_def)
    moreover have sl: "slot_of H ?t = slot_of H t" by (simp add: slot_of_def fun_eq_iff)
    have "mt_inv H h1 ?t (es @ [(brk h, m)])"
    proof -
      have "grouped (map e_slot es)" "?i \<notin> set (map e_slot es)" using inv False by (auto simp: mt_inv_def)
      from grouped_snoc [OF this] have "grouped (map e_slot (es @ [(brk h, m)]))" by (simp add: m_def)
      then show ?thesis using inv r1 sl g by (auto simp: mt_inv_def nth_list_update m_def)
    qed
    ultimately show ?thesis using xy by auto
  next
    case True
    note slot = True
    have ne: "first_ptr (filter (\<lambda>e. e_slot e = ?i) es) None \<noteq> None" using True by (auto simp: filter_empty_conv)
    obtain zs a n ws where es: "es = zs @ (a, n) # ws" and ni: "tableIterator n = ?i"
      and xy: "xs = zs @ [(a, n)]" "ys = ws"
      and w: "(let keyEntry = first_ptr (filter (\<lambda>e. e_key e = key) es) None
        in if keyEntry \<noteq> None then keyEntry else first_ptr (filter (\<lambda>e. e_slot e = ?i) es) None) = Some a"
    proof (cases "\<exists>e \<in> set es. e_key e = key")
      case True
      obtain zs a n ws where s: "es = zs @ (a, n) # ws" "e_key (a, n) = key"
        "takeWhile (\<lambda>e. e_key e \<noteq> key) es = zs" "dropWhile (\<lambda>e. e_key e \<noteq> key) es = (a, n) # ws"
        "first_ptr (filter (\<lambda>e. e_key e = key) es) None = Some a"
        by (rule split_first [OF True])
      have "tableIterator n = ?i" using mt_inv_slot [OF inv, of "(a, n)"] s(1,2) by simp
      then show ?thesis using that [of zs a n ws] s sp True by (simp add: mt_split_def Let_def)
    next
      case False
      obtain zs a n ws where s: "es = zs @ (a, n) # ws" "e_slot (a, n) = ?i"
        "takeWhile (\<lambda>e. e_slot e \<noteq> ?i) es = zs" "dropWhile (\<lambda>e. e_slot e \<noteq> ?i) es = (a, n) # ws"
        "first_ptr (filter (\<lambda>e. e_slot e = ?i) es) None = Some a"
        by (rule split_first [OF slot])
      have "filter (\<lambda>e. e_key e = key) es = []" using False by (simp add: filter_empty_conv)
      then show ?thesis using that [of zs a n ws] s sp False by (simp add: mt_split_def Let_def)
    qed
    obtain h1 l1 where ins: "ll_emplace_after (Some a) m h (mKeysList t) = Some (Some (brk h), h1, l1)"
      and r1: "ll_repr h1 l1 (zs @ (a, n) # (brk h, m) # ws)"
      using ll_emplace_after_node [of h "mKeysList t" zs a n ws m] mt_inv_repr [OF inv] es by auto
    have "mt_insert H (=) key v h t = Some (Some (brk h), h1, t\<lparr>mKeysList := l1\<rparr>)"
      using pre ne ins lk w by (auto simp: mt_insert_def ll_cend_def Let_def m_def split: if_splits)
    moreover have "mt_inv H h1 (t\<lparr>mKeysList := l1\<rparr>) (zs @ (a, n) # (brk h, m) # ws)"
    proof -
      have sl: "slot_of H (t\<lparr>mKeysList := l1\<rparr>) = slot_of H t" by (simp add: slot_of_def fun_eq_iff)
      have "grouped (map e_slot es)" using inv by (simp add: mt_inv_def)
      then have "grouped (map e_slot zs @ ?i # map e_slot ws)" by (simp add: es ni)
      from grouped_insert_same [OF this] have "grouped (map e_slot (zs @ (a, n) # (brk h, m) # ws))"
        using ni by (simp add: m_def)
      moreover have "first_ptr (filter (\<lambda>e. e_slot e = j) (zs @ (a, n) # (brk h, m) # ws)) None
          = first_ptr (filter (\<lambda>e. e_slot e = j) es) None" for j using es ni by (simp add: m_def)
      ultimately show ?thesis using inv r1 sl es by (auto simp: mt_inv_def m_def)
    qed
    ultimately show ?thesis using es xy by auto
  qed
qed

section \<open>Counting\<close>

definition occurrences :: "('k, 't) entries \<Rightarrow> 'k \<Rightarrow> nat" where
  "occurrences es k = length (filter (\<lambda>e. e_key e = k) es)"

lemma occurrences_insert:
  "occurrences (xs @ (a, \<lparr>pt_first = key, pt_second = v, tableIterator = i\<rparr>) # ys) k =
     (if k = key then Suc (occurrences (xs @ ys) k) else occurrences (xs @ ys) k)"
  by (auto simp: occurrences_def)

text \<open>The entries of the first run of a key.\<close>

definition first_run :: "('k, 't) entries \<Rightarrow> 'k \<Rightarrow> ('k, 't) entries" where
  "first_run es k = takeWhile (\<lambda>e. e_key e = k) (dropWhile (\<lambda>e. e_key e \<noteq> k) es)"

lemma mt_count_loop_run:
  assumes "ll_repr h l (xs @ (a, n) # ys)"
  shows "mt_count_loop (=) key h (Some a) c =
    Some (first_ptr (dropWhile (\<lambda>e. e_key e = key) ys) None, c + 1 + of_nat (length (takeWhile (\<lambda>e. e_key e = key) ys)))"
  using assms
proof (induction ys arbitrary: xs a n c)
  case Nil
  then show ?case using ll_repr_next [OF Nil] by (subst mt_count_loop.simps) (simp add: ll_cend_def)
next
  case (Cons e ys)
  obtain b m where e: "e = (b, m)" by (cases e)
  have r: "ll_repr h l ((xs @ [(a, n)]) @ (b, m) # ys)" using Cons.prems e by simp
  have "it_deref h (Some b) = Some m" using ll_repr_deref [OF Cons.prems] e by simp
  then show ?case
    using ll_repr_next [OF Cons.prems] Cons.IH [OF r, of "c + 1"] e
    by (subst mt_count_loop.simps) (auto simp: ll_cend_def algebra_simps)
qed

lemma mt_found_run:
  assumes inv: "mt_inv H h t es"
  shows "if \<exists>e \<in> set es. e_key e = key
    then \<exists>a n rest. ht_find H (=) key h t = Some (Some a) \<and> dropWhile (\<lambda>e. e_key e \<noteq> key) es = (a, n) # rest \<and> pt_first n = key
      \<and> mt_count_loop (=) key h (Some a) 0 =
          Some (first_ptr (dropWhile (\<lambda>e. e_key e = key) rest) None, of_nat (length (first_run es key)))
    else ht_find H (=) key h t = Some None \<and> first_run es key = []"
proof (cases "\<exists>e \<in> set es. e_key e = key")
  case True
  obtain xs a n ys where s: "es = xs @ (a, n) # ys" "e_key (a, n) = key"
    "dropWhile (\<lambda>e. e_key e \<noteq> key) es = (a, n) # ys" "first_ptr (filter (\<lambda>e. e_key e = key) es) None = Some a"
    by (rule split_first [OF True])
  have "ll_repr h (mKeysList t) (xs @ (a, n) # ys)" using mt_inv_repr [OF inv] s(1) by simp
  from mt_count_loop_run [OF this, of key 0] show ?thesis
    using True s mt_find_run [OF inv, of key] by (simp add: first_run_def)
next
  case False
  then have f: "filter (\<lambda>e. e_key e = key) es = []" and d: "dropWhile (\<lambda>e. e_key e \<noteq> key) es = []"
    by (simp_all add: filter_empty_conv)
  show ?thesis using False mt_find_run [OF inv, of key] by (simp add: first_run_def f d del: dropWhile_eq_Nil_conv)
qed

lemma mt_count_run:
  assumes "mt_inv H h t es"
  shows "mt_count H (=) key h t = Some (of_nat (length (first_run es key)))"
  using mt_found_run [OF assms, of key] by (auto simp: mt_count_def ll_cend_def split: if_splits)

text \<open>The first run has all entries of its key when no other key is in the slot.\<close>

lemma takeWhile_filter_block:
  "\<forall>e \<in> set gs. P e \<Longrightarrow> \<forall>e \<in> set ys. \<not> P e \<Longrightarrow> takeWhile P (gs @ ys) = gs \<and> filter P (gs @ ys) = gs"
  by (auto simp: takeWhile_append filter_empty_conv takeWhile_eq_Nil_iff dest: hd_in_set)

lemma first_run_whole:
  assumes inv: "mt_inv H h t es" and alone: "\<forall>e \<in> set es. e_slot e = slot_of H t key \<longrightarrow> e_key e = key"
  shows "length (first_run es key) = occurrences es key"
proof -
  have same: "e_slot e = slot_of H t key \<longleftrightarrow> e_key e = key" if "e \<in> set es" for e
    using alone mt_inv_slot [OF inv that] that by auto
  obtain xs g ys where es: "es = xs @ g @ ys" and g: "g = filter (\<lambda>e. e_slot e = slot_of H t key) es"
    and nx: "\<forall>e \<in> set xs. e_slot e \<noteq> slot_of H t key" and ny: "\<forall>e \<in> set ys. e_slot e \<noteq> slot_of H t key"
    using mt_inv_group [OF inv] by blast
  have kx: "\<forall>e \<in> set xs. e_key e \<noteq> key" using nx same es by simp
  have ky: "\<forall>e \<in> set ys. e_key e \<noteq> key" using ny same es by simp
  have "set g \<subseteq> set es" unfolding es by auto
  moreover have "\<forall>e \<in> set g. e_slot e = slot_of H t key" by (simp add: g)
  ultimately have kg: "\<forall>e \<in> set g. e_key e = key" using same by blast
  have dy: "dropWhile (\<lambda>e. e_key e \<noteq> key) (g @ ys) = g @ (if g = [] then [] else ys)"
    using kg ky by (cases g) auto
  have tw: "takeWhile (\<lambda>e. e_key e = key) (g @ ys) = g" "filter (\<lambda>e. e_key e = key) (g @ ys) = g"
    using takeWhile_filter_block [OF kg ky] by blast+
  have "first_run es key = g" unfolding first_run_def es using kx tw(1) by (auto simp: dropWhile_append2 dy)
  moreover have "filter (\<lambda>e. e_key e = key) es = g"
  proof -
    have "filter (\<lambda>e. e_key e = key) xs = []" using kx by (simp add: filter_empty_conv)
    then show ?thesis unfolding es using tw(2) by simp
  qed
  ultimately show ?thesis by (simp add: occurrences_def)
qed

lemma first_run_le: "length (first_run es k) \<le> occurrences es k"
proof -
  have "length (takeWhile P ys) \<le> length (filter P ys)" for P and ys :: "('a, 'b) entries" by (induction ys) auto
  moreover have "filter (\<lambda>e. e_key e = k) (dropWhile (\<lambda>e. e_key e \<noteq> k) es) = filter (\<lambda>e. e_key e = k) es"
    by (induction es) auto
  ultimately show ?thesis unfolding first_run_def occurrences_def by metis
qed

lemma mt_split_new:
  assumes "\<forall>e \<in> set (xs @ (a, n) # ys). e_key e \<noteq> key" and "\<forall>e \<in> set xs. e_slot e \<noteq> slot_of H t key"
    and "tableIterator n = slot_of H t key"
  shows "mt_split H t key (xs @ (a, n) # ys) = (xs @ [(a, n)], ys)"
  using assms by (auto simp: mt_split_def Let_def takeWhile_append2 dropWhile_append2)

section \<open>Properties\<close>


text \<open>Two entries with key 5 in a table of four slots, and then key 1 of the same slot.\<close>

definition multi_heap :: "(nat, nat) ht_heap" where
  "multi_heap =
     \<lparr>cells = [0 \<mapsto> \<lparr>nd_data = \<lparr>pt_first = 5, pt_second = 50, tableIterator = 1\<rparr>, nd_previous = None, nd_next = Some 1\<rparr>,
               1 \<mapsto> \<lparr>nd_data = \<lparr>pt_first = 5, pt_second = 51, tableIterator = 1\<rparr>, nd_previous = Some 0, nd_next = None\<rparr>],
      brk = 2\<rparr>"

definition multi_table :: hash_table where
  "multi_table = \<lparr>mTable = [None, Some 0, None, None], mKeysList = \<lparr>mBegin = Some 0, mBeforeEnd = Some 1, mSize = 2\<rparr>\<rparr>"

lemma multi_table_inv:
  "mt_inv sample_hash multi_heap multi_table
     [(0, \<lparr>pt_first = 5, pt_second = 50, tableIterator = 1\<rparr>), (1, \<lparr>pt_first = 5, pt_second = 51, tableIterator = 1\<rparr>)]"
  (is "mt_inv _ _ _ ?es")
proof -
  have "ll_repr multi_heap (mKeysList multi_table) ?es"
    by (auto simp: ll_repr_def multi_heap_def multi_table_def heap_ok_def split: if_splits)
  moreover have "(\<forall>i < length (mTable multi_table). mTable multi_table ! i = first_ptr (filter (\<lambda>e. e_slot e = i) ?es) None)"
    by (auto simp: multi_table_def less_Suc_eq numeral_eq_Suc)
  moreover have "(5::size_t) mod 4 = 1" by simp
  ultimately show ?thesis by (simp add: mt_inv_def multi_table_def slot_of_def sample_hash_def)
qed


end
