(* ===== verification/KernelSockets.thy ===== *)
theory KernelSockets
  imports NetworkStreams
begin

text \<open>
  Platforms/Linux/CppCore/Socket.c: the socket functions of the platform, over those of the Linux
  kernel, and what rests on setting a socket option. The kernel's functions are the fields of
  \<open>kernel_net\<close>; their results are \<open>int\<close>s, a negative one being minus an error number. \<open>linux_sockets\<close> puts
  the file's functions into the record that \<open>Sockets\<close> is about. An invalid handle is passed to the
  kernel as it is.
\<close>

section \<open>The kernel's functions\<close>

text \<open>
  \<open>kn_recvmsg\<close> gets the size of the buffer and gives its result, the bytes it put into the buffer
  and the sender; \<open>kn_vmalloc\<close> says whether there is memory. \<open>BUG\<close> is a call like the others.
\<close>

record ('h, 'a, 'k) kernel_net =
  kn_sock_create :: "family \<Rightarrow> sock_type \<Rightarrow> nat \<Rightarrow> 'k \<Rightarrow> (32 word \<times> 'h) \<times> 'k"
  kn_sock_release :: "'h \<Rightarrow> 'k \<Rightarrow> 'k"
  kn_listen :: "'h option \<Rightarrow> size_t \<Rightarrow> 'k \<Rightarrow> 32 word \<times> 'k"
  kn_bind :: "'h option \<Rightarrow> 'a sock_addr \<Rightarrow> 'k \<Rightarrow> 32 word \<times> 'k"
  kn_connect :: "'h option \<Rightarrow> 'a sock_addr \<Rightarrow> 'k \<Rightarrow> 32 word \<times> 'k"
  kn_ioctl_inq :: "'h option \<Rightarrow> 'k \<Rightarrow> (32 word \<times> size_t) \<times> 'k"
  kn_BUG :: "'k \<Rightarrow> 'k"
  kn_vmalloc :: "size_t \<Rightarrow> 'k \<Rightarrow> bool \<times> 'k"
  kn_sendmsg :: "'h option \<Rightarrow> byte list \<Rightarrow> 'a sock_addr option \<Rightarrow> 'k \<Rightarrow> 32 word \<times> 'k"
  kn_recvmsg :: "'h option \<Rightarrow> size_t \<Rightarrow> 'k \<Rightarrow> (32 word \<times> byte list \<times> 'a sock_addr) \<times> 'k"
  kn_setsockopt :: "'h option \<Rightarrow> nat \<Rightarrow> nat \<Rightarrow> byte list \<Rightarrow> 'k \<Rightarrow> 32 word \<times> 'k"
  kn_accept :: "'h option \<Rightarrow> 'k \<Rightarrow> (32 word \<times> 'h) \<times> 'k"
  kn_getsockname :: "'h \<Rightarrow> 'k \<Rightarrow> 'a sock_addr \<times> 'k"

text \<open>\<open>ZqError\<close> is an \<open>int\<close>; \<open>ZQ_E_AGAIN\<close> is \<open>EAGAIN\<close>, which is 11.\<close>

definition zq_error_of :: "32 word \<Rightarrow> zq_error" where
  "zq_error_of r = (if r = 0 then ZQ_E_OK else if r = 11 then ZQ_E_AGAIN else ZQ_E_OTHER (unat r))"

section \<open>Platforms/Linux/CppCore/Socket.c\<close>

definition get_next_packet_size :: "('h, 'a, 'k) kernel_net \<Rightarrow> 'h option \<Rightarrow> 'k \<Rightarrow> size_t \<times> 'k" where
  "get_next_packet_size kn sock k =
     (let ((r, packet_size), k1) = kn_ioctl_inq kn sock k
      in (packet_size, if r <s 0 then kn_BUG kn k1 else k1))"

definition lx_Open :: "('h, 'a, 'k) kernel_net \<Rightarrow> family \<Rightarrow> sock_type \<Rightarrow> nat \<Rightarrow> 'k \<Rightarrow> 'h option \<times> 'k" where
  "lx_Open kn family ty protocol k =
     (let ((retval, sock), k1) = kn_sock_create kn family ty protocol k
      in (if retval \<noteq> 0 then None else Some sock, k1))"

definition lx_Close :: "('h, 'a, 'k) kernel_net \<Rightarrow> 'h \<Rightarrow> 'k \<Rightarrow> 'k" where
  "lx_Close kn sock k = kn_sock_release kn sock k"

definition lx_Listen :: "('h, 'a, 'k) kernel_net \<Rightarrow> 'h option \<Rightarrow> size_t \<Rightarrow> 'k \<Rightarrow> zq_error \<times> 'k" where
  "lx_Listen kn sock backlog k =
     (let (retval, k1) = kn_listen kn sock backlog k in (if retval \<noteq> 0 then zq_error_of retval else ZQ_E_OK, k1))"

definition lx_Bind :: "('h, 'a, 'k) kernel_net \<Rightarrow> 'h option \<Rightarrow> 'a sock_addr \<Rightarrow> 'k \<Rightarrow> zq_error \<times> 'k" where
  "lx_Bind kn sock sockaddr k =
     (let (retval, k1) = kn_bind kn sock sockaddr k in (if retval \<noteq> 0 then zq_error_of retval else ZQ_E_OK, k1))"

definition lx_Connect :: "('h, 'a, 'k) kernel_net \<Rightarrow> 'h option \<Rightarrow> 'a sock_addr \<Rightarrow> 'k \<Rightarrow> zq_error \<times> 'k" where
  "lx_Connect kn sock sockaddr k =
     (let (retval, k1) = kn_connect kn sock sockaddr k in (if retval \<noteq> 0 then zq_error_of retval else ZQ_E_OK, k1))"

definition ziqe_sendmsg ::
  "('h, 'a, 'k) kernel_net \<Rightarrow> 'h option \<Rightarrow> byte list \<Rightarrow> 'a sock_addr option \<Rightarrow> 'k \<Rightarrow> 32 word \<times> 'k" where
  "ziqe_sendmsg kn sock buffer sockaddr k = kn_sendmsg kn sock buffer sockaddr k"

definition ziqe_recvmsg ::
  "('h, 'a, 'k) kernel_net \<Rightarrow> 'h option \<Rightarrow> size_t \<Rightarrow> 'k \<Rightarrow> (32 word \<times> byte list \<times> 'a sock_addr) \<times> 'k" where
  "ziqe_recvmsg kn sock buffer_size k = kn_recvmsg kn sock buffer_size k"

text \<open>The buffer is only allocated for a packet that has bytes; the caller gets it together with the number of received bytes.\<close>

definition lx_ReceiveFrom ::
  "('h, 'a, 'k) kernel_net \<Rightarrow> 'h option \<Rightarrow> 'k \<Rightarrow> (zq_error \<times> byte list \<times> 'a sock_addr) \<times> 'k" where
  "lx_ReceiveFrom kn sock k =
     (let (bufferSize, k1) = get_next_packet_size kn sock k;
          k2 = (if bufferSize \<noteq> 0 then snd (kn_vmalloc kn bufferSize k1) else k1);
          ((ret, packet_buffer, sockaddr), k3) = ziqe_recvmsg kn sock bufferSize k2
      in if ret <s 0 then ((zq_error_of ret, [], sockaddr), k3)
         else ((ZQ_E_OK, take (unat ret) packet_buffer, sockaddr), k3))"

definition lx_Receive :: "('h, 'a, 'k) kernel_net \<Rightarrow> 'h option \<Rightarrow> 'k \<Rightarrow> (zq_error \<times> byte list) \<times> 'k" where
  "lx_Receive kn sock k =
     (let (bufferSize, k1) = get_next_packet_size kn sock k;
          k2 = (if bufferSize \<noteq> 0 then snd (kn_vmalloc kn bufferSize k1) else k1);
          ((ret, packet_buffer, _), k3) = ziqe_recvmsg kn sock bufferSize k2
      in if ret <s 0 then ((zq_error_of ret, []), k3)
         else ((ZQ_E_OK, take (unat ret) packet_buffer), k3))"

definition lx_Send :: "('h, 'a, 'k) kernel_net \<Rightarrow> 'h option \<Rightarrow> byte list \<Rightarrow> 'k \<Rightarrow> (zq_error \<times> size_t option) \<times> 'k" where
  "lx_Send kn sock buffer k =
     (let (ret, k1) = ziqe_sendmsg kn sock buffer None k
      in if ret <s 0 then ((zq_error_of ret, None), k1) else ((ZQ_E_OK, Some (scast ret)), k1))"

definition lx_SendTo ::
  "('h, 'a, 'k) kernel_net \<Rightarrow> 'h option \<Rightarrow> byte list \<Rightarrow> 'a sock_addr \<Rightarrow> 'k \<Rightarrow> (zq_error \<times> size_t option) \<times> 'k" where
  "lx_SendTo kn sock buffer sockaddr k =
     (let (ret, k1) = ziqe_sendmsg kn sock buffer (Some sockaddr) k
      in if ret <s 0 then ((zq_error_of ret, None), k1) else ((ZQ_E_OK, Some (scast ret)), k1))"

definition lx_SetOption ::
  "('h, 'a, 'k) kernel_net \<Rightarrow> 'h option \<Rightarrow> nat \<Rightarrow> nat \<Rightarrow> byte list \<Rightarrow> 'k \<Rightarrow> zq_error \<times> 'k" where
  "lx_SetOption kn sock level name optionValue k =
     (let (ret, k1) = kn_setsockopt kn sock level name optionValue k in (if ret \<noteq> 0 then zq_error_of ret else ZQ_E_OK, k1))"

text \<open>
  The one caller asks for the address; the family is read back from it, and \<open>unset\<close> is what the
  caller's variable holds when there is no client.
\<close>

definition lx_Accept :: "('h, 'a, 'k) kernel_net \<Rightarrow> 'a sock_addr \<Rightarrow> 'h option \<Rightarrow> 'k \<Rightarrow> ('h option \<times> 'a sock_addr) \<times> 'k" where
  "lx_Accept kn unset server_sock k =
     (let ((ret, client_socket), k1) = kn_accept kn server_sock k
      in if ret \<noteq> 0 then ((None, unset), k1)
         else (let (sockaddr, k2) = kn_getsockname kn client_socket k1
               in ((Some client_socket, sockaddr\<lparr>socket_family := sin_family sockaddr\<rparr>), k2)))"

definition linux_sockets :: "('h, 'a, 'k) kernel_net \<Rightarrow> 'a sock_addr \<Rightarrow> ('h, 'a, 'k) socket_os" where
  "linux_sockets kn unset =
     \<lparr>ZqSocketOpen = lx_Open kn, ZqSocketClose = lx_Close kn, ZqSocketBind = lx_Bind kn,
      ZqSocketConnect = lx_Connect kn, ZqSocketListen = lx_Listen kn, ZqSocketAccept = lx_Accept kn unset,
      ZqSocketSend = lx_Send kn, ZqSocketSendTo = lx_SendTo kn, ZqSocketReceive = lx_Receive kn,
      ZqSocketReceiveFrom = lx_ReceiveFrom kn\<rparr>"

section \<open>Socket options\<close>

text \<open>\<open>setSocketOption\<close> of Base/Socket.hpp, and what the UDP stream does with it.\<close>

definition so_setSocketOption ::
  "('h option \<Rightarrow> nat \<Rightarrow> nat \<Rightarrow> byte list \<Rightarrow> 'k \<Rightarrow> zq_error \<times> 'k) \<Rightarrow> 'h socket \<Rightarrow> nat \<Rightarrow> nat \<Rightarrow> byte list \<Rightarrow> 'k \<Rightarrow> 'k" where
  "so_setSocketOption setOption s level name optionValue k = snd (setOption s level name optionValue k)"

text \<open>\<open>int_bytes\<close> are the bytes of an \<open>int\<close> in memory; the level and name are \<open>SOL_SOCKET\<close> and \<open>SO_BROADCAST\<close>.\<close>

definition us_setBroadcast ::
  "('h option \<Rightarrow> nat \<Rightarrow> nat \<Rightarrow> byte list \<Rightarrow> 'k \<Rightarrow> zq_error \<times> 'k) \<Rightarrow> (nat \<Rightarrow> byte list) \<Rightarrow> bool
     \<Rightarrow> ('h, 'a) udp_stream \<Rightarrow> 'k \<Rightarrow> 'k" where
  "us_setBroadcast setOption int_bytes isBroadcast st k =
     so_setSocketOption setOption (us_socket st) 1 6 (int_bytes (if isBroadcast then 1 else 0)) k"

definition us_CreateBroadcast ::
  "('h, 'a, 'k) socket_os \<Rightarrow> ('h option \<Rightarrow> nat \<Rightarrow> nat \<Rightarrow> byte list \<Rightarrow> 'k \<Rightarrow> zq_error \<times> 'k) \<Rightarrow> (nat \<Rightarrow> byte list)
     \<Rightarrow> size_t \<Rightarrow> 'a \<times> port \<Rightarrow> 'a \<Rightarrow> port \<Rightarrow> 'k \<Rightarrow> (unit + ('h, 'a) udp_stream) \<times> 'k" where
  "us_CreateBroadcast api setOption int_bytes sizeof_in6 unset address p k =
     (case us_Connect api sizeof_in6 unset address p k of
        (Inl e, k1) \<Rightarrow> (Inl e, k1)
      | (Inr st, k1) \<Rightarrow> (Inr st, us_setBroadcast setOption int_bytes True st k1))"

section \<open>Properties\<close>

text \<open>The sign of the result decides; minus an error number is never equal to \<open>EAGAIN\<close>.\<close>

lemma zq_error_of_negative [simp]:
  "r <s 0 \<Longrightarrow> zq_error_of r \<noteq> ZQ_E_OK" "r <s 0 \<Longrightarrow> zq_error_of r \<noteq> ZQ_E_AGAIN"
  by (auto simp: zq_error_of_def word_sless_alt)

lemma linux_so_receive:
  assumes "get_next_packet_size kn s k = (n, k1)"
    and "kn_recvmsg kn s n (if n \<noteq> 0 then snd (kn_vmalloc kn n k1) else k1) = ((r, buffer, a), k2)"
  shows "so_receive (linux_sockets kn unset) s k =
    (if r <s 0 then Inl Sockets.Other
     else if take (unat r) buffer = [] then Inl Sockets.Disconnected else Inr (take (unat r) buffer), k2)"
  using assms by (simp add: so_receive_def linux_sockets_def lx_Receive_def ziqe_recvmsg_def del: take_eq_Nil)

lemma linux_so_receiveWithAddress:
  assumes "get_next_packet_size kn s k = (n, k1)"
    and "kn_recvmsg kn s n (if n \<noteq> 0 then snd (kn_vmalloc kn n k1) else k1) = ((r, buffer, a), k2)"
  shows "so_receiveWithAddress (linux_sockets kn unset) s k =
    (if r <s 0 then Inl Sockets.Other
     else if take (unat r) buffer = [] then Inl Sockets.Disconnected else Inr (take (unat r) buffer, a), k2)"
  using assms
  by (simp add: so_receiveWithAddress_def linux_sockets_def lx_ReceiveFrom_def ziqe_recvmsg_def del: take_eq_Nil)

lemma linux_sendAll_error:
  assumes "kn_sendmsg kn s array None k = (r, k1)" and "r <s 0" and "array \<noteq> []" and "length array < 2 ^ 64"
  shows "so_sendAll (linux_sockets kn unset) s array k = None"
proof -
  have "unat (of_nat (length array) :: size_t) = length array" using assms(4) by (intro unat_of_nat_small) simp
  with assms show ?thesis
    by (simp add: so_sendAll_def so_sendAll_loop.simps linux_sockets_def lx_Send_def ziqe_sendmsg_def word_less_nat_alt)
qed

text \<open>
  A stream over the sockets of Linux: a packet that the kernel delivers is what a TCP stream and a
  UDP stream receive, cut to the kernel's count; every error of the kernel, the time-out of a socket
  that has one included, is \<open>Other\<close>, since the kernel's minus \<open>EAGAIN\<close> is compared with \<open>EAGAIN\<close>: no
  stream ever sees \<open>Timeout\<close>. A failed \<open>kernel_sendmsg\<close> makes \<open>sendAll\<close> go on with a byte count
  that nothing has set.
\<close>

theorem linux_stream_errors:
  assumes "get_next_packet_size kn s k = (n, k1)"
    and "kn_recvmsg kn s n (if n \<noteq> 0 then snd (kn_vmalloc kn n k1) else k1) = ((r, buffer, a), k2)"
    and "kn_sendmsg kn s array None k = (r', k3)" and "r' <s 0" and "array \<noteq> []" and "length array < 2 ^ 64"
  shows "ts_receiveRawPacket (linux_sockets kn unset) \<lparr>ts_socket = s, mStreamAddressAndPort = ap\<rparr> k =
           (if r <s 0 \<or> take (unat r) buffer = [] then Inl Streams.Other else Inr (take (unat r) buffer), k2)
       \<and> us_receiveRawPacket (linux_sockets kn unset) (us_construct ap s) k =
           (if r <s 0 then Inl Sockets.Other
            else if take (unat r) buffer = [] then Inl Sockets.Disconnected else Inr (take (unat r) buffer), k2)
       \<and> fst (so_receiveWithAddress (linux_sockets kn unset) s k) \<noteq> Inl Sockets.Timeout
       \<and> so_sendAll (linux_sockets kn unset) s array k = None"
  using linux_so_receive [OF assms(1,2)] linux_so_receiveWithAddress [OF assms(1,2)] linux_sendAll_error [OF assms(3-6)]
  by (simp add: ts_receiveRawPacket_def us_receiveRawPacket_def us_construct_def del: take_eq_Nil)

text \<open>A kernel with a time-out on the socket, whose \<open>kernel_recvmsg\<close> and \<open>kernel_sendmsg\<close> return minus \<open>EAGAIN\<close>.\<close>

definition sample_kernel :: "(nat, nat, nat) kernel_net" where
  "sample_kernel =
     \<lparr>kn_sock_create = (\<lambda>_ _ _ k. ((0, k), Suc k)), kn_sock_release = (\<lambda>_ k. k), kn_listen = (\<lambda>_ _ k. (0, k)),
      kn_bind = (\<lambda>_ _ k. (0, k)), kn_connect = (\<lambda>_ _ k. (0, k)), kn_ioctl_inq = (\<lambda>_ k. ((0, 0), k)), kn_BUG = (\<lambda>k. k),
      kn_vmalloc = (\<lambda>_ k. (True, k)), kn_sendmsg = (\<lambda>_ _ _ k. (- 11, k)),
      kn_recvmsg = (\<lambda>_ _ k. ((- 11, [], sa_CreateIn6 28 0 0), k)), kn_setsockopt = (\<lambda>_ _ _ _ k. (0, k)),
      kn_accept = (\<lambda>_ k. ((- 11, 0), k)), kn_getsockname = (\<lambda>_ k. (sa_CreateIn6 28 0 0, k))\<rparr>"

lemma linux_stream_errors_witness:
  "us_receiveRawPacket (linux_sockets sample_kernel (sa_CreateIn6 28 0 0)) (us_construct (0, 0) (Some 3)) 5 =
     (Inl Sockets.Other, 5)
   \<and> so_sendAll (linux_sockets sample_kernel (sa_CreateIn6 28 0 0)) (Some 3) [1, 2] 5 = None"
  using linux_stream_errors [where kn = sample_kernel and s = "Some 3" and k = 5 and n = 0 and ?k1.0 = 5 and r = "- 11"
      and buffer = "[]" and a = "sa_CreateIn6 28 0 0" and ?k2.0 = 5 and array = "[1, 2]" and r' = "- 11" and ?k3.0 = 5
      and unset = "sa_CreateIn6 28 0 0" and ap = "(0, 0)"]
  by (simp add: sample_kernel_def get_next_packet_size_def word_sless_alt)

end
