(* ===== verification/ScopedContainers.thy ===== *)
theory ScopedContainers
  imports Pointers
begin

text \<open>
  Base/ScopedContainer.hpp: the container that gives its value to a deleter when it is destroyed, and the
  contract it shares with \<open>UniquePointer\<close>: of each resource there is one owner, whatever is moved,
  assigned and destroyed in which order, and it is released once.
\<close>

section \<open>ScopedContainer\<close>

text \<open>
  \<open>call\<close> runs a deleter on a value, over the state \<open>'w\<close> the deleter works on; \<open>none\<close> is \<open>T()\<close>. The
  deleters of the program are empty or hold a raw pointer, which moving copies.
\<close>

record ('v, 'd) container =
  cn_mValue :: 'v
  cn_mDeleter :: 'd

definition cn_construct :: "'v \<Rightarrow> 'd \<Rightarrow> ('v, 'd) container" where
  "cn_construct v deleter = \<lparr>cn_mValue = v, cn_mDeleter = deleter\<rparr>"

definition cn_destroy :: "('d \<Rightarrow> 'v \<Rightarrow> 'w \<Rightarrow> 'w option) \<Rightarrow> ('v, 'd) container \<Rightarrow> 'w \<Rightarrow> 'w option" where
  "cn_destroy call c w = call (cn_mDeleter c) (cn_mValue c) w"

text \<open>The new container and the source.\<close>

definition cn_move_construct :: "'v \<Rightarrow> ('v, 'd) container \<Rightarrow> ('v, 'd) container \<times> ('v, 'd) container" where
  "cn_move_construct none c =
     (\<lparr>cn_mValue = cn_mValue c, cn_mDeleter = cn_mDeleter c\<rparr>, c\<lparr>cn_mValue := none\<rparr>)"

definition cn_copy_construct :: "('v, 'd) container \<Rightarrow> ('v, 'd) container" where
  "cn_copy_construct c = \<lparr>cn_mValue = cn_mValue c, cn_mDeleter = cn_mDeleter c\<rparr>"

text \<open>The move assignment swaps; the copy assignment forgets what the container held.\<close>

definition cn_move_assign ::
  "('v, 'd) container \<Rightarrow> ('v, 'd) container \<Rightarrow> ('v, 'd) container \<times> ('v, 'd) container" where
  "cn_move_assign self c =
     (self\<lparr>cn_mValue := cn_mValue c, cn_mDeleter := cn_mDeleter c\<rparr>,
      c\<lparr>cn_mValue := cn_mValue self, cn_mDeleter := cn_mDeleter self\<rparr>)"

definition cn_copy_assign :: "('v, 'd) container \<Rightarrow> ('v, 'd) container \<Rightarrow> ('v, 'd) container" where
  "cn_copy_assign self c = self\<lparr>cn_mValue := cn_mValue c, cn_mDeleter := cn_mDeleter c\<rparr>"

definition cn_value :: "('v, 'd) container \<Rightarrow> 'v" where
  "cn_value c = cn_mValue c"

section \<open>Owners\<close>

text \<open>
  What a program does with the objects of an owning class: it makes them, moves them into new ones,
  assigns them and destroys them. The objects have names; an operation that is undefined gives no step.
\<close>

record ('o, 'w) owner_ops =
  ow_make :: "'w \<Rightarrow> 'o \<times> 'w"
  ow_move :: "'o \<Rightarrow> 'o \<times> 'o"
  ow_assign :: "'o \<Rightarrow> 'o \<Rightarrow> 'w \<Rightarrow> ('o \<times> 'o \<times> 'w) option"
  ow_destroy :: "'o \<Rightarrow> 'w \<Rightarrow> 'w option"

record ('o, 'w) owners =
  objs :: "nat \<Rightarrow> 'o option"
  world :: 'w

inductive own_step :: "('o, 'w) owner_ops \<Rightarrow> ('o, 'w) owners \<Rightarrow> ('o, 'w) owners \<Rightarrow> bool"
  for ops :: "('o, 'w) owner_ops" where
  make: "objs s i = None \<Longrightarrow> ow_make ops (world s) = (x, w) \<Longrightarrow>
    own_step ops s \<lparr>objs = (objs s)(i \<mapsto> x), world = w\<rparr>"
| move: "objs s i = Some x \<Longrightarrow> objs s j = None \<Longrightarrow> ow_move ops x = (y, x') \<Longrightarrow>
    own_step ops s \<lparr>objs = (objs s)(j \<mapsto> y, i \<mapsto> x'), world = world s\<rparr>"
| assign: "objs s i = Some x \<Longrightarrow> objs s j = Some y \<Longrightarrow> i \<noteq> j \<Longrightarrow> ow_assign ops x y (world s) = Some (x', y', w) \<Longrightarrow>
    own_step ops s \<lparr>objs = (objs s)(i \<mapsto> x', j \<mapsto> y'), world = w\<rparr>"
| destroy: "objs s i = Some x \<Longrightarrow> ow_destroy ops x (world s) = Some w \<Longrightarrow>
    own_step ops s \<lparr>objs = (objs s)(i := None), world = w\<rparr>"

inductive_cases own_stepE: "own_step ops s s'"

definition own_reachable :: "('o, 'w) owner_ops \<Rightarrow> ('o, 'w) owners \<Rightarrow> ('o, 'w) owners \<Rightarrow> bool" where
  "own_reachable ops = (own_step ops)\<^sup>*\<^sup>*"

text \<open>
  \<open>owned x\<close> is the resource of an object and \<open>live w\<close> are the resources that exist. The invariant: the
  live resources are those of the start and those of the objects, each of one object.
\<close>

definition resources :: "('o \<Rightarrow> 'r option) \<Rightarrow> (nat \<Rightarrow> 'o option) \<Rightarrow> nat \<Rightarrow> 'r option" where
  "resources owned f i = Option.bind (f i) owned"

definition one_owner :: "(nat \<Rightarrow> 'r option) \<Rightarrow> bool" where
  "one_owner f \<longleftrightarrow> (\<forall>i j r. f i = Some r \<and> f j = Some r \<longrightarrow> i = j)"

definition own_inv :: "('o \<Rightarrow> 'r option) \<Rightarrow> ('w \<Rightarrow> 'r set) \<Rightarrow> ('w \<Rightarrow> bool) \<Rightarrow> 'r set \<Rightarrow> ('o, 'w) owners \<Rightarrow> bool" where
  "own_inv owned live ok start s \<longleftrightarrow>
     ok (world s) \<and> one_owner (resources owned (objs s))
   \<and> live (world s) = start \<union> ran (resources owned (objs s)) \<and> start \<inter> ran (resources owned (objs s)) = {}"

lemma resources_upd [simp]: "resources owned (f(i := x)) = (resources owned f)(i := Option.bind x owned)"
  by (auto simp: resources_def)

lemma resources_Some: "f i = Some x \<Longrightarrow> resources owned f i = owned x"
  by (simp add: resources_def)

lemma resources_none: "f i = None \<Longrightarrow> resources owned f i = None"
  by (simp add: resources_def)

lemma one_owner_add: "one_owner f \<Longrightarrow> r \<notin> ran f \<Longrightarrow> one_owner (f(i \<mapsto> r))"
  by (auto simp: one_owner_def ran_def)

lemma one_owner_drop: "one_owner f \<Longrightarrow> one_owner (f(i := None))"
  by (auto simp: one_owner_def)

lemma ran_drop: "one_owner f \<Longrightarrow> ran (f(i := None)) = ran f - set_option (f i)"
  unfolding one_owner_def ran_def by (auto split: if_splits)

lemma one_owner_move: "one_owner f \<Longrightarrow> f j = None \<Longrightarrow> one_owner (f(j := f i, i := None))"
  unfolding one_owner_def by (metis fun_upd_apply option.distinct(1))

lemma ran_move: "f j = None \<Longrightarrow> i \<noteq> j \<Longrightarrow> ran (f(j := f i, i := None)) = ran f"
  by (auto simp: ran_def) (metis option.distinct(1))

lemma one_owner_assign: "one_owner f \<Longrightarrow> one_owner (f(i := f j, j := None))"
  unfolding one_owner_def by (metis fun_upd_apply option.distinct(1))

lemma ran_assign: "one_owner f \<Longrightarrow> i \<noteq> j \<Longrightarrow> ran (f(i := f j, j := None)) = ran f - set_option (f i)"
  unfolding one_owner_def ran_def by (auto split: if_splits) metis+

lemma one_owner_swap: "one_owner f \<Longrightarrow> one_owner (f(i := f j, j := f i))"
  unfolding one_owner_def by (metis fun_upd_apply)

lemma ran_swap: "ran (f(i := f j, j := f i)) = ran f"
  by (auto simp: ran_def) metis

section \<open>The contract of an owning class\<close>

locale owner =
  fixes ops :: "('o, 'w) owner_ops" and owned :: "'o \<Rightarrow> 'r option" and live :: "'w \<Rightarrow> 'r set" and ok :: "'w \<Rightarrow> bool"
  assumes law_make: "ok w \<Longrightarrow> ow_make ops w = (x, w') \<Longrightarrow>
      ok w' \<and> set_option (owned x) \<inter> live w = {} \<and> live w' = set_option (owned x) \<union> live w"
    and law_move: "ow_move ops x = (y, x') \<Longrightarrow> owned y = owned x \<and> owned x' = None"
    and law_assign: "ok w \<Longrightarrow> set_option (owned x) \<subseteq> live w \<Longrightarrow> \<exists>x' y' w'. ow_assign ops x y w = Some (x', y', w') \<and> ok w'
      \<and> owned x' = owned y
      \<and> (owned y' = None \<and> live w' = live w - set_option (owned x) \<or> owned y' = owned x \<and> live w' = live w)"
    and law_destroy: "ok w \<Longrightarrow> set_option (owned x) \<subseteq> live w \<Longrightarrow>
      \<exists>w'. ow_destroy ops x w = Some w' \<and> ok w' \<and> live w' = live w - set_option (owned x)"
begin

lemma inv_live:
  assumes "own_inv owned live ok start s" "objs s i = Some x"
  shows "set_option (owned x) \<subseteq> live (world s)" "start \<inter> set_option (owned x) = {}"
  using assms resources_Some [of "objs s" i x owned] by (fastforce simp: own_inv_def ran_def)+

lemma inv_step:
  assumes inv: "own_inv owned live ok start s" and step: "own_step ops s s'"
  shows "own_inv owned live ok start s'"
proof -
  let ?f = "resources owned (objs s)"
  have i: "ok (world s)" "one_owner ?f" "live (world s) = start \<union> ran ?f" "start \<inter> ran ?f = {}"
    using inv by (simp_all add: own_inv_def)
  show ?thesis using step
  proof cases
    case (make i x w)
    then have f: "?f i = None" by (simp add: resources_none)
    show ?thesis
    proof (cases "owned x")
      case None
      then have "?f(i := None) = ?f" using f by (simp add: fun_upd_idem)
      then show ?thesis using i None make law_make [OF i(1) make(3)] by (simp add: own_inv_def)
    next
      case (Some r)
      then show ?thesis using i f make law_make [OF i(1) make(3)] by (auto simp: own_inv_def intro!: one_owner_add)
    qed
  next
    case (move i x j y x')
    then have "i \<noteq> j" "?f j = None" "?f i = owned x" by (auto simp: resources_none resources_Some)
    then show ?thesis using i move law_move [OF move(4)] one_owner_move [of ?f j i] ran_move [of ?f j i]
      by (simp add: own_inv_def)
  next
    case (assign i x j y x' y' w)
    have f: "?f i = owned x" "?f j = owned y" using assign by (simp_all add: resources_Some)
    obtain "ok w" "owned x' = owned y"
      and "owned y' = None \<and> live w = live (world s) - set_option (owned x) \<or> owned y' = owned x \<and> live w = live (world s)"
      using law_assign [OF i(1) inv_live(1) [OF inv assign(2)], of y] assign(5) by auto
    then show ?thesis using i f assign one_owner_assign [of ?f i j] ran_assign [of ?f i j] one_owner_swap [of ?f i j]
        ran_swap [of ?f i j] inv_live(2) [OF inv assign(2)]
      by (auto simp: own_inv_def)
  next
    case (destroy i x w)
    have f: "?f i = owned x" using destroy by (simp add: resources_Some)
    have "ok w" "live w = live (world s) - set_option (owned x)"
      using law_destroy [OF i(1) inv_live(1) [OF inv destroy(2)]] destroy(3) by auto
    then show ?thesis using i f destroy one_owner_drop [of ?f i] ran_drop [of ?f i] inv_live(2) [OF inv destroy(2)]
      by (auto simp: own_inv_def)
  qed
qed

lemma inv_reachable:
  assumes "own_reachable ops s s'" "own_inv owned live ok start s"
  shows "own_inv owned live ok start s'"
  using assms unfolding own_reachable_def by (induction rule: rtranclp_induct) (auto intro: inv_step)

text \<open>
  From a state without objects: what is live is what was live before and what the objects own, no
  resource has two owners, and no object can release a resource a second time.
\<close>

lemma owner_safe:
  assumes "own_reachable ops \<lparr>objs = \<lambda>_. None, world = w\<rparr> s" "ok w"
  shows "live (world s) = live w \<union> ran (resources owned (objs s)) \<and> one_owner (resources owned (objs s))
    \<and> (\<forall>i x. objs s i = Some x \<longrightarrow> ow_destroy ops x (world s) \<noteq> None \<and> (\<forall>y. ow_assign ops x y (world s) \<noteq> None))"
proof -
  have "resources owned (\<lambda>_. None) = (\<lambda>_. None)" by (simp add: resources_def fun_eq_iff)
  then have "own_inv owned live ok (live w) \<lparr>objs = \<lambda>_. None, world = w\<rparr>"
    using assms(2) by (simp add: own_inv_def one_owner_def)
  from inv_reachable [OF assms(1) this] have inv: "own_inv owned live ok (live w) s" .
  then have o: "ok (world s)" by (simp add: own_inv_def)
  have "ow_destroy ops x (world s) \<noteq> None \<and> ow_assign ops x y (world s) \<noteq> None" if "objs s i = Some x" for i x y
    using law_destroy [OF o inv_live(1) [OF inv that]] law_assign [OF o inv_live(1) [OF inv that], of y] by auto
  then show ?thesis using inv by (auto simp: own_inv_def)
qed

end

section \<open>UniquePointer as an owner\<close>

definition unique_ops :: "'a \<Rightarrow> (ptr, 'a heap) owner_ops" where
  "unique_ops v =
     \<lparr>ow_make = (\<lambda>h. let (h1, u) = makeUnique v h in (u, h1)), ow_move = up_move_construct,
      ow_assign = (\<lambda>u other h. map_option (\<lambda>(h1, u1, other1). (u1, other1, h1)) (up_move_assign h u other)),
      ow_destroy = (\<lambda>u h. map_option fst (up_destroy h u))\<rparr>"

definition live_objects :: "'a heap \<Rightarrow> nat set" where
  "live_objects h = dom (cells h)"

lemma up_reset_live:
  assumes "set_option u \<subseteq> live_objects h" "heap_ok h"
  shows "\<exists>h1. up_reset p h u = Some (h1, p) \<and> heap_ok h1 \<and> live_objects h1 = live_objects h - set_option u"
proof (cases u)
  case None
  then show ?thesis using assms by (simp add: up_reset_def)
next
  case (Some a)
  then obtain v where "cells h a = Some v" using assms(1) by (auto simp: live_objects_def)
  then show ?thesis using Some assms(2) by (auto simp: up_reset_def free_Some live_objects_def intro!: heap_ok_upd)
qed

interpretation up: owner "unique_ops v" "\<lambda>u. u" live_objects heap_ok
proof
  fix w w' :: "'a heap" and x :: ptr
  assume "heap_ok w" "ow_make (unique_ops v) w = (x, w')"
  then show "heap_ok w' \<and> set_option x \<inter> live_objects w = {} \<and> live_objects w' = set_option x \<union> live_objects w"
    using heap_ok_brk [of w]
    by (auto simp: unique_ops_def makeUnique_def new_def live_objects_def intro!: heap_ok_new)
next
  fix x y x' :: ptr
  assume "ow_move (unique_ops v) x = (y, x')"
  then show "y = x \<and> x' = None" by (simp add: unique_ops_def up_move_construct_def)
next
  fix w :: "'a heap" and x y :: ptr
  assume "heap_ok w" "set_option x \<subseteq> live_objects w"
  then show "\<exists>x' y' w'. ow_assign (unique_ops v) x y w = Some (x', y', w') \<and> heap_ok w' \<and> x' = y
      \<and> (y' = None \<and> live_objects w' = live_objects w - set_option x \<or> y' = x \<and> live_objects w' = live_objects w)"
    using up_reset_live [of x w y] by (auto simp: unique_ops_def up_move_assign_def)
next
  fix w :: "'a heap" and x :: ptr
  assume "heap_ok w" "set_option x \<subseteq> live_objects w"
  then show "\<exists>w'. ow_destroy (unique_ops v) x w = Some w' \<and> heap_ok w' \<and> live_objects w' = live_objects w - set_option x"
    using up_reset_live [of x w nullptr] by (auto simp: unique_ops_def up_destroy_def)
qed

end
