(* ===== verification/UsbDevices.thy ===== *)
theory UsbDevices
  imports ScopedContainers
begin

text \<open>
  OS/UsbDeviceManager of the Linux platform and of the user mode platform: how USB devices are announced
  to the driver's callback object, and who owns them. The functions of the kernel (\<open>ZqLinuxUsb\<close>...) and
  of libusb are not in the repository: they are the fields of \<open>linux_usb\<close> and \<open>libusb\<close>.
\<close>

section \<open>The world\<close>

text \<open>
  The heaps of \<open>UsbDevice\<close> and of callback objects, the calls that the callback objects have got, and the
  kernel's own state \<open>'k\<close>. \<open>'i\<close> are the interfaces of the kernel.
\<close>

datatype usb_call = Attached nat | Detached nat

record 'k usb_world =
  uw_devices :: "unit heap"
  uw_callbacks :: "unit heap"
  uw_calls :: "usb_call list"
  uw_kernel :: 'k

record ('i, 'k) linux_usb =
  ZqLinuxUsbRegisterDevice :: "string \<Rightarrow> ptr \<Rightarrow> 'k usb_world \<Rightarrow> ptr \<times> 'k usb_world"
  ZqLinuxUsbUnregisterDevice :: "ptr \<Rightarrow> 'k usb_world \<Rightarrow> 'k usb_world option"
  ZqLinuxUsbSetInterfaceData :: "'i \<Rightarrow> ptr \<Rightarrow> 'k \<Rightarrow> 'k"
  ZqLinuxUsbGetInterfaceData :: "'i \<Rightarrow> 'k \<Rightarrow> ptr"

text \<open>A call of a virtual function of the callback object at \<open>argument\<close>.\<close>

definition callback_call :: "ptr \<Rightarrow> usb_call \<Rightarrow> 'k usb_world \<Rightarrow> 'k usb_world option" where
  "callback_call argument c w = map_option (\<lambda>_. w\<lparr>uw_calls := uw_calls w @ [c]\<rparr>) (load (uw_callbacks w) argument)"

section \<open>Platforms/Linux/OS/UsbDeviceManager.cpp\<close>

definition lu_onProbe :: "('i, 'k) linux_usb \<Rightarrow> ptr \<Rightarrow> 'i \<Rightarrow> 'k usb_world \<Rightarrow> 'k usb_world option" where
  "lu_onProbe lu argument interface w = do {
     let (devices, pDevice) = makeUnique () (uw_devices w);
     device \<leftarrow> pDevice;
     let (released, pDevice1) = up_release pDevice;
     let w1 = w\<lparr>uw_devices := devices, uw_kernel := ZqLinuxUsbSetInterfaceData lu interface released (uw_kernel w)\<rparr>;
     w2 \<leftarrow> callback_call argument (Attached device) w1;
     (devices2, _) \<leftarrow> up_destroy (uw_devices w2) pDevice1;
     Some (w2\<lparr>uw_devices := devices2\<rparr>)
   }"

definition lu_onDisconnect :: "('i, 'k) linux_usb \<Rightarrow> ptr \<Rightarrow> 'i \<Rightarrow> 'k usb_world \<Rightarrow> 'k usb_world option" where
  "lu_onDisconnect lu argument interface w = do {
     let uniqueDevice = ZqLinuxUsbGetInterfaceData lu interface (uw_kernel w);
     device \<leftarrow> uniqueDevice;
     _ \<leftarrow> up_deref (uw_devices w) uniqueDevice;
     w1 \<leftarrow> callback_call argument (Detached device) w;
     (devices, _) \<leftarrow> up_destroy (uw_devices w1) uniqueDevice;
     Some (w1\<lparr>uw_devices := devices\<rparr>)
   }"

text \<open>The manager: its members are destroyed in the reverse order of their declaration.\<close>

record usb_manager =
  um_mDriver :: "(ptr, unit) container"
  um_mCallback :: ptr

definition driver_deleter :: "('i, 'k) linux_usb \<Rightarrow> unit \<Rightarrow> ptr \<Rightarrow> 'k usb_world \<Rightarrow> 'k usb_world option" where
  "driver_deleter lu _ address w = (if address \<noteq> nullptr then ZqLinuxUsbUnregisterDevice lu address w else Some w)"

definition lu_Create :: "('i, 'k) linux_usb \<Rightarrow> string \<Rightarrow> ptr \<Rightarrow> 'k usb_world \<Rightarrow> usb_manager \<times> 'k usb_world" where
  "lu_Create lu name callback w =
     (let (device, w1) = ZqLinuxUsbRegisterDevice lu name callback w
      in (\<lparr>um_mDriver = cn_construct device (), um_mCallback = callback\<rparr>, w1))"

definition lu_move_construct :: "usb_manager \<Rightarrow> usb_manager \<times> usb_manager" where
  "lu_move_construct other =
     (let (driver, driver1) = cn_move_construct nullptr (um_mDriver other);
          (callback, callback1) = up_move_construct (um_mCallback other)
      in (\<lparr>um_mDriver = driver, um_mCallback = callback\<rparr>, \<lparr>um_mDriver = driver1, um_mCallback = callback1\<rparr>))"

definition lu_destroy :: "('i, 'k) linux_usb \<Rightarrow> usb_manager \<Rightarrow> 'k usb_world \<Rightarrow> 'k usb_world option" where
  "lu_destroy lu m w = do {
     (callbacks, _) \<leftarrow> up_destroy (uw_callbacks w) (um_mCallback m);
     cn_destroy (driver_deleter lu) (um_mDriver m) (w\<lparr>uw_callbacks := callbacks\<rparr>)
   }"

section \<open>Platforms/GenericUsermode/OS\<close>

text \<open>\<open>libusb_open\<close> gives an error number or a handle; the device object of the driver is its handle.\<close>

record ('d, 'k) libusb =
  libusb_open :: "'d \<Rightarrow> 'k \<Rightarrow> (int + nat) \<times> 'k"
  libusb_close :: "nat \<Rightarrow> 'k \<Rightarrow> 'k"

definition gu_UsbDevice_Create :: "('d, 'k) libusb \<Rightarrow> 'd \<Rightarrow> 'k usb_world \<Rightarrow> (int + nat) \<times> 'k usb_world" where
  "gu_UsbDevice_Create lib dev w = (let (r, k) = libusb_open lib dev (uw_kernel w) in (r, w\<lparr>uw_kernel := k\<rparr>))"

text \<open>The event is an arrival or a departure; the device object lives until the function returns.\<close>

definition gu_libusb_callback :: "('d, 'k) libusb \<Rightarrow> 'd \<Rightarrow> bool \<Rightarrow> ptr \<Rightarrow> 'k usb_world \<Rightarrow> (int \<times> 'k usb_world) option" where
  "gu_libusb_callback lib dev arrived user_data w =
     (case gu_UsbDevice_Create lib dev w of
        (Inl e, w1) \<Rightarrow> Some (e, w1)
      | (Inr handle, w1) \<Rightarrow> do {
          w2 \<leftarrow> callback_call user_data (if arrived then Attached handle else Detached handle) w1;
          Some (0, w2\<lparr>uw_kernel := libusb_close lib handle (uw_kernel w2)\<rparr>)
        })"

section \<open>Sequences of events\<close>

text \<open>
  The kernel probes an interface that is not bound and disconnects one that is; these are the legal
  sequences. As documented, the data of an interface are what was set last.
\<close>

datatype 'i usb_event = Probe 'i | Disconnect 'i

fun usb_run :: "('i, 'k) linux_usb \<Rightarrow> ptr \<Rightarrow> 'i usb_event list \<Rightarrow> 'k usb_world \<Rightarrow> 'k usb_world option" where
  "usb_run lu argument [] w = Some w"
| "usb_run lu argument (Probe i # es) w = Option.bind (lu_onProbe lu argument i w) (usb_run lu argument es)"
| "usb_run lu argument (Disconnect i # es) w = Option.bind (lu_onDisconnect lu argument i w) (usb_run lu argument es)"

fun legal :: "'i set \<Rightarrow> 'i usb_event list \<Rightarrow> bool" where
  "legal B [] \<longleftrightarrow> True"
| "legal B (Probe i # es) \<longleftrightarrow> i \<notin> B \<and> legal (insert i B) es"
| "legal B (Disconnect i # es) \<longleftrightarrow> i \<in> B \<and> legal (B - {i}) es"

fun bound_after :: "'i set \<Rightarrow> 'i usb_event list \<Rightarrow> 'i set" where
  "bound_after B [] = B"
| "bound_after B (Probe i # es) = bound_after (insert i B) es"
| "bound_after B (Disconnect i # es) = bound_after (B - {i}) es"

definition data_documented :: "('i, 'k) linux_usb \<Rightarrow> bool" where
  "data_documented lu \<longleftrightarrow> (\<forall>i j p k. ZqLinuxUsbGetInterfaceData lu i (ZqLinuxUsbSetInterfaceData lu j p k)
     = (if i = j then p else ZqLinuxUsbGetInterfaceData lu i k))"

text \<open>
  The invariant: each bound interface has a device of its own, there are no other devices, and the
  devices are those that were announced and not yet taken leave of, each of them once.
\<close>

definition device_of :: "('i, 'k) linux_usb \<Rightarrow> 'k usb_world \<Rightarrow> 'i \<Rightarrow> ptr" where
  "device_of lu w i = ZqLinuxUsbGetInterfaceData lu i (uw_kernel w)"

definition usb_inv :: "('i, 'k) linux_usb \<Rightarrow> 'i set \<Rightarrow> 'k usb_world \<Rightarrow> bool" where
  "usb_inv lu B w \<longleftrightarrow>
     heap_ok (uw_devices w) \<and> inj_on (device_of lu w) B
   \<and> device_of lu w ` B = Some ` live_objects (uw_devices w)
   \<and> live_objects (uw_devices w) = {d. Attached d \<in> set (uw_calls w)} - {d. Detached d \<in> set (uw_calls w)}
   \<and> distinct (uw_calls w)
   \<and> (\<forall>d. Attached d \<in> set (uw_calls w) \<or> Detached d \<in> set (uw_calls w) \<longrightarrow> d < brk (uw_devices w))"

lemma callback_call_Some [simp]:
  "load (uw_callbacks w) argument = Some () \<Longrightarrow> callback_call argument c w = Some (w\<lparr>uw_calls := uw_calls w @ [c]\<rparr>)"
  by (simp add: callback_call_def)

lemma lu_onProbe_run:
  assumes "load (uw_callbacks w) argument = Some ()"
  shows "lu_onProbe lu argument i w = Some (w\<lparr>uw_devices := snd (new (uw_devices w) ()), uw_calls := uw_calls w @ [Attached (brk (uw_devices w))],
    uw_kernel := ZqLinuxUsbSetInterfaceData lu i (Some (brk (uw_devices w))) (uw_kernel w)\<rparr>)"
  using assms by (simp add: lu_onProbe_def makeUnique_def new_def up_release_def up_destroy_def up_reset_def Let_def)

lemma lu_onDisconnect_run:
  assumes "load (uw_callbacks w) argument = Some ()" and "device_of lu w i = Some d" and "d \<in> live_objects (uw_devices w)"
  shows "lu_onDisconnect lu argument i w = Some (w\<lparr>uw_devices := (uw_devices w)\<lparr>cells := (cells (uw_devices w))(d := None)\<rparr>,
    uw_calls := uw_calls w @ [Detached d]\<rparr>)"
  using assms
  by (auto simp: lu_onDisconnect_def device_of_def up_deref_def up_destroy_def up_reset_def live_objects_def free_Some Let_def)

lemma usb_inv_probe:
  assumes doc: "data_documented lu" and inv: "usb_inv lu B w" and i: "i \<notin> B" and cb: "load (uw_callbacks w) argument = Some ()"
  shows "\<exists>w'. lu_onProbe lu argument i w = Some w' \<and> usb_inv lu (insert i B) w' \<and> uw_callbacks w' = uw_callbacks w"
proof -
  let ?d = "brk (uw_devices w)"
  obtain w' where w': "lu_onProbe lu argument i w = Some w'" "uw_callbacks w' = uw_callbacks w"
    "uw_devices w' = snd (new (uw_devices w) ())" "uw_calls w' = uw_calls w @ [Attached ?d]"
    "uw_kernel w' = ZqLinuxUsbSetInterfaceData lu i (Some ?d) (uw_kernel w)"
    using that [OF lu_onProbe_run [OF cb]] by simp
  have dev: "device_of lu w' = (device_of lu w)(i := Some ?d)"
    using doc by (auto simp: device_of_def w' data_documented_def)
  have live: "live_objects (uw_devices w') = insert ?d (live_objects (uw_devices w))" "?d \<notin> live_objects (uw_devices w)"
    using inv heap_ok_brk [of "uw_devices w"] by (auto simp: w' live_objects_def new_def usb_inv_def)
  have im: "device_of lu w' ` B = device_of lu w ` B" using i by (auto simp: dev)
  have I: "heap_ok (uw_devices w)" "inj_on (device_of lu w) B" "device_of lu w ` B = Some ` live_objects (uw_devices w)"
    "live_objects (uw_devices w) = {d. Attached d \<in> set (uw_calls w)} - {d. Detached d \<in> set (uw_calls w)}"
    "distinct (uw_calls w)" "\<And>d. Attached d \<in> set (uw_calls w) \<or> Detached d \<in> set (uw_calls w) \<Longrightarrow> d < brk (uw_devices w)"
    using inv unfolding usb_inv_def by blast+
  have fresh: "Some ?d \<notin> device_of lu w ` B" using I(3) live(2) by auto
  have new_calls: "Attached ?d \<notin> set (uw_calls w)" "Detached ?d \<notin> set (uw_calls w)" using I(6) by blast+
  have "inj_on (device_of lu w') (insert i B)"
    unfolding dev using i fresh I(2) by (simp add: inj_on_insert inj_on_fun_updI) blast
  moreover have "device_of lu w' ` insert i B = Some ` live_objects (uw_devices w')"
    unfolding image_insert im I(3) live(1) by (simp add: dev)
  moreover have "live_objects (uw_devices w') = {d. Attached d \<in> set (uw_calls w')} - {d. Detached d \<in> set (uw_calls w')}"
    using live(1) I(4) new_calls by (auto simp: w'(4))
  moreover have "heap_ok (uw_devices w')" using I(1) heap_ok_new by (simp add: w'(3) new_def)
  moreover have "distinct (uw_calls w')" using I(5) new_calls by (simp add: w'(4))
  moreover have "\<forall>d. Attached d \<in> set (uw_calls w') \<or> Detached d \<in> set (uw_calls w') \<longrightarrow> d < brk (uw_devices w')"
    using I(6) less_Suc_eq by (auto simp: w'(3,4) new_def)
  ultimately have "usb_inv lu (insert i B) w'" unfolding usb_inv_def by blast
  then show ?thesis using w' by blast
qed

lemma usb_inv_disconnect:
  assumes inv: "usb_inv lu B w" and i: "i \<in> B" and cb: "load (uw_callbacks w) argument = Some ()"
  shows "\<exists>w'. lu_onDisconnect lu argument i w = Some w' \<and> usb_inv lu (B - {i}) w' \<and> uw_callbacks w' = uw_callbacks w"
proof -
  have "device_of lu w i \<in> Some ` live_objects (uw_devices w)"
    using inv i unfolding usb_inv_def by (metis imageI)
  then obtain d where d: "device_of lu w i = Some d" "d \<in> live_objects (uw_devices w)" by blast
  obtain w' where w': "lu_onDisconnect lu argument i w = Some w'" "uw_callbacks w' = uw_callbacks w"
    "uw_devices w' = (uw_devices w)\<lparr>cells := (cells (uw_devices w))(d := None)\<rparr>" "uw_calls w' = uw_calls w @ [Detached d]"
    "uw_kernel w' = uw_kernel w"
    using that [OF lu_onDisconnect_run [OF cb d]] by simp
  have dev: "device_of lu w' = device_of lu w" by (simp add: device_of_def w' fun_eq_iff)
  have live: "live_objects (uw_devices w') = live_objects (uw_devices w) - {d}" by (auto simp: w' live_objects_def)
  have I: "heap_ok (uw_devices w)" "inj_on (device_of lu w) B" "device_of lu w ` B = Some ` live_objects (uw_devices w)"
    "live_objects (uw_devices w) = {d. Attached d \<in> set (uw_calls w)} - {d. Detached d \<in> set (uw_calls w)}"
    "distinct (uw_calls w)" "\<And>d. Attached d \<in> set (uw_calls w) \<or> Detached d \<in> set (uw_calls w) \<Longrightarrow> d < brk (uw_devices w)"
    using inv unfolding usb_inv_def by blast+
  have calls: "Attached d \<in> set (uw_calls w)" "Detached d \<notin> set (uw_calls w)" using I(4) d(2) by blast+
  have "device_of lu w ` (B - {i}) = device_of lu w ` B - {Some d}"
    using inj_on_image_set_diff [OF I(2), of B "{i}"] i d(1) by simp
  then have "device_of lu w' ` (B - {i}) = Some ` live_objects (uw_devices w')"
    using I(3) live dev by auto
  moreover have "inj_on (device_of lu w') (B - {i})" using I(2) by (simp add: dev inj_on_diff)
  moreover have "live_objects (uw_devices w') = {d. Attached d \<in> set (uw_calls w')} - {d. Detached d \<in> set (uw_calls w')}"
    using live I(4) by (auto simp: w'(4))
  moreover have "heap_ok (uw_devices w')" using I(1) d(2) by (auto simp: w'(3) live_objects_def intro: heap_ok_upd)
  moreover have "distinct (uw_calls w')" using I(5) calls by (simp add: w'(4))
  moreover have "\<forall>x. Attached x \<in> set (uw_calls w') \<or> Detached x \<in> set (uw_calls w') \<longrightarrow> x < brk (uw_devices w')"
    using I(6) calls(1) by (auto simp: w'(3,4))
  ultimately have "usb_inv lu (B - {i}) w'" unfolding usb_inv_def by blast
  then show ?thesis using w' by blast
qed

lemma usb_run_inv:
  assumes "data_documented lu" "usb_inv lu B w" "legal B es" "load (uw_callbacks w) argument = Some ()"
  shows "\<exists>w'. usb_run lu argument es w = Some w' \<and> usb_inv lu (bound_after B es) w' \<and> uw_callbacks w' = uw_callbacks w"
  using assms(2-4)
proof (induction es arbitrary: B w)
  case (Cons e es)
  show ?case
  proof (cases e)
    case (Probe i)
    with Cons.prems usb_inv_probe [OF assms(1) Cons.prems(1), of i argument] Cons.IH [of "insert i B"]
    show ?thesis by fastforce
  next
    case (Disconnect i)
    with Cons.prems usb_inv_disconnect [OF Cons.prems(1), of i argument] Cons.IH [of "B - {i}"]
    show ?thesis by fastforce
  qed
qed simp

section \<open>The driver's registration as a resource\<close>

text \<open>
  Registering gives an address that is not registered, or null; unregistering what is registered
  succeeds. \<open>registered\<close> are the addresses of the registrations. The kernel's functions are put beside
  the world they work on, so that the contract holds for all that behave as documented.
\<close>

definition register_documented :: "('i, 'k) linux_usb \<Rightarrow> ('k usb_world \<Rightarrow> nat set) \<Rightarrow> bool" where
  "register_documented lu registered \<longleftrightarrow>
     (\<forall>name arg w p w'. ZqLinuxUsbRegisterDevice lu name arg w = (p, w') \<longrightarrow>
        set_option p \<inter> registered w = {} \<and> registered w' = set_option p \<union> registered w)
   \<and> (\<forall>a w. a \<in> registered w \<longrightarrow>
        (\<exists>w'. ZqLinuxUsbUnregisterDevice lu (Some a) w = Some w' \<and> registered w' = registered w - {a}))"

type_synonym ('i, 'k) usb_system = "('i, 'k) linux_usb \<times> 'k usb_world"

definition driver_ops :: "string \<Rightarrow> ptr \<Rightarrow> ((ptr, unit) container, ('i, 'k) usb_system) owner_ops" where
  "driver_ops name argument =
     \<lparr>ow_make = (\<lambda>(lu, w). let (p, w1) = ZqLinuxUsbRegisterDevice lu name argument w in (cn_construct p (), lu, w1)),
      ow_move = cn_move_construct nullptr,
      ow_assign = (\<lambda>c d s. let (c1, d1) = cn_move_assign c d in Some (c1, d1, s)),
      ow_destroy = (\<lambda>c (lu, w). map_option (Pair lu) (cn_destroy (driver_deleter lu) c w))\<rparr>"

lemma register_run:
  assumes "register_documented lu registered" "ZqLinuxUsbRegisterDevice lu name arg w = (p, w')"
  shows "set_option p \<inter> registered w = {} \<and> registered w' = set_option p \<union> registered w"
  using assms by (simp add: register_documented_def)

lemma driver_destroy_run:
  assumes "register_documented lu registered" "set_option (cn_mValue c) \<subseteq> registered w"
  shows "\<exists>w'. cn_destroy (driver_deleter lu) c w = Some w' \<and> registered w' = registered w - set_option (cn_mValue c)"
  using assms by (cases "cn_mValue c") (auto simp: cn_destroy_def driver_deleter_def register_documented_def)

interpretation drv: owner "driver_ops name argument" cn_mValue "\<lambda>(lu, w). registered w"
  "\<lambda>(lu, w). register_documented lu registered"
proof (unfold_locales, goal_cases)
  case (1 s x s')
  then show ?case using register_run [of "fst s" registered name argument "snd s"]
    by (auto simp: driver_ops_def cn_construct_def simp del: disjoint_insert split: prod.splits)
next
  case (2 x y x')
  then show ?case by (auto simp: driver_ops_def cn_move_construct_def)
next
  case (3 s x y)
  then show ?case by (auto simp: driver_ops_def cn_move_assign_def)
next
  case (4 s x)
  then show ?case
    using driver_destroy_run [of "fst s" registered x "snd s"] by (fastforce simp: driver_ops_def split: prod.splits)
qed

section \<open>Properties\<close>

text \<open>
  C14: Unique pointers and scoped containers release each resource once: whatever objects a program makes,
  moves, assigns and destroys in whatever order, the live objects of the heap, and the registered
  drivers, are those there were at the start and those that the existing objects own, no two objects own
  the same, and no destructor or assignment releases something a second time.
\<close>

theorem owners_release_once:
  assumes "own_reachable (unique_ops v) \<lparr>objs = \<lambda>_. None, world = h\<rparr> s" and "heap_ok h"
    and "own_reachable (driver_ops name argument) \<lparr>objs = \<lambda>_. None, world = (lu, w)\<rparr> t" and "register_documented lu registered"
  shows "live_objects (world s) = live_objects h \<union> ran (\<lambda>i. Option.bind (objs s i) id)
       \<and> one_owner (\<lambda>i. Option.bind (objs s i) id)
       \<and> (\<forall>i u. objs s i = Some u \<longrightarrow> up_destroy (world s) u \<noteq> None \<and> (\<forall>other. up_move_assign (world s) u other \<noteq> None))
       \<and> registered (snd (world t)) = registered w \<union> ran (\<lambda>i. Option.bind (objs t i) cn_mValue)
       \<and> one_owner (\<lambda>i. Option.bind (objs t i) cn_mValue)
       \<and> (\<forall>i c. objs t i = Some c \<longrightarrow> cn_destroy (driver_deleter (fst (world t))) c (snd (world t)) \<noteq> None)"
proof -
  have u: "resources (\<lambda>u. u) (objs s) = (\<lambda>i. Option.bind (objs s i) id)" by (simp add: resources_def fun_eq_iff id_def)
  have d: "resources cn_mValue (objs t) = (\<lambda>i. Option.bind (objs t i) cn_mValue)" by (simp add: resources_def fun_eq_iff)
  show ?thesis
    using up.owner_safe [OF assms(1,2)] drv.owner_safe [of name argument "(lu, w)" t registered] assms(3,4)
    unfolding u d by (auto simp: unique_ops_def driver_ops_def split: prod.splits)
qed


text \<open>
  Destroying the manager while a device is bound is undefined: the callback object is the manager's last
  member and is deleted first, and unregistering the driver then disconnects the bound interfaces, which
  calls it. Without a bound interface the manager deletes its callback and unregisters. A manager that
  was moved from does nothing.
\<close>

theorem usb_manager_destroy:
  assumes "\<And>w. ZqLinuxUsbUnregisterDevice lu (Some a) w = usb_run lu (Some c) (map Disconnect bound) w"
    and "cells (uw_callbacks w) c = Some ()"
  shows "(let m = \<lparr>um_mDriver = cn_construct (Some a) (), um_mCallback = Some c\<rparr>; (moved, source) = lu_move_construct m
          in moved = m \<and> lu_destroy lu source w = Some w
           \<and> lu_destroy lu m w = (case bound of
                [] \<Rightarrow> Some (w\<lparr>uw_callbacks := (uw_callbacks w)\<lparr>cells := (cells (uw_callbacks w))(c := None)\<rparr>\<rparr>)
              | _ \<Rightarrow> None))"
proof -
  let ?w = "w\<lparr>uw_callbacks := (uw_callbacks w)\<lparr>cells := (cells (uw_callbacks w))(c := None)\<rparr>\<rparr>"
  have "lu_onDisconnect lu (Some c) i ?w = None" for i
    by (auto simp: lu_onDisconnect_def callback_call_def Let_def split: Option.bind_splits)
  then have "lu_destroy lu \<lparr>um_mDriver = cn_construct (Some a) (), um_mCallback = Some c\<rparr> w
      = (case bound of [] \<Rightarrow> Some ?w | _ \<Rightarrow> None)"
    using assms
    by (auto simp: lu_destroy_def cn_destroy_def driver_deleter_def cn_construct_def up_destroy_def up_reset_def free_Some
        split: list.split)
  moreover have "lu_destroy lu \<lparr>um_mDriver = \<lparr>cn_mValue = nullptr, cn_mDeleter = ()\<rparr>, um_mCallback = nullptr\<rparr> w = Some w"
    by (simp add: lu_destroy_def cn_destroy_def driver_deleter_def up_destroy_def up_reset_def)
  ultimately show ?thesis
    by (simp add: lu_move_construct_def cn_move_construct_def up_move_construct_def cn_construct_def)
qed

text \<open>
  The libusb manager hands the callback a device that is closed as soon as the callback has returned, and
  never announces a departure: a device that has left cannot be opened.
\<close>

theorem libusb_devices_closed:
  assumes "load (uw_callbacks w) user_data = Some ()"
    and "fst (libusb_open lib present (uw_kernel w)) = Inr handle" and "fst (libusb_open lib gone (uw_kernel w)) = Inl e"
  shows "(\<exists>w'. gu_libusb_callback lib present True user_data w = Some (0, w')
            \<and> uw_calls w' = uw_calls w @ [Attached handle]
            \<and> uw_kernel w' = libusb_close lib handle (snd (libusb_open lib present (uw_kernel w))))
       \<and> (\<exists>w'. gu_libusb_callback lib gone False user_data w = Some (e, w') \<and> uw_calls w' = uw_calls w)"
  using assms by (auto simp: gu_libusb_callback_def gu_UsbDevice_Create_def split: prod.splits)

section \<open>Instances\<close>

text \<open>A kernel for one driver: its state is the data of the interfaces and whether the driver is registered.\<close>

definition sample_usb :: "(nat, (nat \<Rightarrow> ptr) \<times> bool) linux_usb" where
  "sample_usb =
     \<lparr>ZqLinuxUsbRegisterDevice = (\<lambda>name argument w. if snd (uw_kernel w) then (None, w)
        else (Some 0, w\<lparr>uw_kernel := (fst (uw_kernel w), True)\<rparr>)),
      ZqLinuxUsbUnregisterDevice = (\<lambda>a w. Some (if a = Some 0 then w\<lparr>uw_kernel := (fst (uw_kernel w), False)\<rparr> else w)),
      ZqLinuxUsbSetInterfaceData = (\<lambda>i p k. ((fst k)(i := p), snd k)),
      ZqLinuxUsbGetInterfaceData = (\<lambda>i k. fst k i)\<rparr>"

definition sample_world :: "((nat \<Rightarrow> ptr) \<times> bool) usb_world" where
  "sample_world = \<lparr>uw_devices = empty_heap, uw_callbacks = snd (new empty_heap ()), uw_calls = [], uw_kernel = (\<lambda>_. None, False)\<rparr>"

lemma sample_callback [simp]: "cells (uw_callbacks sample_world) 0 = Some ()"
  by (simp add: sample_world_def new_def empty_heap_def)

lemma owners_release_once_witness:
  "live_objects (snd (new empty_heap (5 :: nat))) = {0}
   \<and> (if snd (uw_kernel (snd (ZqLinuxUsbRegisterDevice sample_usb ''usb'' None sample_world))) then {0} else {}) = {0 :: nat}"
proof -
  let ?reg = "\<lambda>w :: ((nat \<Rightarrow> ptr) \<times> bool) usb_world. if snd (uw_kernel w) then {0} else {} :: nat set"
  have doc: "register_documented sample_usb ?reg" by (auto simp: register_documented_def sample_usb_def)
  let ?s = "\<lparr>objs = [1 \<mapsto> Some 0], world = snd (new empty_heap (5 :: nat))\<rparr> :: (ptr, nat heap) owners"
  have s: "own_reachable (unique_ops 5) \<lparr>objs = \<lambda>_. None, world = empty_heap\<rparr> ?s"
    unfolding own_reachable_def
    using own_step.make [of "\<lparr>objs = \<lambda>_. None, world = empty_heap\<rparr>" 1 "unique_ops 5" "Some 0" "snd (new empty_heap 5)"]
    by (auto simp: unique_ops_def makeUnique_def new_def empty_heap_def)
  let ?w = "snd (ZqLinuxUsbRegisterDevice sample_usb ''usb'' None sample_world)"
  let ?t = "\<lparr>objs = [1 \<mapsto> cn_construct (Some 0) ()], world = (sample_usb, ?w)\<rparr>"
  have t: "own_reachable (driver_ops ''usb'' None) \<lparr>objs = \<lambda>_. None, world = (sample_usb, sample_world)\<rparr> ?t"
    unfolding own_reachable_def
    using own_step.make [of "\<lparr>objs = \<lambda>_. None, world = (sample_usb, sample_world)\<rparr>" 1 "driver_ops ''usb'' None" "cn_construct (Some 0) ()"
        "(sample_usb, ?w)"]
    by (intro r_into_rtranclp) (simp add: driver_ops_def sample_usb_def sample_world_def)
  note safe = owners_release_once [OF s heap_ok_empty t doc]
  note r = safe [THEN conjunct1] safe [THEN conjunct2, THEN conjunct2, THEN conjunct2, THEN conjunct1]
  have m: "ran (\<lambda>i :: nat. Option.bind (if i = Suc 0 then Some x else None) f) = set_option (f x)" for x :: 'x and f :: "'x \<Rightarrow> nat option"
    by (auto simp: ran_def split: if_splits)
  show ?thesis using r by (simp add: m cn_construct_def) (simp add: live_objects_def empty_heap_def sample_world_def)
qed


lemma usb_run_nil: "usb_run lu argument [] = Some"
  by (rule ext) simp

lemma usb_manager_destroy_witness:
  "lu_destroy (sample_usb\<lparr>ZqLinuxUsbUnregisterDevice := \<lambda>_. usb_run sample_usb (Some 0) [Disconnect 3]\<rparr>)
     \<lparr>um_mDriver = cn_construct (Some 7) (), um_mCallback = Some 0\<rparr> sample_world = None"
proof -
  let ?lu = "sample_usb\<lparr>ZqLinuxUsbUnregisterDevice := \<lambda>_. usb_run sample_usb (Some 0) [Disconnect 3]\<rparr>"
  have "ZqLinuxUsbUnregisterDevice ?lu (Some 7) w = usb_run ?lu (Some 0) (map Disconnect [3]) w" for w
    by (simp add: lu_onDisconnect_def usb_run_nil)
  from usb_manager_destroy [OF this sample_callback] show ?thesis
    by (simp add: Let_def split: prod.splits)
qed

lemma libusb_devices_closed_witness:
  "\<exists>w'. gu_libusb_callback \<lparr>libusb_open = \<lambda>d k. if d = 1 then (Inr 9, k) else (Inl (- 4), k), libusb_close = \<lambda>_ k. k\<rparr>
      (2 :: nat) False (Some 0) sample_world = Some (- 4, w') \<and> uw_calls w' = []"
  using libusb_devices_closed [of sample_world "Some 0"
      "\<lparr>libusb_open = \<lambda>d k. if d = 1 then (Inr 9, k) else (Inl (- 4), k), libusb_close = \<lambda>_ k. k\<rparr>" "1 :: nat" 9 2 "- 4"]
  by (simp add: sample_world_def new_def empty_heap_def)

end
