(* ===== verification/IteratorTools.thy ===== *)
theory IteratorTools
  imports LinkedLists
begin

text \<open>
  Base/IteratorTools.hpp: distances and steps of iterators, by loops for iterators that only have \<open>++\<close>
  and \<open>--\<close> and by one operation for those with \<open>-\<close> and \<open>+=\<close>, and the iterators that move or map what
  they give. The iterators' own operations are arguments.
\<close>

section \<open>Distances and steps\<close>

text \<open>\<open>iteratorsRange\<close>: the generic loop, and the version for iterators that can be subtracted.\<close>

partial_function (option) iteratorsRange_loop :: "('i \<Rightarrow> 'i option) \<Rightarrow> 'i \<Rightarrow> 'i \<Rightarrow> size_t \<Rightarrow> size_t option" where
  "iteratorsRange_loop increment iend iterator count =
     (if iterator = iend then Some count
      else Option.bind (increment iterator) (\<lambda>it. iteratorsRange_loop increment iend it (count + 1)))"

definition iteratorsRange :: "('i \<Rightarrow> 'i option) \<Rightarrow> 'i \<Rightarrow> 'i \<Rightarrow> size_t option" where
  "iteratorsRange increment ibegin iend = iteratorsRange_loop increment iend ibegin 0"

definition iteratorsRange_minus :: "('i \<Rightarrow> 'i \<Rightarrow> size_t) \<Rightarrow> 'i \<Rightarrow> 'i \<Rightarrow> size_t" where
  "iteratorsRange_minus sub ibegin iend = sub iend ibegin"

text \<open>\<open>advance\<close>; \<open>n\<close> is a signed number, and the loops step it to 0.\<close>

type_synonym difference = "64 word"

partial_function (option) advance_back :: "('i \<Rightarrow> 'i option) \<Rightarrow> 'i \<Rightarrow> difference \<Rightarrow> 'i option" where
  "advance_back decrement iterator n =
     (if n = 0 then Some iterator
      else Option.bind (decrement iterator) (\<lambda>it. advance_back decrement it (n + 1)))"

partial_function (option) advance_forth :: "('i \<Rightarrow> 'i option) \<Rightarrow> 'i \<Rightarrow> difference \<Rightarrow> 'i option" where
  "advance_forth increment iterator n =
     (if n = 0 then Some iterator
      else Option.bind (increment iterator) (\<lambda>it. advance_forth increment it (n - 1)))"

definition advance :: "('i \<Rightarrow> 'i option) \<Rightarrow> ('i \<Rightarrow> 'i option) \<Rightarrow> 'i \<Rightarrow> difference \<Rightarrow> 'i option" where
  "advance increment decrement iterator n =
     (if n <s 0 then advance_back decrement iterator n else advance_forth increment iterator n)"

definition advance_plus :: "('i \<Rightarrow> difference \<Rightarrow> 'i option) \<Rightarrow> 'i \<Rightarrow> difference \<Rightarrow> 'i option" where
  "advance_plus add_assign iterator n = add_assign iterator n"

definition next_iterator :: "('i \<Rightarrow> 'i option) \<Rightarrow> ('i \<Rightarrow> 'i option) \<Rightarrow> 'i \<Rightarrow> difference \<Rightarrow> 'i option" where
  "next_iterator increment decrement iterator n = advance increment decrement iterator n"

definition prev_iterator :: "('i \<Rightarrow> 'i option) \<Rightarrow> ('i \<Rightarrow> 'i option) \<Rightarrow> 'i \<Rightarrow> difference \<Rightarrow> 'i option" where
  "prev_iterator increment decrement iterator n = advance increment decrement iterator (- n)"

section \<open>Iterators over iterators\<close>

text \<open>
  \<open>MoveIterator\<close> gives the object of its input as one that may be moved from, \<open>ActionIterator\<close> what a
  function gives for it. Both compare their inputs only.
\<close>

record ('i, 'f) action_iterator =
  ac_mInput :: 'i
  ac_mFunction :: 'f

definition mv_deref :: "('i \<Rightarrow> 'v option) \<Rightarrow> 'i \<Rightarrow> 'v option" where
  "mv_deref deref mInput = deref mInput"

definition mv_increment :: "('i \<Rightarrow> 'i option) \<Rightarrow> 'i \<Rightarrow> 'i option" where
  "mv_increment increment mInput = increment mInput"

definition mv_decrement :: "('i \<Rightarrow> 'i option) \<Rightarrow> 'i \<Rightarrow> 'i option" where
  "mv_decrement decrement mInput = decrement mInput"

definition makeActionIterator :: "'i \<Rightarrow> 'f \<Rightarrow> ('i, 'f) action_iterator" where
  "makeActionIterator iterator f = \<lparr>ac_mInput = iterator, ac_mFunction = f\<rparr>"

definition ac_deref :: "('i \<Rightarrow> 'v option) \<Rightarrow> ('i, 'v \<Rightarrow> 'w) action_iterator \<Rightarrow> 'w option" where
  "ac_deref deref it = map_option (ac_mFunction it) (deref (ac_mInput it))"

definition ac_increment :: "('i \<Rightarrow> 'i option) \<Rightarrow> ('i, 'f) action_iterator \<Rightarrow> ('i, 'f) action_iterator option" where
  "ac_increment increment it = map_option (\<lambda>i. it\<lparr>ac_mInput := i\<rparr>) (increment (ac_mInput it))"

definition ac_decrement :: "('i \<Rightarrow> 'i option) \<Rightarrow> ('i, 'f) action_iterator \<Rightarrow> ('i, 'f) action_iterator option" where
  "ac_decrement decrement it = map_option (\<lambda>i. it\<lparr>ac_mInput := i\<rparr>) (decrement (ac_mInput it))"

definition ac_equal :: "('i, 'f) action_iterator \<Rightarrow> ('i, 'f) action_iterator \<Rightarrow> bool" where
  "ac_equal it other \<longleftrightarrow> ac_mInput it = ac_mInput other"

text \<open>Signed distances.\<close>

lemma neg_of_nat_sless:
  assumes "0 < k" "k \<le> 2 ^ 63"
  shows "(- of_nat k :: difference) <s 0" "sint (- of_nat k :: difference) = - int k"
proof -
  have "- of_nat k = (of_int (- int k) :: difference)" by simp
  then show "sint (- of_nat k :: difference) = - int k"
    using assms(2) by (simp only: signed_of_int) (simp add: signed_take_bit_int_eq_self)
  then show "(- of_nat k :: difference) <s 0" using assms(1) by (simp add: word_sless_alt)
qed

lemma of_nat_sless:
  assumes "k < 2 ^ 63"
  shows "\<not> (of_nat k :: difference) <s 0" "sint (of_nat k :: difference) = int k"
  using assms by (simp_all add: word_sless_alt signed_of_nat signed_take_bit_int_eq_self)

section \<open>The contract of a bidirectional iterator\<close>

text \<open>
  \<open>path c ps\<close>: the iterators of the container \<open>c\<close> are \<open>ps\<close>, in order, the last one past its end. From
  the past-the-end iterator a step back is not required.
\<close>

locale bidirectional =
  fixes increment decrement :: "'c \<Rightarrow> 'i \<Rightarrow> 'i option" and path :: "'c \<Rightarrow> 'i list \<Rightarrow> bool"
  assumes distinct_path: "path c ps \<Longrightarrow> distinct ps"
    and increment_path: "path c ps \<Longrightarrow> Suc i < length ps \<Longrightarrow> increment c (ps ! i) = Some (ps ! Suc i)"
    and decrement_path: "path c ps \<Longrightarrow> Suc (Suc i) < length ps \<Longrightarrow> decrement c (ps ! Suc i) = Some (ps ! i)"
begin

lemma range_loop:
  assumes "path c ps" "i \<le> j" "j < length ps"
  shows "iteratorsRange_loop (increment c) (ps ! j) (ps ! i) count = Some (count + of_nat (j - i))"
  using assms(2,3)
proof (induction "j - i" arbitrary: i count)
  case 0
  then show ?case by (simp add: iteratorsRange_loop.simps)
next
  case (Suc d)
  then have "ps ! i \<noteq> ps ! j" using distinct_path [OF assms(1)] by (simp add: nth_eq_iff_index_eq)
  moreover have "increment c (ps ! i) = Some (ps ! Suc i)" using Suc increment_path [OF assms(1), of i] by simp
  moreover have "(of_nat (j - i) :: size_t) = 1 + of_nat (j - Suc i)" using Suc.hyps(2) Suc.prems
    by (metis Suc_diff_Suc of_nat_Suc zero_less_Suc zero_less_diff)
  ultimately show ?case using Suc.hyps(1) [of "Suc i" "count + 1"] Suc.hyps(2) Suc.prems
    by (subst iteratorsRange_loop.simps) (simp add: add.assoc)
qed

lemma distance:
  assumes "path c ps" "i \<le> j" "j < length ps"
  shows "iteratorsRange (increment c) (ps ! i) (ps ! j) = Some (of_nat (j - i))"
  using range_loop [OF assms, of 0] by (simp add: iteratorsRange_def)

lemma step_forth:
  assumes "path c ps" "i + k < length ps" "k < 2 ^ 63"
  shows "advance (increment c) (decrement c) (ps ! i) (of_nat k) = Some (ps ! (i + k))"
proof -
  have "advance_forth (increment c) (ps ! i) (of_nat k) = Some (ps ! (i + k))"
    using assms(2,3)
  proof (induction k arbitrary: i)
    case 0
    then show ?case by (simp add: advance_forth.simps)
  next
    case (Suc k)
    have "(of_nat (Suc k) :: difference) \<noteq> 0" using Suc.prems(2) unat_of_nat_small [of "Suc k"] by fastforce
    then show ?case using Suc.IH [of "Suc i"] Suc.prems increment_path [OF assms(1), of i]
      by (subst advance_forth.simps) simp
  qed
  then show ?thesis using of_nat_sless(1) [OF assms(3)] by (simp add: advance_def)
qed

lemma step_past:
  assumes "path c ps" "increment c (last ps) = None" "i < length ps" "length ps \<le> i + k" "k < 2 ^ 63"
  shows "advance (increment c) (decrement c) (ps ! i) (of_nat k) = None"
proof -
  have "advance_forth (increment c) (ps ! i) (of_nat k) = None"
    using assms(3-5)
  proof (induction k arbitrary: i)
    case (Suc k)
    have n: "(of_nat (Suc k) :: difference) \<noteq> 0" using Suc.prems(3) unat_of_nat_small [of "Suc k"] by fastforce
    show ?case
    proof (cases "Suc i < length ps")
      case True
      then show ?thesis using Suc.IH [of "Suc i"] Suc.prems n increment_path [OF assms(1), of i]
        by (subst advance_forth.simps) simp
    next
      case False
      then have "ps ! i = last ps" using Suc.prems(1) by (metis Suc_lessI diff_Suc_1 last_conv_nth length_0_conv not_less_zero)
      then show ?thesis using assms(2) n by (subst advance_forth.simps) simp
    qed
  qed simp
  then show ?thesis using of_nat_sless(1) [OF assms(5)] by (simp add: advance_def)
qed

lemma step_back:
  assumes "path c ps" "k \<le> i" "Suc i < length ps" "k \<le> 2 ^ 63"
  shows "advance (increment c) (decrement c) (ps ! i) (- of_nat k) = Some (ps ! (i - k))"
proof (cases "k = 0")
  case True
  then show ?thesis by (simp add: advance_def advance_forth.simps)
next
  case False
  have "advance_back (decrement c) (ps ! i) (- of_nat k) = Some (ps ! (i - k))"
    using assms(2-4)
  proof (induction k arbitrary: i)
    case 0
    then show ?case by (simp add: advance_back.simps)
  next
    case (Suc k)
    have "(of_nat (Suc k) :: difference) \<noteq> 0" using Suc.prems(3) unat_of_nat_small [of "Suc k"] by fastforce
    then have n: "(- of_nat (Suc k) :: difference) \<noteq> 0" by (metis neg_equal_0_iff_equal)
    obtain m where m: "i = Suc m" using Suc.prems(1) by (cases i) auto
    have "decrement c (ps ! i) = Some (ps ! m)" using decrement_path [OF assms(1), of m] Suc.prems m by simp
    then show ?case using Suc.IH [of m] Suc.prems n m by (subst advance_back.simps) simp
  qed
  then show ?thesis using neg_of_nat_sless(1) [of k] assms(4) False by (simp add: advance_def)
qed

lemma back_forth:
  assumes "path c ps" "Suc (i + k) < length ps" "k < 2 ^ 63"
  shows "Option.bind (next_iterator (increment c) (decrement c) (ps ! i) (of_nat k))
           (\<lambda>it. prev_iterator (increment c) (decrement c) it (of_nat k)) = Some (ps ! i)"
  using step_forth [OF assms(1) _ assms(3), of i] step_back [OF assms(1) _ assms(2), of k] assms(2,3)
  by (simp add: next_iterator_def prev_iterator_def)

end

section \<open>The iterators of a list and of an array\<close>

definition list_path :: "'a dll_heap \<times> linked_list \<Rightarrow> ptr list \<Rightarrow> bool" where
  "list_path c ps \<longleftrightarrow> (\<exists>es. ll_repr (fst c) (snd c) es \<and> ps = map (Some \<circ> fst) es @ [ll_cend])"

lemma list_path_nth:
  assumes "ll_repr h l es" "i < length es"
  shows "cells h (fst (es ! i)) = Some \<lparr>nd_data = snd (es ! i),
    nd_previous = (case i of 0 \<Rightarrow> None | Suc j \<Rightarrow> Some (fst (es ! j))),
    nd_next = (map (Some \<circ> fst) es @ [ll_cend]) ! Suc i\<rparr>"
proof -
  have "es = take i es @ es ! i # drop (Suc i) es" using assms(2) by (rule id_take_nth_drop)
  moreover have "last_ptr (take i es) None = (case i of 0 \<Rightarrow> None | Suc j \<Rightarrow> Some (fst (es ! j)))"
    using assms(2) by (auto simp: last_ptr_def take_Suc_conv_app_nth split: nat.split)
  moreover have "first_ptr (drop (Suc i) es) None = (map (Some \<circ> fst) es @ [ll_cend]) ! Suc i"
    using assms(2) by (cases "Suc i < length es") (auto simp: Cons_nth_drop_Suc [symmetric] nth_append ll_cend_def)
  ultimately show ?thesis
    using ll_repr_load [of h l "take i es" "fst (es ! i)" "snd (es ! i)" "drop (Suc i) es"] assms(1) by simp
qed

interpretation lit: bidirectional "\<lambda>c. it_next (fst c)" "\<lambda>c. it_previous (fst c)" list_path
proof
  fix c :: "'a dll_heap \<times> linked_list" and ps :: "ptr list" and i
  assume "list_path c ps"
  then obtain es where r: "ll_repr (fst c) (snd c) es" and ps: "ps = map (Some \<circ> fst) es @ [ll_cend]"
    by (auto simp: list_path_def)
  show "distinct ps"
    using ll_repr_distinct [OF r] by (auto simp: ps ll_cend_def distinct_map intro!: comp_inj_on)
  show "it_next (fst c) (ps ! i) = Some (ps ! Suc i)" if "Suc i < length ps"
    using that list_path_nth [OF r, of i] by (simp add: ps it_next_def nth_append)
  show "it_previous (fst c) (ps ! Suc i) = Some (ps ! i)" if "Suc (Suc i) < length ps"
    using that list_path_nth [OF r, of "Suc i"] by (simp add: ps it_previous_def nth_append)
qed

text \<open>The elements of an array of \<open>n\<close> objects by their index, \<open>n\<close> being past the end; other pointers are undefined.\<close>

definition array_increment :: "nat \<Rightarrow> nat \<Rightarrow> nat option" where
  "array_increment n i = (if i < n then Some (Suc i) else None)"

definition array_decrement :: "nat \<Rightarrow> nat \<Rightarrow> nat option" where
  "array_decrement n i = (if 0 < i \<and> i \<le> n then Some (i - 1) else None)"

definition array_add :: "nat \<Rightarrow> nat \<Rightarrow> difference \<Rightarrow> nat option" where
  "array_add n i d = (if 0 \<le> int i + sint d \<and> int i + sint d \<le> int n then Some (nat (int i + sint d)) else None)"

definition array_sub :: "nat \<Rightarrow> nat \<Rightarrow> size_t" where
  "array_sub i j = of_nat i - of_nat j"

definition array_path :: "nat \<Rightarrow> nat list \<Rightarrow> bool" where
  "array_path n ps \<longleftrightarrow> ps = [0..<Suc n]"

interpretation ait: bidirectional array_increment array_decrement array_path
  by unfold_locales (auto simp: array_path_def array_increment_def array_decrement_def simp del: upt_Suc)

lemma array_decrement_simps [simp]:
  "array_decrement n 0 = None" "Suc m \<le> n \<Longrightarrow> array_decrement n (Suc m) = Some m"
  by (simp_all add: array_decrement_def)

lemma array_back:
  assumes "i \<le> n" "k \<le> 2 ^ 63"
  shows "advance_back (array_decrement n) i (- of_nat k) = (if k \<le> i then Some (i - k) else None)"
  using assms
proof (induction k arbitrary: i)
  case 0
  then show ?case by (simp add: advance_back.simps)
next
  case (Suc k)
  have "(of_nat (Suc k) :: difference) \<noteq> 0" using Suc.prems(2) unat_of_nat_small [of "Suc k"] by fastforce
  then have n: "(- of_nat (Suc k) :: difference) \<noteq> 0" by (metis neg_equal_0_iff_equal)
  show ?case
  proof (cases i)
    case 0
    then show ?thesis using n by (subst advance_back.simps) simp
  next
    case (Suc m)
    then show ?thesis using Suc.IH [of m] Suc.prems n by (subst advance_back.simps) simp
  qed
qed

text \<open>On an array the generic loop and \<open>+=\<close> agree, also where they are undefined.\<close>

lemma array_advance:
  assumes "i \<le> n"
  shows "advance (array_increment n) (array_decrement n) i d = array_add n i d"
proof (cases "d <s 0")
  case True
  define k where "k = nat (- sint d)"
  have s: "sint d < 0" "- (2 ^ 63) \<le> sint d" using True sint_ge [of d] by (simp_all add: word_sless_alt)
  then have "int k = - sint d" "0 < k" "k \<le> 2 ^ 63" by (simp_all add: k_def)
  then have "d = - of_nat k" using neg_of_nat_sless(2) [of k] by (metis add.inverse_inverse signed_word_eqI)
  then show ?thesis using True array_back [OF assms \<open>k \<le> 2 ^ 63\<close>] neg_of_nat_sless(2) [OF \<open>0 < k\<close> \<open>k \<le> 2 ^ 63\<close>] assms
    by (auto simp: advance_def array_add_def)
next
  case False
  define k where "k = nat (sint d)"
  have s: "0 \<le> sint d" "sint d < 2 ^ 63" using False sint_lt [of d] by (simp_all add: word_sless_alt)
  then have k: "int k = sint d" "k < 2 ^ 63" by (simp_all add: k_def)
  have d: "d = of_nat k" using k(1) of_nat_sless(2) [OF k(2)] by (metis signed_word_eqI)
  have p: "array_path n [0..<Suc n]" by (simp add: array_path_def)
  show ?thesis
  proof (cases "i + k \<le> n")
    case True
    then show ?thesis using ait.step_forth [OF p _ k(2), of i] k(1) assms d by (simp add: array_add_def del: upt_Suc)
  next
    case False
    then show ?thesis using ait.step_past [OF p _ _ _ k(2), of i] k(1) assms d
      by (auto simp: array_add_def array_increment_def simp del: upt_Suc)
  qed
qed

section \<open>Properties\<close>

text \<open>
  C27: The iterator helpers on a list and on an array. On a list \<open>iteratorsRange\<close> from begin to end counts
  the elements, \<open>next\<close> of the begin by \<open>k\<close> gives the \<open>k\<close>-th element, or is undefined past the end,
  \<open>prev\<close> undoes \<open>next\<close>, and an \<open>ActionIterator\<close> gives the mapped elements. On an array the loops agree
  with the subtraction and the addition of pointers, for every signed distance.
\<close>

theorem iterator_tools:
  assumes "ll_repr h l es" and "length es < 2 ^ 63"
  shows "iteratorsRange (it_next h) (mBegin l) ll_cend = Some (mSize l)
    \<and> (\<forall>k < 2 ^ 63. next_iterator (it_next h) (it_previous h) (mBegin l) (of_nat k)
         = (if k < length es then Some (Some (fst (es ! k))) else if k = length es then Some ll_cend else None))
    \<and> (\<forall>i k. i + k < length es \<longrightarrow>
         prev_iterator (it_next h) (it_previous h) (Some (fst (es ! (i + k)))) (of_nat k) = Some (Some (fst (es ! i))))
    \<and> (\<forall>i < length es. ac_deref (it_deref h) (makeActionIterator (Some (fst (es ! i))) f) = Some (f (snd (es ! i))))
    \<and> (\<forall>n i j. i \<le> j \<and> j \<le> n \<longrightarrow> iteratorsRange (array_increment n) i j = Some (iteratorsRange_minus array_sub i j))
    \<and> (\<forall>n i d. i \<le> n \<longrightarrow> advance (array_increment n) (array_decrement n) i d = advance_plus (array_add n) i d)"
proof (intro conjI allI impI)
  let ?ps = "map (Some \<circ> fst) es @ [ll_cend]"
  have p: "list_path (h, l) ?ps" using assms(1) by (auto simp: list_path_def)
  have b: "mBegin l = ?ps ! 0" using ll_repr_begin [OF assms(1)] by (cases es) (auto simp: ll_cend_def)
  have e: "ll_cend = ?ps ! length es" by (simp add: nth_append)
  show "iteratorsRange (it_next h) (mBegin l) ll_cend = Some (mSize l)"
    using lit.distance [OF p, of 0 "length es"] ll_repr_size [OF assms(1)] b e by simp
  have past: "it_next h (last ?ps) = None" by (simp add: it_next_def ll_cend_def)
  show "next_iterator (it_next h) (it_previous h) (mBegin l) (of_nat k)
      = (if k < length es then Some (Some (fst (es ! k))) else if k = length es then Some ll_cend else None)"
    if "k < 2 ^ 63" for k
    using lit.step_forth [OF p _ that, of 0] lit.step_past [OF p _ _ _ that, of 0] past b
    by (auto simp: next_iterator_def nth_append)
  show "prev_iterator (it_next h) (it_previous h) (Some (fst (es ! (i + k)))) (of_nat k) = Some (Some (fst (es ! i)))"
    if "i + k < length es" for i k
    using lit.step_back [OF p, of k "i + k"] that assms(2) by (simp add: prev_iterator_def nth_append)
  show "ac_deref (it_deref h) (makeActionIterator (Some (fst (es ! i))) f) = Some (f (snd (es ! i)))" if "i < length es" for i
    using ll_repr_deref [OF assms(1), of "fst (es ! i)" "snd (es ! i)"] that
    by (simp add: ac_deref_def makeActionIterator_def)
next
  fix n i j :: nat assume "i \<le> j \<and> j \<le> n"
  then show "iteratorsRange (array_increment n) i j = Some (iteratorsRange_minus array_sub i j)"
    using ait.distance [of n "[0..<Suc n]" i j]
    by (simp add: array_path_def iteratorsRange_minus_def array_sub_def of_nat_diff del: upt_Suc)
next
  fix n i :: nat and d assume "i \<le> n"
  then show "advance (array_increment n) (array_decrement n) i d = advance_plus (array_add n) i d"
    by (simp add: array_advance advance_plus_def)
qed

text \<open>A list of two elements.\<close>

definition pair_heap :: "nat dll_heap" where
  "pair_heap = \<lparr>cells = [0 \<mapsto> \<lparr>nd_data = 7, nd_previous = None, nd_next = Some 1\<rparr>,
      1 \<mapsto> \<lparr>nd_data = 8, nd_previous = Some 0, nd_next = None\<rparr>], brk = 2\<rparr>"

lemma iterator_tools_witness:
  "iteratorsRange (it_next pair_heap) (Some 0) ll_cend = Some 2
   \<and> next_iterator (it_next pair_heap) (it_previous pair_heap) (Some 0) 1 = Some (Some 1)"
proof -
  have r: "ll_repr pair_heap \<lparr>mBegin = Some 0, mBeforeEnd = Some 1, mSize = 2\<rparr> [(0, 7), (1, 8)]"
    by (auto simp: ll_repr_def pair_heap_def heap_ok_def)
  have l: "length [(0 :: nat, 7 :: nat), (1, 8)] < 2 ^ 63" by simp
  note t = iterator_tools [OF r l]
  show ?thesis using t [THEN conjunct1] t [THEN conjunct2, THEN conjunct1, rule_format, of 1] by simp
qed

end
