(* ===== verification/KernelLocks.thy ===== *)
theory KernelLocks
  imports Locks
begin

text \<open>
  Platforms/Linux/CppCore/Mutex.c and SpinLock.c: the platform's locks, each an object that the kernel
  allocates and a variable that holds its address. The kernel's functions are the fields of
  \<open>lock_kernel\<close>; one that waits for ever, or gets an address at which no lock was initialised, has the
  value \<open>None\<close>. The reader-writer lock is only declared on Linux.
\<close>

section \<open>The kernel's functions\<close>

type_synonym address = "64 word"

record 'k lock_kernel =
  lk_ZqAllocate :: "'k \<Rightarrow> address \<times> 'k"
  lk_ZqDeallocate :: "address \<Rightarrow> 'k \<Rightarrow> 'k"
  mutex_init :: "address \<Rightarrow> 'k \<Rightarrow> 'k"
  mutex_lock :: "address \<Rightarrow> 'k \<Rightarrow> 'k option"
  mutex_unlock :: "address \<Rightarrow> 'k \<Rightarrow> 'k option"
  mutex_trylock :: "address \<Rightarrow> 'k \<Rightarrow> 32 word \<times> 'k"
  spin_lock_init :: "address \<Rightarrow> 'k \<Rightarrow> 'k"
  spin_lock :: "address \<Rightarrow> 'k \<Rightarrow> 'k option"
  spin_unlock :: "address \<Rightarrow> 'k \<Rightarrow> 'k option"
  spin_trylock :: "address \<Rightarrow> 'k \<Rightarrow> 32 word \<times> 'k"

section \<open>Mutex.c and SpinLock.c\<close>

text \<open>The functions get the address \<open>v\<close> of the variable; the state is the variables and the kernel.\<close>

type_synonym 'k lock_state = "(address \<Rightarrow> address) \<times> 'k"

definition ZqMutexInit :: "'k lock_kernel \<Rightarrow> address \<Rightarrow> 'k lock_state \<Rightarrow> 'k lock_state" where
  "ZqMutexInit lk v s =
     (let (a, k) = lk_ZqAllocate lk (snd s); vars = (fst s)(v := a) in (vars, mutex_init lk (vars v) k))"

definition ZqMutexDeinit :: "'k lock_kernel \<Rightarrow> address \<Rightarrow> 'k lock_state \<Rightarrow> 'k lock_state" where
  "ZqMutexDeinit lk v s = (fst s, lk_ZqDeallocate lk (fst s v) (snd s))"

definition ZqMutexLock :: "'k lock_kernel \<Rightarrow> address \<Rightarrow> 'k lock_state \<Rightarrow> 'k lock_state option" where
  "ZqMutexLock lk v s = map_option (Pair (fst s)) (mutex_lock lk (fst s v) (snd s))"

definition ZqMutexUnlock :: "'k lock_kernel \<Rightarrow> address \<Rightarrow> 'k lock_state \<Rightarrow> 'k lock_state option" where
  "ZqMutexUnlock lk v s = map_option (Pair (fst s)) (mutex_unlock lk (fst s v) (snd s))"

definition ZqMutexTryLock :: "'k lock_kernel \<Rightarrow> address \<Rightarrow> 'k lock_state \<Rightarrow> bool \<times> 'k lock_state" where
  "ZqMutexTryLock lk v s = (let (r, k) = mutex_trylock lk (fst s v) (snd s) in (r = 1, fst s, k))"

text \<open>The spin lock's last three functions take the address of the variable for that of the lock.\<close>

definition ZqSpinLockInit :: "'k lock_kernel \<Rightarrow> address \<Rightarrow> 'k lock_state \<Rightarrow> 'k lock_state" where
  "ZqSpinLockInit lk v s =
     (let (a, k) = lk_ZqAllocate lk (snd s); vars = (fst s)(v := a) in (vars, spin_lock_init lk (vars v) k))"

definition ZqSpinLockDeinit :: "'k lock_kernel \<Rightarrow> address \<Rightarrow> 'k lock_state \<Rightarrow> 'k lock_state" where
  "ZqSpinLockDeinit lk v s = (fst s, lk_ZqDeallocate lk (fst s v) (snd s))"

definition ZqSpinLockLock :: "'k lock_kernel \<Rightarrow> address \<Rightarrow> 'k lock_state \<Rightarrow> 'k lock_state option" where
  "ZqSpinLockLock lk v s = map_option (Pair (fst s)) (spin_lock lk v (snd s))"

definition ZqSpinLockUnlock :: "'k lock_kernel \<Rightarrow> address \<Rightarrow> 'k lock_state \<Rightarrow> 'k lock_state option" where
  "ZqSpinLockUnlock lk v s = map_option (Pair (fst s)) (spin_unlock lk v (snd s))"

definition ZqSpinLockTryLock :: "'k lock_kernel \<Rightarrow> address \<Rightarrow> 'k lock_state \<Rightarrow> bool \<times> 'k lock_state" where
  "ZqSpinLockTryLock lk v s = (let (r, k) = spin_trylock lk v (snd s) in (r = 1, fst s, k))"

section \<open>The mutex as a lock of \<open>Locks\<close>\<close>

text \<open>
  \<open>Locks\<close> works with the handles that the variables hold. The functions above are those of this platform
  at the handle of a variable; there is no shared mode.
\<close>

definition mutex_platform :: "'k lock_kernel \<Rightarrow> (address, 'k) lock_platform" where
  "mutex_platform lk =
     \<lparr>lk_init = (\<lambda>k. let (a, k1) = lk_ZqAllocate lk k in (Some a, mutex_init lk a k1)),
      lk_deinit = (\<lambda>h k. case h of None \<Rightarrow> k | Some a \<Rightarrow> lk_ZqDeallocate lk a k),
      lk_tryLock = (\<lambda>h k. case h of None \<Rightarrow> (False, k) | Some a \<Rightarrow> (let (r, k1) = mutex_trylock lk a k in (r = 1, k1))),
      lk_lockRead = (\<lambda>_ _. None), lk_unlockRead = (\<lambda>_ _. None),
      lk_lockWrite = (\<lambda>h k. Option.bind h (\<lambda>a. mutex_lock lk a k)),
      lk_unlockWrite = (\<lambda>h k. Option.bind h (\<lambda>a. mutex_unlock lk a k))\<rparr>"

lemma mutex_platform_functions:
  "ZqMutexInit lk v (m, k) = (case rw_construct (mutex_platform lk) k of (h, k1) \<Rightarrow> (m(v := the h), k1))"
  "ZqMutexLock lk v (m, k) = map_option (Pair m) (lk_lockWrite (mutex_platform lk) (Some (m v)) k)"
  "ZqMutexUnlock lk v (m, k) = map_option (Pair m) (lk_unlockWrite (mutex_platform lk) (Some (m v)) k)"
  "ZqMutexTryLock lk v (m, k) = (case lk_tryLock (mutex_platform lk) (Some (m v)) k of (r, k1) \<Rightarrow> (r, m, k1))"
  "ZqMutexDeinit lk v (m, k) = (m, lk_deinit (mutex_platform lk) (Some (m v)) k)"
  by (simp_all add: ZqMutexInit_def ZqMutexLock_def ZqMutexUnlock_def ZqMutexTryLock_def ZqMutexDeinit_def
      mutex_platform_def rw_construct_def split: prod.splits)

text \<open>
  As documented: at an address there may be an initialised mutex, locked or not, or an initialised spin
  lock; locking waits for the lock to be free and is undefined where none was initialised. Allocating
  memory leaves the locks as they are.
\<close>

definition locks_documented ::
  "'k lock_kernel \<Rightarrow> ('k \<Rightarrow> address \<Rightarrow> bool option) \<Rightarrow> ('k \<Rightarrow> address \<Rightarrow> bool option) \<Rightarrow> bool" where
  "locks_documented lk mutexes spins \<longleftrightarrow>
     (\<forall>k. mutexes (snd (lk_ZqAllocate lk k)) = mutexes k \<and> spins (snd (lk_ZqAllocate lk k)) = spins k)
   \<and> (\<forall>a k. mutexes (mutex_init lk a k) = (mutexes k)(a \<mapsto> False) \<and> spins (spin_lock_init lk a k) = (spins k)(a \<mapsto> False))
   \<and> (\<forall>a k. (case mutex_lock lk a k of None \<Rightarrow> mutexes k a \<noteq> Some False
        | Some k' \<Rightarrow> mutexes k a = Some False \<and> mutexes k' = (mutexes k)(a \<mapsto> True)))
   \<and> (\<forall>a k. mutexes k a = Some True \<longrightarrow> (\<exists>k'. mutex_unlock lk a k = Some k' \<and> mutexes k' = (mutexes k)(a \<mapsto> False)))
   \<and> (\<forall>a k b. mutexes k a = Some b \<longrightarrow>
        fst (mutex_trylock lk a k) = (if b then 0 else 1) \<and> mutexes (snd (mutex_trylock lk a k)) = (mutexes k)(a \<mapsto> True))
   \<and> (\<forall>a k. spin_lock lk a k = None \<longleftrightarrow> spins k a \<noteq> Some False)"

lemma documented_mutex_lock:
  "locks_documented lk mutexes spins \<Longrightarrow> mutex_lock lk a k = Some k' \<Longrightarrow>
     mutexes k a = Some False \<and> mutexes k' = (mutexes k)(a \<mapsto> True)"
  unfolding locks_documented_def by (auto split: option.splits)

lemma documented_mutex_unlock:
  "locks_documented lk mutexes spins \<Longrightarrow> mutexes k a = Some True \<Longrightarrow>
     \<exists>k'. mutex_unlock lk a k = Some k' \<and> mutexes k' = (mutexes k)(a \<mapsto> False)"
  unfolding locks_documented_def by blast

lemma documented_mutex_trylock:
  "locks_documented lk mutexes spins \<Longrightarrow> mutexes k a = Some b \<Longrightarrow>
     mutexes (snd (mutex_trylock lk a k)) = (mutexes k)(a \<mapsto> True)"
  unfolding locks_documented_def by blast

lemma documented_init:
  assumes "locks_documented lk mutexes spins"
  shows "ZqMutexInit lk v (m, k) = (m1, k1) \<Longrightarrow> mutexes k1 (m1 v) = Some False"
    and "ZqSpinLockInit lk v (m, k) = (m1, k1) \<Longrightarrow> spins k1 = (spins k)(m1 v \<mapsto> False)"
  using assms unfolding locks_documented_def ZqMutexInit_def ZqSpinLockInit_def
  by (auto split: prod.splits) (metis snd_conv)

lemma documented_spin_lock:
  "locks_documented lk mutexes spins \<Longrightarrow> spin_lock lk a k = None \<longleftrightarrow> spins k a \<noteq> Some False"
  unfolding locks_documented_def by blast

lemma mutex_documented:
  assumes "locks_documented lk mutexes spins"
  shows "rw_documented (mutex_platform lk) (Some a) (\<lambda>k. (0, mutexes k a = Some True))"
  unfolding rw_documented_def
  using documented_mutex_lock [OF assms] documented_mutex_unlock [OF assms]
  by (fastforce simp: mutex_platform_def)

lemma mutex_no_readers:
  assumes "rw_reachable (mutex_platform lk) s s'" "st_guards s = Map.empty"
  shows "readers (st_guards s') = {}"
  using assms(1) unfolding rw_reachable_def
proof (induction rule: rtranclp_induct)
  case base
  then show ?case using assms(2) by (simp add: readers_def)
next
  case (step t u)
  from step.hyps(2) step.IH show ?case
    by (cases rule: rw_stepE)
      (auto simp: readers_def rl_getRead_Some rl_getWrite_Some mutex_platform_def sc_move_guard_def split: if_splits)
qed

text \<open>
  C21: The locks of Linux. Threads that share a value behind an initialised mutex exclude each other: at most
  one guard locks, and the mutex is locked exactly while one does. When none does, the destructor of the
  mutex locks it and frees it locked. A spin lock is never the lock that was initialised: locking works
  on the variable that holds its address, where there is no lock, so the guard of a spin lock has no
  defined behaviour, although the allocated lock is free.
\<close>

theorem linux_locks:
  assumes "locks_documented lk mutexes spins" and "ZqMutexInit lk v (m, k) = (m1, k1)"
    and "rw_reachable (mutex_platform lk) \<lparr>st_locked = \<lparr>rl_mLock = Some (m1 v), rl_mValue = x\<rparr>, st_platform = k1, st_guards = Map.empty\<rparr> s"
    and "ZqSpinLockInit lk u (m, k) = (m2, k2)" and "spins k u = None" and "m2 u \<noteq> u"
  shows "(\<forall>i j. i \<in> readers (st_guards s) \<union> writers (st_guards s) \<longrightarrow> j \<in> readers (st_guards s) \<union> writers (st_guards s) \<longrightarrow> i = j)
       \<and> (mutexes (st_platform s) (m1 v) = Some True \<longleftrightarrow> writers (st_guards s) \<noteq> {})
       \<and> (mutexes (st_platform s) (m1 v) = Some False \<longrightarrow> (\<exists>k'. mutexes k' (m1 v) = Some True
            \<and> mx_destroy (mutex_platform lk) (Some (m1 v)) (st_platform s) = lk_ZqDeallocate lk (m1 v) k'))
       \<and> ZqSpinLockLock lk u (m2, k2) = None \<and> spin_lock lk (m2 u) k2 \<noteq> None"
proof -
  let ?held = "\<lambda>k. (0 :: nat, mutexes k (m1 v) = Some True)"
  let ?s0 = "\<lparr>st_locked = \<lparr>rl_mLock = Some (m1 v), rl_mValue = x\<rparr>, st_platform = k1, st_guards = Map.empty\<rparr>"
  have "mutexes k1 (m1 v) = Some False" by (rule documented_init(1) [OF assms(1,2)])
  then have "rw_inv ?held ?s0" by (simp add: rw_inv_def readers_def writers_def)
  then have inv: "rw_inv ?held s"
    using rw_reachable_inv [OF assms(3), of ?held] mutex_documented [OF assms(1)] by simp
  have r: "readers (st_guards s) = {}" using mutex_no_readers [OF assms(3)] by simp
  have mutex: "i = j" if "i \<in> writers (st_guards s)" "j \<in> writers (st_guards s)" for i j
    using rw_inv_exclusive [OF inv] that by blast
  have held: "mutexes (st_platform s) (m1 v) = Some True \<longleftrightarrow> writers (st_guards s) \<noteq> {}"
    using inv by (auto simp: rw_inv_def split: if_splits)
  have destroy: "\<exists>k'. mutexes k' (m1 v) = Some True
      \<and> mx_destroy (mutex_platform lk) (Some (m1 v)) (st_platform s) = lk_ZqDeallocate lk (m1 v) k'"
    if "mutexes (st_platform s) (m1 v) = Some False"
  proof (intro exI conjI)
    show "mutexes (snd (mutex_trylock lk (m1 v) (st_platform s))) (m1 v) = Some True"
      using documented_mutex_trylock [OF assms(1) that] by simp
  qed (simp add: mx_destroy_def mutex_platform_def split: prod.splits)
  have "spins k2 = (spins k)(m2 u \<mapsto> False)" by (rule documented_init(2) [OF assms(1,4)])
  then have "spin_lock lk u k2 = None" "spin_lock lk (m2 u) k2 \<noteq> None"
    using documented_spin_lock [OF assms(1)] assms(5,6) by simp_all
  then show ?thesis using r mutex held destroy by (auto simp: ZqSpinLockLock_def)
qed

text \<open>A kernel that keeps the two kinds of locks in two maps and gives out the address 8.\<close>

definition sample_locks :: "((address \<Rightarrow> bool option) \<times> (address \<Rightarrow> bool option)) lock_kernel" where
  "sample_locks =
     \<lparr>lk_ZqAllocate = (\<lambda>k. (8, k)), lk_ZqDeallocate = (\<lambda>_ k. k),
      mutex_init = (\<lambda>a k. ((fst k)(a \<mapsto> False), snd k)),
      mutex_lock = (\<lambda>a k. if fst k a = Some False then Some ((fst k)(a \<mapsto> True), snd k) else None),
      mutex_unlock = (\<lambda>a k. if fst k a = Some True then Some ((fst k)(a \<mapsto> False), snd k) else None),
      mutex_trylock = (\<lambda>a k. (if fst k a = Some True then 0 else 1, (fst k)(a \<mapsto> True), snd k)),
      spin_lock_init = (\<lambda>a k. (fst k, (snd k)(a \<mapsto> False))),
      spin_lock = (\<lambda>a k. if snd k a = Some False then Some (fst k, (snd k)(a \<mapsto> True)) else None),
      spin_unlock = (\<lambda>a k. if snd k a = Some True then Some (fst k, (snd k)(a \<mapsto> False)) else None),
      spin_trylock = (\<lambda>a k. (if snd k a = Some True then 0 else 1, fst k, (snd k)(a \<mapsto> True)))\<rparr>"

lemma linux_locks_witness:
  "(case ZqSpinLockInit sample_locks 100 (\<lambda>_. 0, \<lambda>_. None, \<lambda>_. None) of s \<Rightarrow> ZqSpinLockLock sample_locks 100 s = None)
   \<and> (\<exists>k'. fst k' 8 = Some True \<and> mx_destroy (mutex_platform sample_locks) (Some 8) ([8 \<mapsto> False], \<lambda>_. None)
        = lk_ZqDeallocate sample_locks 8 k')"
proof -
  have d: "locks_documented sample_locks fst snd"
    by (auto simp: locks_documented_def sample_locks_def split: option.splits)
  let ?m = "(\<lambda>_. 0)(100 := 8) :: address \<Rightarrow> address"
  have i: "ZqMutexInit sample_locks 100 (\<lambda>_. 0, \<lambda>_. None, \<lambda>_. None) = (?m, [8 \<mapsto> False], \<lambda>_. None)"
    by (simp add: ZqMutexInit_def sample_locks_def)
  have s: "ZqSpinLockInit sample_locks 100 (\<lambda>_. 0, \<lambda>_. None, \<lambda>_. None) = (?m, \<lambda>_. None, [8 \<mapsto> False])"
    by (simp add: ZqSpinLockInit_def sample_locks_def)
  let ?s = "\<lparr>st_locked = \<lparr>rl_mLock = Some (?m 100), rl_mValue = 5 :: nat\<rparr>, st_platform = ([8 \<mapsto> False], \<lambda>_. None), st_guards = Map.empty\<rparr>"
  have "rw_reachable (mutex_platform sample_locks) ?s ?s" by (simp add: rw_reachable_def)
  from linux_locks [OF d i this s] show ?thesis by (auto simp: s)
qed

end
