(* ===== verification/SystemCalls.thy ===== *)
theory SystemCalls
  imports ZqPrelude
begin

text \<open>
  Platforms/Linux/CppCore/SystemCalls.c: the hook on the system calls of the traced threads, a kernel
  probe on the function that enters a system call. \<open>register_kprobe\<close> is the kernel's and an argument.
\<close>

section \<open>Registers and hooks\<close>

record pt_regs =
  rg_ax :: "64 word"
  rg_ip :: "64 word"
  rg_di :: "64 word"

text \<open>A hook gets the registers and the place of the result, which is the register \<open>ax\<close>, and says whether it took the call.\<close>

type_synonym 'w syscall_hook = "pt_regs \<Rightarrow> 'w \<Rightarrow> bool \<times> pt_regs \<times> 'w"

text \<open>The global variables; a function pointer that was never set is \<open>None\<close>.\<close>

record ('w, 'k) syscall_state =
  is_syscall_hook_initialized :: bool
  syscall_hook :: "'w syscall_hook option"
  syscall_function :: "(pt_regs \<Rightarrow> 'w \<Rightarrow> pt_regs \<times> 'w) option"
  sc_kernel :: 'k

definition initial_state :: "'k \<Rightarrow> ('w, 'k) syscall_state" where
  "initial_state k =
     \<lparr>is_syscall_hook_initialized = False, syscall_hook = None, syscall_function = None, sc_kernel = k\<rparr>"

section \<open>The functions\<close>

text \<open>The handler of the probe at \<open>addr\<close>: 0 lets the kernel go on, 1 says that the instruction pointer was changed.\<close>

definition syscall_kprobe_pre_handler ::
  "('w, 'k) syscall_state \<Rightarrow> 64 word \<Rightarrow> pt_regs \<Rightarrow> 'w \<Rightarrow> (int \<times> pt_regs \<times> 'w) option" where
  "syscall_kprobe_pre_handler s addr regs w = do {
     hook \<leftarrow> syscall_hook s;
     let (taken, regs1, w1) = hook regs w;
     (if \<not> taken then Some (0, regs1, w1)
      else Some (1, regs1\<lparr>rg_ip := addr + 1\<rparr>, w1))
   }"

definition kprobe_empty_break_handler :: "pt_regs \<Rightarrow> int" where
  "kprobe_empty_break_handler a = 0"

definition init_system_calls_hook ::
  "('k \<Rightarrow> 32 word \<times> 'k) \<Rightarrow> ('w, 'k) syscall_state \<Rightarrow> bool \<times> ('w, 'k) syscall_state" where
  "init_system_calls_hook register_kprobe s =
     (let (r, k) = register_kprobe (sc_kernel s) in (\<not> r <s 0, s\<lparr>sc_kernel := k\<rparr>))"

definition ZqInitSystemCallsHook ::
  "('k \<Rightarrow> 32 word \<times> 'k) \<Rightarrow> 'w syscall_hook \<Rightarrow> ('w, 'k) syscall_state \<Rightarrow> ('w, 'k) syscall_state" where
  "ZqInitSystemCallsHook register_kprobe hook s =
     (let s1 = s\<lparr>syscall_hook := Some hook\<rparr>
      in if \<not> is_syscall_hook_initialized s1 then snd (init_system_calls_hook register_kprobe s1) else s1)"

definition ZqCallSyscall :: "('w, 'k) syscall_state \<Rightarrow> pt_regs \<Rightarrow> 'w \<Rightarrow> (64 word \<times> pt_regs \<times> 'w) option" where
  "ZqCallSyscall s regs w = do {
     f \<leftarrow> syscall_function s;
     let (regs1, w1) = f regs w;
     Some (rg_ax regs1, regs1, w1)
   }"

section \<open>Properties\<close>

lemma init_fold:
  "fold (ZqInitSystemCallsHook register_kprobe) hooks (initial_state k) =
     \<lparr>is_syscall_hook_initialized = False, syscall_hook = (if hooks = [] then None else Some (last hooks)),
      syscall_function = None, sc_kernel = ((\<lambda>k. snd (register_kprobe k)) ^^ length hooks) k\<rparr>"
proof (induction hooks rule: rev_induct)
  case (snoc h hs)
  then show ?case
    by (simp add: ZqInitSystemCallsHook_def init_system_calls_hook_def Let_def split: prod.splits)
qed (simp add: initial_state_def)

text \<open>
  The system call hook. However often it is initialised, the probe is registered each time anew, since
  the flag is never set, and the last hook is the one that is called. A call that the hook takes goes on
  after the probed instruction with the hook's registers; one that it does not take goes on where it was.
  \<open>ZqCallSyscall\<close> calls a pointer that nothing sets. A probe that hits before any hook is set is undefined.
\<close>

theorem system_call_hook:
  "let s = fold (ZqInitSystemCallsHook register_kprobe) hooks (initial_state k) in
     sc_kernel s = ((\<lambda>k. snd (register_kprobe k)) ^^ length hooks) k
   \<and> ZqCallSyscall s regs w = None
   \<and> syscall_kprobe_pre_handler s addr regs w =
       (if hooks = [] then None
        else case last hooks regs w of (taken, regs1, w1) \<Rightarrow>
          Some (if taken then (1, regs1\<lparr>rg_ip := addr + 1\<rparr>, w1) else (0, regs1, w1)))"
  unfolding init_fold by (auto simp: ZqCallSyscall_def syscall_kprobe_pre_handler_def Let_def split: prod.splits)

end
