(* ===== verification/Tuples.thy ===== *)
theory Tuples
  imports ZqPrelude
begin

text \<open>
  Base/Tuple.hpp, the index sequences of Base/Macros.hpp it is used with, and the forwarding of
  constructor arguments of Base/ZQObject.hpp. The templates compute with types; here the members of a
  tuple are values of one type \<open>'v\<close>, and what a \<open>static_assert\<close> rejects is \<open>None\<close>.
\<close>

section \<open>Index sequences\<close>

text \<open>\<open>GenerateSequence<N, Previous...>\<close> puts \<open>N - 1\<close> in front of the numbers it has.\<close>

fun GenerateSequence :: "nat \<Rightarrow> nat list \<Rightarrow> nat list" where
  "GenerateSequence 0 previousNumbers = previousNumbers"
| "GenerateSequence (Suc n) previousNumbers = GenerateSequence n (n # previousNumbers)"

definition MakeIndexSequence :: "nat \<Rightarrow> nat list" where
  "MakeIndexSequence n = GenerateSequence n []"

section \<open>Tuples\<close>

text \<open>
  The container of a tuple is a chain of members, each with its index as a template argument; the last
  one gives its value for every index.
\<close>

datatype 'v tuple_container = TupleLast 'v | TupleContainer 'v "'v tuple_container"

fun tc_construct :: "'v list \<Rightarrow> 'v tuple_container option" where
  "tc_construct [] = None"
| "tc_construct [v] = Some (TupleLast v)"
| "tc_construct (v # args) = map_option (TupleContainer v) (tc_construct args)"

fun tc_get :: "nat \<Rightarrow> nat \<Rightarrow> 'v tuple_container \<Rightarrow> 'v" where
  "tc_get Index index (TupleLast v) = v"
| "tc_get Index index (TupleContainer v nxt) = (if index = Index then v else tc_get (Index + 1) index nxt)"

text \<open>The empty tuple is a class of its own, without a container.\<close>

record 'v tuple =
  tp_size :: nat
  mContainer :: "'v tuple_container option"

definition tp_construct :: "'v list \<Rightarrow> 'v tuple" where
  "tp_construct values = \<lparr>tp_size = length values, mContainer = tc_construct values\<rparr>"

definition tp_get :: "nat \<Rightarrow> 'v tuple \<Rightarrow> 'v option" where
  "tp_get index t = (if index < tp_size t then map_option (tc_get 0 index) (mContainer t) else None)"

text \<open>
  \<open>makeFromTuple\<close> and \<open>apply\<close> expand the index sequence of the tuple's size; a member that does not
  exist does not compile.
\<close>

fun tp_get_all :: "'v tuple \<Rightarrow> nat list \<Rightarrow> 'v list option" where
  "tp_get_all t [] = Some []"
| "tp_get_all t (i # indexes) = do { v \<leftarrow> tp_get i t; vs \<leftarrow> tp_get_all t indexes; Some (v # vs) }"

definition makeFromTuple :: "('v list \<Rightarrow> 'a) \<Rightarrow> 'v tuple \<Rightarrow> 'a option" where
  "makeFromTuple T t = map_option T (tp_get_all t (MakeIndexSequence (tp_size t)))"

definition tuple_apply :: "('v list \<Rightarrow> 'a) \<Rightarrow> 'v tuple \<Rightarrow> 'a option" where
  "tuple_apply callable t = map_option callable (tp_get_all t (MakeIndexSequence (tp_size t)))"

section \<open>Forwarding constructors\<close>

text \<open>
  \<open>makeDataInit\<close> and \<open>makeBaseClassInit\<close> pack constructor arguments; the constructors that
  \<open>ZQ_DEFINE_FORWARDING_CONSTRUCTOR\<close> defines build the base class and the data member \<open>d\<close> from them.
\<close>

definition makeDataInit :: "'v list \<Rightarrow> 'v tuple" where
  "makeDataInit args = tp_construct args"

definition makeBaseClassInit :: "'v list \<Rightarrow> 'v tuple" where
  "makeBaseClassInit args = tp_construct args"

definition forwarding_constructor ::
  "('v list \<Rightarrow> 'b) \<Rightarrow> ('v list \<Rightarrow> 'd) \<Rightarrow> 'v tuple option \<Rightarrow> 'v tuple option \<Rightarrow> ('b option \<times> 'd option) option" where
  "forwarding_constructor BaseClass Data baseClassInit dataInit = do {
     b \<leftarrow> (case baseClassInit of None \<Rightarrow> Some None | Some t \<Rightarrow> map_option Some (makeFromTuple BaseClass t));
     d \<leftarrow> (case dataInit of None \<Rightarrow> Some None | Some t \<Rightarrow> map_option Some (makeFromTuple Data t));
     Some (b, d)
   }"

section \<open>Properties\<close>

lemma GenerateSequence_run: "GenerateSequence n ns = [0..<n] @ ns"
  by (induction n arbitrary: ns) simp_all

lemma MakeIndexSequence_run [simp]: "MakeIndexSequence n = [0..<n]"
  by (simp add: MakeIndexSequence_def GenerateSequence_run)

lemma tc_construct_get:
  "vs \<noteq> [] \<Longrightarrow> \<exists>c. tc_construct vs = Some c \<and> (\<forall>i < length vs. tc_get k (k + i) c = vs ! i)"
proof (induction vs arbitrary: k rule: tc_construct.induct)
  case (3 v w args)
  obtain c where c: "tc_construct (w # args) = Some c" "\<forall>i < length (w # args). tc_get (Suc k) (Suc k + i) c = (w # args) ! i"
    using "3.IH" [of "Suc k"] by auto
  have "tc_get k (k + i) (TupleContainer v c) = (v # w # args) ! i" if "i < length (v # w # args)" for i
    using c(2) that by (cases i) auto
  then show ?case using c(1) by auto
qed simp_all

lemma tp_size_construct [simp]: "tp_size (tp_construct vs) = length vs"
  by (simp add: tp_construct_def)

lemma tp_get_nth:
  assumes "i < length vs"
  shows "tp_get i (tp_construct vs) = Some (vs ! i)"
proof -
  have "vs \<noteq> []" using assms by auto
  from tc_construct_get [OF this, of 0] show ?thesis using assms by (auto simp: tp_get_def tp_construct_def)
qed

lemma tp_get_all_run:
  "set indexes \<subseteq> {..<length vs} \<Longrightarrow> tp_get_all (tp_construct vs) indexes = Some (map ((!) vs) indexes)"
  by (induction indexes) (auto simp: tp_get_nth)

lemma tp_get_all_values: "tp_get_all (tp_construct vs) [0..<length vs] = Some vs"
  by (subst tp_get_all_run) (auto simp: map_nth)

text \<open>
  Tuples carry their members unchanged: \<open>get\<close> of an index gives the value the tuple was built with at
  that place and is rejected out of bounds, and \<open>makeFromTuple\<close>, \<open>apply\<close> and the forwarding constructors
  give a constructor or function the packed arguments, all of them and in order, also when there are none.
\<close>

theorem tuple_roundtrip:
  "tp_get i (tp_construct vs) = (if i < length vs then Some (vs ! i) else None)
   \<and> makeFromTuple T (tp_construct vs) = Some (T vs) \<and> tuple_apply f (tp_construct vs) = Some (f vs)
   \<and> forwarding_constructor B D (Some (makeBaseClassInit us)) (Some (makeDataInit vs)) = Some (Some (B us), Some (D vs))
   \<and> forwarding_constructor B D None (Some (makeDataInit vs)) = Some (None, Some (D vs))"
  by (auto simp: tp_get_nth makeFromTuple_def tuple_apply_def tp_get_all_values forwarding_constructor_def
      makeDataInit_def makeBaseClassInit_def) (simp add: tp_get_def)

end
