(* ===== verification/PeersLocked.thy ===== *)
theory PeersLocked
  imports PeersServer Locks
begin

text \<open>
  The peers of a process under their lock: \<open>ProcessPeersServer::mOtherServers\<close> is an
  \<open>RWLocked<OtherServers>\<close> that the server's handlers write and that \<open>sendToAll\<close> and the
  \<open>ProcessPeersClient\<close> of every other thread read. This theory splits the operations of \<open>PeersServer\<close>
  into the steps between which other threads run, each turn of a loop and each lock operation a step
  of its own, lets any number of threads interleave them over the lock of \<open>Locks\<close>, and shows that the
  lock makes the operations atomic.
\<close>

section \<open>What the threads do\<close>

text \<open>
  Where a thread is: \<open>AddStart\<close>, \<open>AddLoop\<close> and \<open>RemoveLoop\<close> are in a handler with the write guard,
  \<open>SendLoop\<close>, \<open>FindStart\<close> and \<open>FindDone\<close> hold a read guard. \<open>AddLoop\<close> has the arguments of the
  handler, \<open>beforeEnd\<close> and the threads that are left; \<open>SendLoop\<close> the message, the iterator and the
  addresses it has sent to; \<open>Found\<close> is a client that has released the guard and has the copy of the result.
\<close>

datatype ('m, 'i) peer_activity =
    Idle
  | AddStart 'i "64 word list"
  | AddLoop 'i "64 word list" ptr "64 word list"
  | RemoveLoop "64 word list" "64 word list"
  | SendLoop 'm ptr "'i list"
  | FindStart 'm "64 word"
  | FindDone 'm "64 word" "find_thread_error + 'i"
  | Found 'm "find_thread_error + 'i"

text \<open>The operations that have released their guard, in that order, with what the readers have seen.\<close>

datatype 'i peer_event =
    HelloEvent 'i "64 word list"
  | GoodbyeEvent "64 word list"
  | SendEvent "'i list"
  | FindEvent "64 word" "find_thread_error + 'i"

text \<open>
  The guard of thread \<open>i\<close> has the name \<open>i\<close>. \<open>ps_net\<close> is what the threads send messages to and
  \<open>ps_history\<close> records the operations; no step reads it.
\<close>

record ('h, 'm, 'i, 'w, 'p) peers_state =
  ps_rw :: "('h, 'i other_servers, 'p) rw_state"
  ps_activity :: "nat \<Rightarrow> ('m, 'i) peer_activity"
  ps_net :: 'w
  ps_history :: "'i peer_event list"

section \<open>The steps of the operations\<close>

text \<open>\<open>addThreads\<close> up to its loop, and one turn of the loop.\<close>

definition add_emplace :: "'i \<Rightarrow> 64 word list \<Rightarrow> 'i other_servers \<Rightarrow> (ptr \<times> 'i other_servers) option" where
  "add_emplace info threadsToAdd s = do {
     (_, ch, cl) \<leftarrow> ll_emplace_back \<lparr>conn_info = info, referenceCount = of_nat (length threadsToAdd)\<rparr>
                      (connHeap s) (mConnectionsList s);
     Some (mBeforeEnd cl, s\<lparr>connHeap := ch, mConnectionsList := cl\<rparr>)
   }"

definition add_one :: "ptr \<Rightarrow> 64 word \<Rightarrow> 'i other_servers \<Rightarrow> 'i other_servers option" where
  "add_one beforeEnd threadID s = do {
     (it, h1, t1) \<leftarrow> ht_subscript id_hash (=) nullptr threadID (idsHeap s) (mThreadIDToStream s);
     n \<leftarrow> it_deref h1 it;
     h2 \<leftarrow> it_assign h1 it (n\<lparr>pt_second := beforeEnd\<rparr>);
     Some (s\<lparr>idsHeap := h2, mThreadIDToStream := t1\<rparr>)
   }"

text \<open>One turn of the loop of \<open>sendToAll\<close>: the address, the iterator that follows, the network.\<close>

definition send_one ::
  "('i \<Rightarrow> 'w \<Rightarrow> 'w option) \<Rightarrow> ptr \<Rightarrow> 'i other_servers \<Rightarrow> 'w \<Rightarrow> ('i \<times> ptr \<times> 'w) option" where
  "send_one deliver it s w = do {
     c \<leftarrow> it_deref (connHeap s) it;
     w1 \<leftarrow> deliver (conn_info c) w;
     it1 \<leftarrow> it_next (connHeap s) it;
     Some (conn_info c, it1, w1)
   }"

section \<open>Interleaved threads\<close>

abbreviation ps_value :: "('h, 'm, 'i, 'w, 'p) peers_state \<Rightarrow> 'i other_servers" where
  "ps_value s \<equiv> rl_mValue (st_locked (ps_rw s))"

definition ps_put :: "'i other_servers \<Rightarrow> ('h, 'm, 'i, 'w, 'p) peers_state \<Rightarrow> ('h, 'm, 'i, 'w, 'p) peers_state" where
  "ps_put v s = s\<lparr>ps_rw := (ps_rw s)\<lparr>st_locked := (st_locked (ps_rw s))\<lparr>rl_mValue := v\<rparr>\<rparr>\<rparr>"

definition ps_do :: "nat \<Rightarrow> ('m, 'i) peer_activity \<Rightarrow> ('h, 'm, 'i, 'w, 'p) peers_state \<Rightarrow> ('h, 'm, 'i, 'w, 'p) peers_state" where
  "ps_do i a s = s\<lparr>ps_activity := (ps_activity s)(i := a)\<rparr>"

definition ps_record :: "'i peer_event \<Rightarrow> ('h, 'm, 'i, 'w, 'p) peers_state \<Rightarrow> ('h, 'm, 'i, 'w, 'p) peers_state" where
  "ps_record e s = s\<lparr>ps_history := ps_history s @ [e]\<rparr>"

text \<open>\<open>mOtherServers.getRead ()\<close> and \<open>getWrite ()\<close> by thread \<open>i\<close>, and the end of its guard.\<close>

definition ps_getRead ::
  "('h, 'p) lock_platform \<Rightarrow> nat \<Rightarrow> ('h, 'm, 'i, 'w, 'p) peers_state \<Rightarrow> ('h, 'm, 'i, 'w, 'p) peers_state option" where
  "ps_getRead os i s = do {
     (g, p) \<leftarrow> rl_getRead os (st_locked (ps_rw s)) (st_platform (ps_rw s));
     Some (s\<lparr>ps_rw := (ps_rw s)\<lparr>st_platform := p, st_guards := (st_guards (ps_rw s))(i \<mapsto> g)\<rparr>\<rparr>)
   }"

definition ps_getWrite ::
  "('h, 'p) lock_platform \<Rightarrow> nat \<Rightarrow> ('h, 'm, 'i, 'w, 'p) peers_state \<Rightarrow> ('h, 'm, 'i, 'w, 'p) peers_state option" where
  "ps_getWrite os i s = do {
     (g, p) \<leftarrow> rl_getWrite os (st_locked (ps_rw s)) (st_platform (ps_rw s));
     Some (s\<lparr>ps_rw := (ps_rw s)\<lparr>st_platform := p, st_guards := (st_guards (ps_rw s))(i \<mapsto> g)\<rparr>\<rparr>)
   }"

definition ps_unlock ::
  "('h, 'p) lock_platform \<Rightarrow> nat \<Rightarrow> ('h, 'm, 'i, 'w, 'p) peers_state \<Rightarrow> ('h, 'm, 'i, 'w, 'p) peers_state option" where
  "ps_unlock os i s = do {
     g \<leftarrow> st_guards (ps_rw s) i;
     p \<leftarrow> sc_destroy_guard os (rl_mLock (st_locked (ps_rw s))) g (st_platform (ps_rw s));
     Some (s\<lparr>ps_rw := (ps_rw s)\<lparr>st_platform := p, st_guards := (st_guards (ps_rw s))(i := None)\<rparr>\<rparr>)
   }"

text \<open>
  The steps: \<open>onHelloReceived\<close> (\<open>hello_\<close>), \<open>onGoodbyeReceived\<close> (\<open>goodbye_\<close>), \<open>sendToAll\<close> (\<open>send_\<close>)
  and the part of the client's \<open>sendThreadMessageAndWait\<close> that finds a thread's peer (\<open>find_\<close>) and
  sends it the message. Which operation an idle thread starts, and with which arguments, is open. An operation
  whose next step is undefined in C++ has no step.
\<close>

inductive ps_step ::
  "('h, 'p) lock_platform \<Rightarrow> ('m \<Rightarrow> 'i \<Rightarrow> 'w \<Rightarrow> 'w option)
     \<Rightarrow> ('h, 'm, 'i, 'w, 'p) peers_state \<Rightarrow> ('h, 'm, 'i, 'w, 'p) peers_state \<Rightarrow> bool"
  for os :: "('h, 'p) lock_platform" and deliver :: "'m \<Rightarrow> 'i \<Rightarrow> 'w \<Rightarrow> 'w option" where
  hello_lock: "ps_activity s i = Idle \<Longrightarrow> ps_getWrite os i s = Some s1 \<Longrightarrow>
    ps_step os deliver s (ps_do i (AddStart info ids) s1)"
| hello_emplace: "ps_activity s i = AddStart info ids \<Longrightarrow> add_emplace info ids (ps_value s) = Some (b, v) \<Longrightarrow>
    ps_step os deliver s (ps_do i (AddLoop info ids b ids) (ps_put v s))"
| hello_add: "ps_activity s i = AddLoop info ids b (x # left) \<Longrightarrow> add_one b x (ps_value s) = Some v \<Longrightarrow>
    ps_step os deliver s (ps_do i (AddLoop info ids b left) (ps_put v s))"
| hello_unlock: "ps_activity s i = AddLoop info ids b [] \<Longrightarrow> ps_unlock os i s = Some s1 \<Longrightarrow>
    ps_step os deliver s (ps_do i Idle (ps_record (HelloEvent info ids) s1))"
| goodbye_lock: "ps_activity s i = Idle \<Longrightarrow> ps_getWrite os i s = Some s1 \<Longrightarrow>
    ps_step os deliver s (ps_do i (RemoveLoop ids ids) s1)"
| goodbye_remove: "ps_activity s i = RemoveLoop ids (x # left) \<Longrightarrow> sv_removeThread x (ps_value s) = Some v \<Longrightarrow>
    ps_step os deliver s (ps_do i (RemoveLoop ids left) (ps_put v s))"
| goodbye_unlock: "ps_activity s i = RemoveLoop ids [] \<Longrightarrow> ps_unlock os i s = Some s1 \<Longrightarrow>
    ps_step os deliver s (ps_do i Idle (ps_record (GoodbyeEvent ids) s1))"
| send_lock: "ps_activity s i = Idle \<Longrightarrow> ps_getRead os i s = Some s1 \<Longrightarrow>
    ps_step os deliver s (ps_do i (SendLoop msg (mBegin (mConnectionsList (ps_value s1))) []) s1)"
| send_message: "ps_activity s i = SendLoop msg it sent \<Longrightarrow> it \<noteq> ll_cend \<Longrightarrow>
    send_one (deliver msg) it (ps_value s) (ps_net s) = Some (a, it1, w) \<Longrightarrow>
    ps_step os deliver s (ps_do i (SendLoop msg it1 (sent @ [a])) (s\<lparr>ps_net := w\<rparr>))"
| send_unlock: "ps_activity s i = SendLoop msg it sent \<Longrightarrow> it = ll_cend \<Longrightarrow> ps_unlock os i s = Some s1 \<Longrightarrow>
    ps_step os deliver s (ps_do i Idle (ps_record (SendEvent sent) s1))"
| find_lock: "ps_activity s i = Idle \<Longrightarrow> ps_getRead os i s = Some s1 \<Longrightarrow>
    ps_step os deliver s (ps_do i (FindStart msg x) s1)"
| find_thread: "ps_activity s i = FindStart msg x \<Longrightarrow> sv_findThreadStreamInfo x (ps_value s) = Some r \<Longrightarrow>
    ps_step os deliver s (ps_do i (FindDone msg x r) s)"
| find_unlock: "ps_activity s i = FindDone msg x r \<Longrightarrow> ps_unlock os i s = Some s1 \<Longrightarrow>
    ps_step os deliver s (ps_do i (Found msg r) (ps_record (FindEvent x r) s1))"
| found_none: "ps_activity s i = Found msg (Inl e) \<Longrightarrow> ps_step os deliver s (ps_do i Idle s)"
| found_send: "ps_activity s i = Found msg (Inr a) \<Longrightarrow> deliver msg a (ps_net s) = Some w \<Longrightarrow>
    ps_step os deliver s (ps_do i Idle (s\<lparr>ps_net := w\<rparr>))"

definition ps_reachable ::
  "('h, 'p) lock_platform \<Rightarrow> ('m \<Rightarrow> 'i \<Rightarrow> 'w \<Rightarrow> 'w option)
     \<Rightarrow> ('h, 'm, 'i, 'w, 'p) peers_state \<Rightarrow> ('h, 'm, 'i, 'w, 'p) peers_state \<Rightarrow> bool" where
  "ps_reachable os deliver = (ps_step os deliver)\<^sup>*\<^sup>*"

text \<open>No thread has begun: nothing is locked and nothing has happened.\<close>

definition ps_start :: "('p \<Rightarrow> nat \<times> bool) \<Rightarrow> 'i other_servers \<Rightarrow> ('h, 'm, 'i, 'w, 'p) peers_state \<Rightarrow> bool" where
  "ps_start held v s \<longleftrightarrow> ps_value s = v \<and> st_guards (ps_rw s) = Map.empty \<and> held (st_platform (ps_rw s)) = (0, False)
     \<and> ps_activity s = (\<lambda>_. Idle) \<and> ps_history s = []"

section \<open>The operations one after the other\<close>

text \<open>
  \<open>replay es v\<close> runs the whole operations of \<open>PeersServer\<close> in the order of \<open>es\<close>, starting with \<open>v\<close>;
  it has no value when an operation fails or a reader has seen something else than the
  operation gives. The addresses \<open>sendToAll\<close> goes through are collected by \<open>collect\<close>.
\<close>

definition collect :: "'i \<Rightarrow> 'i list \<Rightarrow> 'i list option" where
  "collect a sent = Some (sent @ [a])"

fun run_event :: "'i peer_event \<Rightarrow> 'i other_servers \<Rightarrow> 'i other_servers option" where
  "run_event (HelloEvent info ids) v = sv_onHelloReceived info ids v"
| "run_event (GoodbyeEvent ids) v = sv_onGoodbyeReceived ids v"
| "run_event (SendEvent sent) v = (if sv_sendToAll (\<lambda>_. collect) () v [] = Some sent then Some v else None)"
| "run_event (FindEvent x r) v = (if sv_findThreadStreamInfo x v = Some r then Some v else None)"

fun replay :: "'i peer_event list \<Rightarrow> 'i other_servers \<Rightarrow> 'i other_servers option" where
  "replay [] v = Some v"
| "replay (e # es) v = Option.bind (run_event e v) (replay es)"

lemma replay_append: "replay (es @ fs) v = Option.bind (replay es v) (replay fs)"
  by (induction es arbitrary: v) (auto split: Option.bind_splits)


section \<open>The threads use the lock\<close>

text \<open>The guard a thread has, by what it does.\<close>

fun guard_of :: "('m, 'i) peer_activity \<Rightarrow> scoped_lock option" where
  "guard_of Idle = None"
| "guard_of (AddStart _ _) = Some \<lparr>sc_write = True, mLockedLock = True\<rparr>"
| "guard_of (AddLoop _ _ _ _) = Some \<lparr>sc_write = True, mLockedLock = True\<rparr>"
| "guard_of (RemoveLoop _ _) = Some \<lparr>sc_write = True, mLockedLock = True\<rparr>"
| "guard_of (SendLoop _ _ _) = Some \<lparr>sc_write = False, mLockedLock = True\<rparr>"
| "guard_of (FindStart _ _) = Some \<lparr>sc_write = False, mLockedLock = True\<rparr>"
| "guard_of (FindDone _ _ _) = Some \<lparr>sc_write = False, mLockedLock = True\<rparr>"
| "guard_of (Found _ _) = None"

definition ps_guarded :: "('h, 'm, 'i, 'w, 'p) peers_state \<Rightarrow> bool" where
  "ps_guarded s \<longleftrightarrow> st_guards (ps_rw s) = (\<lambda>i. guard_of (ps_activity s i))"

lemma ps_guardedD: "ps_guarded s \<Longrightarrow> st_guards (ps_rw s) i = guard_of (ps_activity s i)"
  by (simp add: ps_guarded_def)

lemma ps_do_simps [simp]:
  "ps_rw (ps_do i a s) = ps_rw s" "ps_activity (ps_do i a s) = (ps_activity s)(i := a)"
  "ps_net (ps_do i a s) = ps_net s" "ps_history (ps_do i a s) = ps_history s"
  by (simp_all add: ps_do_def)

lemma ps_record_simps [simp]:
  "ps_rw (ps_record e s) = ps_rw s" "ps_activity (ps_record e s) = ps_activity s"
  "ps_net (ps_record e s) = ps_net s" "ps_history (ps_record e s) = ps_history s @ [e]"
  by (simp_all add: ps_record_def)

lemma ps_put_simps [simp]:
  "ps_rw (ps_put v s) = (ps_rw s)\<lparr>st_locked := (st_locked (ps_rw s))\<lparr>rl_mValue := v\<rparr>\<rparr>"
  "ps_activity (ps_put v s) = ps_activity s" "ps_net (ps_put v s) = ps_net s" "ps_history (ps_put v s) = ps_history s"
  by (simp_all add: ps_put_def)

text \<open>A lock operation changes the lock and the thread's guard only, as a step of \<open>Locks\<close>.\<close>

lemma ps_getWrite_Some:
  assumes "ps_getWrite os i s = Some s1" and "st_guards (ps_rw s) i = None"
  shows "rw_step os (ps_rw s) (ps_rw s1) \<and> ps_value s1 = ps_value s
       \<and> st_guards (ps_rw s1) = (st_guards (ps_rw s))(i \<mapsto> \<lparr>sc_write = True, mLockedLock = True\<rparr>)
       \<and> ps_activity s1 = ps_activity s \<and> ps_net s1 = ps_net s \<and> ps_history s1 = ps_history s"
  using assms rw_step.get_write [OF assms(2)]
  by (auto simp: ps_getWrite_def rl_getWrite_Some split: Option.bind_splits)

lemma ps_getRead_Some:
  assumes "ps_getRead os i s = Some s1" and "st_guards (ps_rw s) i = None"
  shows "rw_step os (ps_rw s) (ps_rw s1) \<and> ps_value s1 = ps_value s
       \<and> st_guards (ps_rw s1) = (st_guards (ps_rw s))(i \<mapsto> \<lparr>sc_write = False, mLockedLock = True\<rparr>)
       \<and> ps_activity s1 = ps_activity s \<and> ps_net s1 = ps_net s \<and> ps_history s1 = ps_history s"
  using assms rw_step.get_read [OF assms(2)]
  by (auto simp: ps_getRead_def rl_getRead_Some split: Option.bind_splits)

lemma ps_unlock_Some:
  assumes "ps_unlock os i s = Some s1"
  shows "rw_step os (ps_rw s) (ps_rw s1) \<and> ps_value s1 = ps_value s
       \<and> st_guards (ps_rw s1) = (st_guards (ps_rw s))(i := None)
       \<and> ps_activity s1 = ps_activity s \<and> ps_net s1 = ps_net s \<and> ps_history s1 = ps_history s"
  using assms rw_step.drop_guard [of "ps_rw s" i _ os]
  by (auto simp: ps_unlock_def split: Option.bind_splits)

lemma ps_put_step:
  assumes "st_guards (ps_rw s) i = Some \<lparr>sc_write = True, mLockedLock = True\<rparr>"
  shows "rw_step os (ps_rw s) (ps_rw (ps_put v s))"
  using rw_step.write_value [OF assms] by simp

text \<open>
  So the threads are threads of \<open>Locks\<close>: each step is a step there or does not touch the locked value,
  and every thread has the guard for what it does.
\<close>

lemma ps_guarded_put:
  "ps_guarded s \<Longrightarrow> guard_of (ps_activity s i) = Some \<lparr>sc_write = True, mLockedLock = True\<rparr> \<Longrightarrow>
     guard_of a = guard_of (ps_activity s i) \<Longrightarrow>
     rw_step os (ps_rw s) (ps_rw (ps_do i a (ps_put v s))) \<and> ps_guarded (ps_do i a (ps_put v s))"
  using ps_put_step [of s i os v] by (auto simp: ps_guarded_def fun_eq_iff)

lemma ps_step_rw:
  assumes "ps_step os deliver s s'" and "ps_guarded s"
  shows "(rw_step os (ps_rw s) (ps_rw s') \<or> ps_rw s' = ps_rw s) \<and> ps_guarded s'"
  using assms(1)
proof cases
  case (hello_emplace i info ids b v)
  then show ?thesis using ps_guarded_put [OF assms(2), of i "AddLoop info ids b ids"] by auto
next
  case (hello_add i info ids b x left v)
  then show ?thesis using ps_guarded_put [OF assms(2), of i "AddLoop info ids b left"] by auto
next
  case (goodbye_remove i ids x left v)
  then show ?thesis using ps_guarded_put [OF assms(2), of i "RemoveLoop ids left"] by auto
qed (use assms(2) in \<open>auto simp: ps_guarded_def fun_eq_iff
       dest!: ps_getWrite_Some ps_getRead_Some ps_unlock_Some\<close>)

lemma ps_reachable_inv:
  assumes "ps_reachable os deliver s s'" and "ps_start held v s" and "rw_documented os (rl_mLock (st_locked (ps_rw s))) held"
  shows "ps_guarded s' \<and> rw_inv held (ps_rw s') \<and> rl_mLock (st_locked (ps_rw s')) = rl_mLock (st_locked (ps_rw s))"
  using assms(1) unfolding ps_reachable_def
proof (induction rule: rtranclp_induct)
  case base
  then show ?case using assms(2) by (simp add: ps_start_def ps_guarded_def rw_inv_def readers_def writers_def)
next
  case (step t u)
  then show ?case using ps_step_rw [of os deliver t u] rw_step_inv [of os "ps_rw t" "ps_rw u" held] assms(3) by auto
qed

section \<open>The lock makes the operations atomic\<close>

text \<open>
  \<open>explained v0 v a\<close>: \<open>v0\<close> is the value when the thread got its guard and \<open>v\<close> the value now. What is
  left of the thread's operation, run on \<open>v\<close>, ends as the whole operation on \<open>v0\<close>.
\<close>

fun explained :: "'i other_servers \<Rightarrow> 'i other_servers \<Rightarrow> ('m, 'i) peer_activity \<Rightarrow> bool" where
  "explained v0 v (AddStart info ids) \<longleftrightarrow> v = v0"
| "explained v0 v (AddLoop info ids b left) \<longleftrightarrow>
     map_option (\<lambda>(h, t). v\<lparr>idsHeap := h, mThreadIDToStream := t\<rparr>) (sv_addThreads_loop b left (idsHeap v) (mThreadIDToStream v))
       = sv_onHelloReceived info ids v0"
| "explained v0 v (RemoveLoop ids left) \<longleftrightarrow> sv_removeThreads left v = sv_onGoodbyeReceived ids v0"
| "explained v0 v (SendLoop msg it sent) \<longleftrightarrow> sv_sendToAll_loop collect (connHeap v) it sent = sv_sendToAll (\<lambda>_. collect) () v []"
| "explained v0 v (FindDone msg x r) \<longleftrightarrow> sv_findThreadStreamInfo x v = Some r"
| "explained v0 v _ \<longleftrightarrow> True"

lemma explained_unguarded: "guard_of a = None \<Longrightarrow> explained v0 v a"
  by (cases a) auto

text \<open>The steps of the operations, on what they are explained by.\<close>

lemma explained_emplace:
  assumes "add_emplace info ids v = Some (b, v1)" and "explained v0 v (AddStart info ids)"
  shows "explained v0 v1 (AddLoop info ids b ids)"
  using assms
  by (auto simp: add_emplace_def sv_onHelloReceived_def sv_addThreads_def map_conv_bind_option
      split: Option.bind_splits)

lemma explained_add:
  assumes "add_one b x v = Some v1" and "explained v0 v (AddLoop info ids b (x # left))"
  shows "explained v0 v1 (AddLoop info ids b left)"
  using assms by (auto simp: add_one_def split: Option.bind_splits)

lemma explained_remove:
  "sv_removeThread x v = Some v1 \<Longrightarrow> explained v0 v (RemoveLoop ids (x # left)) \<Longrightarrow> explained v0 v1 (RemoveLoop ids left)"
  by simp

lemma explained_send:
  assumes "send_one deliver it v w = Some (a, it1, w1)" and "it \<noteq> ll_cend" and "explained v0 v (SendLoop msg it sent)"
  shows "explained v0 v (SendLoop msg it1 (sent @ [a]))"
  using assms
  by (auto simp: send_one_def collect_def sv_sendToAll_loop.simps [of _ _ it sent] split: Option.bind_splits)

text \<open>The whole invariant: the operations that have ended, run one after the other, explain the others.\<close>

definition ps_explained :: "'i other_servers \<Rightarrow> ('h, 'm, 'i, 'w, 'p) peers_state \<Rightarrow> bool" where
  "ps_explained v0 s \<longleftrightarrow> (writers (st_guards (ps_rw s)) = {} \<longrightarrow> ps_value s = v0)
     \<and> (\<forall>i. explained v0 (ps_value s) (ps_activity s i))"

lemma writer_alone:
  assumes "ps_guarded s" and "rw_inv held (ps_rw s)"
    and "guard_of (ps_activity s i) = Some \<lparr>sc_write = True, mLockedLock = True\<rparr>" and "j \<noteq> i"
  shows "guard_of (ps_activity s j) = None"
proof (rule ccontr)
  assume n: "guard_of (ps_activity s j) \<noteq> None"
  have i: "i \<in> writers (st_guards (ps_rw s))" using ps_guardedD [OF assms(1), of i] assms(3) by (simp add: writers_def)
  have "j \<in> readers (st_guards (ps_rw s)) \<or> j \<in> writers (st_guards (ps_rw s))"
    using n ps_guardedD [OF assms(1), of j] by (cases "ps_activity s j") (auto simp: readers_def writers_def)
  then show False using rw_inv_exclusive [OF assms(2) i] assms(4) by blast
qed

lemma reader_no_writer:
  assumes "ps_guarded s" and "rw_inv held (ps_rw s)"
    and "guard_of (ps_activity s i) = Some \<lparr>sc_write = False, mLockedLock = True\<rparr>"
  shows "writers (st_guards (ps_rw s)) = {}"
proof -
  have "i \<in> readers (st_guards (ps_rw s))" using ps_guardedD [OF assms(1), of i] assms(3) by (simp add: readers_def)
  then show ?thesis using assms(2) by (auto simp: rw_inv_def split: if_splits)
qed

lemma ps_explained_lock:
  assumes "ps_explained v0 s" and "writers (st_guards (ps_rw s)) = {}"
    and "ps_value s1 = ps_value s" and "ps_activity s1 = ps_activity s" and "explained v0 v0 a"
  shows "ps_explained v0 (ps_do i a s1)"
  using assms by (auto simp: ps_explained_def)

lemma ps_explained_put:
  assumes "ps_explained v0 s" and "ps_guarded s" and "rw_inv held (ps_rw s)"
    and "guard_of (ps_activity s i) = Some \<lparr>sc_write = True, mLockedLock = True\<rparr>" and "explained v0 v a"
  shows "ps_explained v0 (ps_do i a (ps_put v s))"
proof -
  have "i \<in> writers (st_guards (ps_rw s))" using ps_guardedD [OF assms(2), of i] assms(4) by (simp add: writers_def)
  moreover have "explained v0 v (ps_activity s j)" if "j \<noteq> i" for j
    using writer_alone [OF assms(2-4) that] by (rule explained_unguarded)
  ultimately show ?thesis using assms(5) by (auto simp: ps_explained_def)
qed

lemma ps_explained_unlock_write:
  assumes "ps_guarded s" and "rw_inv held (ps_rw s)"
    and "guard_of (ps_activity s i) = Some \<lparr>sc_write = True, mLockedLock = True\<rparr>"
    and "ps_unlock os i s = Some s1" and "guard_of a = None"
  shows "ps_explained (ps_value s) (ps_do i a (ps_record e s1))"
proof -
  have "explained v v' (ps_activity s j)" if "j \<noteq> i" for j v v'
    using writer_alone [OF assms(1-3) that] by (rule explained_unguarded)
  then show ?thesis using ps_unlock_Some [OF assms(4)] explained_unguarded [OF assms(5)] by (auto simp: ps_explained_def)
qed

lemma ps_explained_unlock_read:
  assumes "ps_explained v0 s" and "ps_guarded s" and "rw_inv held (ps_rw s)"
    and "guard_of (ps_activity s i) = Some \<lparr>sc_write = False, mLockedLock = True\<rparr>"
    and "ps_unlock os i s = Some s1" and "guard_of a = None"
  shows "ps_value s = v0 \<and> ps_explained v0 (ps_do i a (ps_record e s1))"
  using ps_unlock_Some [OF assms(5)] reader_no_writer [OF assms(2-4)] explained_unguarded [OF assms(6)] assms(1)
  by (auto simp: ps_explained_def)

lemma locked_no_writer:
  assumes "rw_documented os (rl_mLock (st_locked (ps_rw s))) held" and "rw_inv held (ps_rw s)"
    and "ps_getWrite os i s = Some s1 \<or> ps_getRead os i s = Some s1"
  shows "writers (st_guards (ps_rw s)) = {}"
  using assms documented_lockRead [OF assms(1)] documented_lockWrite [OF assms(1)]
  by (auto simp: ps_getWrite_def ps_getRead_def rl_getWrite_Some rl_getRead_Some rw_inv_def
      split: Option.bind_splits if_splits)

lemma explained_start:
  "explained v0 v0 (AddStart info ids)" "explained v0 v0 (RemoveLoop ids ids)"
  "explained v0 v0 (SendLoop msg (mBegin (mConnectionsList v0)) [])"
  by (simp_all add: sv_onGoodbyeReceived_def sv_sendToAll_def)

lemma explained_end:
  "explained v0 v (AddLoop info ids b []) \<Longrightarrow> run_event (HelloEvent info ids) v0 = Some v"
  "explained v0 v (RemoveLoop ids []) \<Longrightarrow> run_event (GoodbyeEvent ids) v0 = Some v"
  "explained v v (SendLoop msg ll_cend sent) \<Longrightarrow> run_event (SendEvent sent) v = Some v"
  "explained v v (FindDone msg x r) \<Longrightarrow> run_event (FindEvent x r) v = Some v"
  by (simp_all add: sv_sendToAll_loop.simps [of _ _ ll_cend])

lemma ps_explained_step:
  assumes "ps_step os deliver s s'" and "ps_explained v0 s" and "replay (ps_history s) v = Some v0"
    and g: "ps_guarded s" and "rw_documented os (rl_mLock (st_locked (ps_rw s))) held" and inv: "rw_inv held (ps_rw s)"
  shows "\<exists>v1. replay (ps_history s') v = Some v1 \<and> ps_explained v1 s'"
proof -
  note ex = assms(2) and h = assms(3)
  have one: "explained v0 (ps_value s) (ps_activity s i)" for i using ex by (simp add: ps_explained_def)
  note free = locked_no_writer [OF assms(5) inv]
  have val: "ps_value s = v0" if "writers (st_guards (ps_rw s)) = {}" using ex that by (simp add: ps_explained_def)
  note idle = ps_guardedD [OF g]
  show ?thesis using assms(1)
  proof cases
    case (hello_lock i s1 info ids)
    then show ?thesis using ps_explained_lock [OF ex free, of i s1 s1 "AddStart info ids"] ps_getWrite_Some [of os i s s1] idle [of i] h
      by (auto simp: explained_start)
  next
    case (hello_emplace i info ids b w)
    then show ?thesis using ps_explained_put [OF ex g inv] explained_emplace one [of i] h by fastforce
  next
    case (hello_add i info ids b x left w)
    then show ?thesis using ps_explained_put [OF ex g inv] explained_add one [of i] h by fastforce
  next
    case (hello_unlock i info ids b s1)
    then show ?thesis using ps_explained_unlock_write [OF g inv] explained_end(1) one [of i] h ps_unlock_Some [of os i s s1]
      by (fastforce simp: replay_append)
  next
    case (goodbye_lock i s1 ids)
    then show ?thesis using ps_explained_lock [OF ex free, of i s1 s1 "RemoveLoop ids ids"] ps_getWrite_Some [of os i s s1] idle [of i] h
      by (auto simp: sv_onGoodbyeReceived_def)
  next
    case (goodbye_remove i ids x left w)
    then show ?thesis using ps_explained_put [OF ex g inv] explained_remove one [of i] h by fastforce
  next
    case (goodbye_unlock i ids s1)
    then show ?thesis using ps_explained_unlock_write [OF g inv] explained_end(2) one [of i] h ps_unlock_Some [of os i s s1]
      by (fastforce simp: replay_append)
  next
    case (send_lock i s1 msg)
    have n: "writers (st_guards (ps_rw s)) = {}" using free send_lock(3) by blast
    have "st_guards (ps_rw s) i = None" using idle [of i] send_lock(2) by simp
    note r = ps_getRead_Some [OF send_lock(3) this]
    have "ps_explained v0 (ps_do i (SendLoop msg (mBegin (mConnectionsList v0)) []) s1)"
      by (rule ps_explained_lock [OF ex n]) (simp_all only: r explained_start)
    then show ?thesis using send_lock(1) r val [OF n] h by simp
  next
    case (send_message i msg it sent a it1 w)
    then show ?thesis using explained_send [OF send_message(4,3)] one [of i] ex h by (auto simp: ps_explained_def)
  next
    case (send_unlock i msg it sent s1)
    have "guard_of (ps_activity s i) = Some \<lparr>sc_write = False, mLockedLock = True\<rparr>" using send_unlock(2) by simp
    note u = ps_explained_unlock_read [OF ex g inv this send_unlock(4), of Idle, simplified]
    have "run_event (SendEvent sent) v0 = Some v0" using explained_end(3) [of v0 msg sent] one [of i] u send_unlock(2,3) by metis
    then show ?thesis using u ps_unlock_Some [OF send_unlock(4)] send_unlock(1) h by (simp add: replay_append)
  next
    case (find_lock i s1 msg x)
    then show ?thesis using ps_explained_lock [OF ex free, of i s1 s1 "FindStart msg x"]
        ps_getRead_Some [of os i s s1] idle [of i] h by auto
  next
    case (find_thread i msg x r)
    then show ?thesis using ex h by (auto simp: ps_explained_def)
  next
    case (find_unlock i msg x r s1)
    have "guard_of (ps_activity s i) = Some \<lparr>sc_write = False, mLockedLock = True\<rparr>" using find_unlock(2) by simp
    note u = ps_explained_unlock_read [OF ex g inv this find_unlock(3), of "Found msg r", simplified]
    have "run_event (FindEvent x r) v0 = Some v0" using explained_end(4) [of v0 msg x r] one [of i] u find_unlock(2) by metis
    then show ?thesis using u ps_unlock_Some [OF find_unlock(3)] find_unlock(1) h by (simp add: replay_append)
  qed (use ex h in \<open>auto simp: ps_explained_def\<close>)
qed

lemma ps_reachable_explained:
  assumes "ps_reachable os deliver s s'" and "ps_start held v s" and "rw_documented os (rl_mLock (st_locked (ps_rw s))) held"
  shows "\<exists>v0. replay (ps_history s') v = Some v0 \<and> ps_explained v0 s'"
  using assms(1) unfolding ps_reachable_def
proof (induction rule: rtranclp_induct)
  case base
  then show ?case using assms(2) by (simp add: ps_start_def ps_explained_def)
next
  case (step t u)
  note t = ps_reachable_inv [OF step.hyps(1) [folded ps_reachable_def] assms(2,3)]
  obtain v0 where "replay (ps_history t) v = Some v0" "ps_explained v0 t" using step.IH by blast
  then show ?case using ps_explained_step [OF step.hyps(2)] t assms(3) by metis
qed

section \<open>What the peers are\<close>

text \<open>
  The abstract peers of a process: their addresses with their threads, in the order of their hellos. An
  operation is legal when its message is: a hello of new threads, a goodbye of known ones.
\<close>

type_synonym 'i peers = "('i \<times> 64 word set) list"

definition peer_threads :: "'i peers \<Rightarrow> 64 word set" where
  "peer_threads ps = \<Union>(set (map snd ps))"

definition peer_of :: "64 word \<Rightarrow> 'i peers \<Rightarrow> find_thread_error + 'i" where
  "peer_of x ps = (case find (\<lambda>(_, S). x \<in> S) ps of None \<Rightarrow> Inl InvalidThreadID | Some (a, _) \<Rightarrow> Inr a)"

fun legal_event :: "'i peer_event \<Rightarrow> 'i peers \<Rightarrow> bool" where
  "legal_event (HelloEvent info ids) ps \<longleftrightarrow> distinct ids \<and> ids \<noteq> [] \<and> length ids < 2 ^ 64 \<and> set ids \<inter> peer_threads ps = {}"
| "legal_event (GoodbyeEvent ids) ps \<longleftrightarrow> distinct ids \<and> set ids \<subseteq> peer_threads ps"
| "legal_event _ ps \<longleftrightarrow> True"

fun peers_after :: "'i peer_event \<Rightarrow> 'i peers \<Rightarrow> 'i peers" where
  "peers_after (HelloEvent info ids) ps = ps @ [(info, set ids)]"
| "peers_after (GoodbyeEvent ids) ps = filter (\<lambda>(_, S). S \<noteq> {}) (map (\<lambda>(a, S). (a, S - set ids)) ps)"
| "peers_after _ ps = ps"

text \<open>A reader's answer: a message goes to the peers in order, a thread is found at its peer.\<close>

fun right_event :: "'i peer_event \<Rightarrow> 'i peers \<Rightarrow> bool" where
  "right_event (SendEvent sent) ps \<longleftrightarrow> sent = map fst ps"
| "right_event (FindEvent x r) ps \<longleftrightarrow> r = peer_of x ps"
| "right_event _ ps \<longleftrightarrow> True"

fun legal :: "'i peer_event list \<Rightarrow> 'i peers \<Rightarrow> bool" where
  "legal [] ps \<longleftrightarrow> True"
| "legal (e # es) ps \<longleftrightarrow> legal_event e ps \<and> legal es (peers_after e ps)"

fun right :: "'i peer_event list \<Rightarrow> 'i peers \<Rightarrow> bool" where
  "right [] ps \<longleftrightarrow> True"
| "right (e # es) ps \<longleftrightarrow> right_event e ps \<and> right es (peers_after e ps)"

text \<open>The peers that the list and the table hold.\<close>

definition peers_abs :: "'i connections \<Rightarrow> (64 word \<Rightarrow> nat option) \<Rightarrow> 'i peers" where
  "peers_abs cs m = map (\<lambda>(a, c). (conn_info c, threads_of m a)) cs"

definition holds_peers :: "'i other_servers \<Rightarrow> 'i peers \<Rightarrow> bool" where
  "holds_peers v ps \<longleftrightarrow> (\<exists>cs m. sv_repr v cs m \<and> sv_counted cs m \<and> ps = peers_abs cs m)"

lemma holds_peers_new: "holds_peers sv_new []"
  unfolding holds_peers_def using sv_repr_new sv_counted_new by (fastforce simp: peers_abs_def)

lemma peer_threads_abs:
  assumes "sv_counted cs m"
  shows "peer_threads (peers_abs cs m) = dom m"
proof -
  have "\<exists>x \<in> set cs. i \<in> threads_of m (fst x)" if "m i = Some a" for i a
    using assms that by (force simp: sv_counted_def threads_of_def)
  then show ?thesis by (force simp: peer_threads_def peers_abs_def threads_of_def)
qed

lemma find_skip: "find P xs = None \<Longrightarrow> find P (xs @ ys) = find P ys"
  by (induction xs) (auto split: if_splits)

lemma peer_of_abs:
  assumes "sv_repr v cs m" and "sv_counted cs m"
  shows "peer_of x (peers_abs cs m) = (case m x of None \<Rightarrow> Inl InvalidThreadID | Some a \<Rightarrow> Inr (conn_info (the (map_of cs a))))"
proof (cases "m x")
  case None
  then have "find (\<lambda>(_, S). x \<in> S) (peers_abs cs m) = None"
    by (auto simp: find_None_iff peers_abs_def threads_of_def)
  then show ?thesis using None by (simp add: peer_of_def)
next
  case (Some a)
  have "a \<in> fst ` set cs" using assms(2) Some by (auto simp: sv_counted_def)
  then obtain c xs ys where cs: "cs = xs @ (a, c) # ys" by (metis imageE list.set_map map_of_SomeD prod.collapse split_list)
  have d: "distinct (map fst cs)" using assms(1) by (simp add: sv_repr_def ll_repr_def)
  have "find (\<lambda>(_, S). x \<in> S) (peers_abs xs m) = None"
    using d cs Some by (force simp: find_None_iff peers_abs_def threads_of_def)
  from find_skip [OF this] have "find (\<lambda>(_, S). x \<in> S) (peers_abs cs m) = Some (conn_info c, threads_of m a)"
    using cs Some by (simp add: peers_abs_def threads_of_def)
  moreover have "map_of cs a = Some c" using map_of_is_SomeI [OF d, of a c] cs by simp
  ultimately show ?thesis using Some by (simp add: peer_of_def)
qed

lemma deliver_all_collect: "deliver_all collect as sent = Some (sent @ as)"
  by (induction as arbitrary: sent) (simp_all add: collect_def)

lemma sv_sendToAll_run:
  assumes "sv_repr v cs m"
  shows "sv_sendToAll deliver msg v w = deliver_all (deliver msg) (map (\<lambda>e. conn_info (snd e)) cs) w"
proof -
  have "ll_repr (connHeap v) (mConnectionsList v) ([] @ cs)" using assms by (simp add: sv_repr_def)
  then show ?thesis using sv_sendToAll_loop_run [of "connHeap v" "mConnectionsList v" "[]" cs]
    by (simp add: sv_sendToAll_def ll_repr_begin)
qed

text \<open>A legal operation on a value that holds peers gives a value that holds the peers after it.\<close>

lemma holds_peers_hello:
  assumes "sv_repr v cs m" and "sv_counted cs m" and "legal_event (HelloEvent info ids) (peers_abs cs m)"
  shows "\<exists>v'. sv_onHelloReceived info ids v = Some v' \<and> holds_peers v' (peers_after (HelloEvent info ids) (peers_abs cs m))"
proof -
  let ?a = "brk (connHeap v)" and ?c = "\<lparr>conn_info = info, referenceCount = of_nat (length ids)\<rparr>"
  let ?m = "\<lambda>i. if i \<in> set ids then Some ?a else m i"
  have a: "?a \<notin> fst ` set cs" using assms(1) ll_repr_fresh unfolding sv_repr_def by blast
  obtain v' where v': "sv_addThreads ids info v = Some v'" "sv_repr v' (cs @ [(?a, ?c)]) ?m"
    using sv_addThreads_run [OF assms(1), of ids info] by blast
  have fresh: "\<forall>i \<in> set ids. m i = None" using assms(3) peer_threads_abs [OF assms(2)] by (auto simp: disjoint_iff domIff)
  then have c: "sv_counted (cs @ [(?a, ?c)]) ?m"
    using sv_addThreads_counted [OF assms(2) a, of ids info] assms(3) by simp
  have old: "m i \<noteq> Some ?a" for i using a assms(2) by (auto simp: sv_counted_def)
  have "threads_of ?m ?a = set ids" using old by (auto simp: threads_of_def)
  moreover have "threads_of ?m b = threads_of m b" if "b \<in> fst ` set cs" for b
    using that a fresh by (auto simp: threads_of_def)
  moreover have "fst x \<in> fst ` set cs" if "x \<in> set cs" for x using that by simp
  ultimately have p: "peers_abs (cs @ [(?a, ?c)]) ?m = peers_abs cs m @ [(info, set ids)]"
    by (simp add: peers_abs_def case_prod_unfold)
  have "holds_peers v' (peers_abs cs m @ [(info, set ids)])"
    unfolding holds_peers_def using v'(2) c p [symmetric] by blast
  then show ?thesis using v'(1) by (simp add: sv_onHelloReceived_def)
qed

lemma holds_peers_goodbye:
  assumes "sv_repr v cs m" and "sv_counted cs m" and "legal_event (GoodbyeEvent ids) (peers_abs cs m)"
  shows "\<exists>v'. sv_onGoodbyeReceived ids v = Some v' \<and> holds_peers v' (peers_after (GoodbyeEvent ids) (peers_abs cs m))"
proof -
  let ?m = "m |` (- set ids)"
  have "set ids \<subseteq> dom m" "distinct ids" using assms(3) peer_threads_abs [OF assms(2)] by auto
  from sv_removeThreads_run [OF assms(1,2) this(2,1)] obtain v' cs' where
    v': "sv_removeThreads ids v = Some v'" "sv_repr v' cs' ?m" "sv_counted cs' ?m"
    and i: "infos cs' = filter (still_used ?m) (infos cs)" by blast
  have t: "threads_of ?m a = threads_of m a - set ids" for a by (auto simp: threads_of_def restrict_map_def)
  have abs: "peers_abs ds n = map (\<lambda>(a, x). (x, threads_of n a)) (infos ds)" for ds :: "'a connections" and n
    by (simp add: peers_abs_def case_prod_unfold)
  have "peers_abs cs' ?m = peers_after (GoodbyeEvent ids) (peers_abs cs m)"
    unfolding abs i by (simp add: filter_map o_def case_prod_unfold still_used_def t)
  then have "holds_peers v' (peers_after (GoodbyeEvent ids) (peers_abs cs m))"
    unfolding holds_peers_def using v'(2,3) by metis
  then show ?thesis using v'(1) unfolding sv_onGoodbyeReceived_def by blast
qed

lemma run_event_legal:
  assumes "holds_peers v ps" and "legal_event e ps" and "run_event e v = Some v'"
  shows "holds_peers v' (peers_after e ps) \<and> right_event e ps"
proof -
  obtain cs m where r: "sv_repr v cs m" "sv_counted cs m" and ps: "ps = peers_abs cs m"
    using assms(1) by (auto simp: holds_peers_def)
  show ?thesis
  proof (cases e)
    case (HelloEvent info ids)
    then show ?thesis using holds_peers_hello [OF r, of info ids] assms(2,3) ps by auto
  next
    case (GoodbyeEvent ids)
    then show ?thesis using holds_peers_goodbye [OF r, of ids] assms(2,3) ps by auto
  next
    case (SendEvent sent)
    have "sv_sendToAll (\<lambda>_. collect) () v [] = Some (map (\<lambda>e. conn_info (snd e)) cs)"
      using sv_sendToAll_run [OF r(1), of "\<lambda>_ :: unit. collect"] by (simp add: deliver_all_collect)
    then show ?thesis using SendEvent assms ps by (auto simp: peers_abs_def case_prod_unfold split: if_splits)
  next
    case (FindEvent x r')
    then show ?thesis using assms ps peer_of_abs [OF r, of x] sv_find_run [OF r, of x] by (auto split: if_splits)
  qed
qed

lemma replay_legal:
  assumes "replay es v = Some v'" and "holds_peers v ps" and "legal es ps"
  shows "right es ps \<and> holds_peers v' (fold peers_after es ps)"
  using assms
proof (induction es arbitrary: v ps)
  case (Cons e es)
  then obtain v1 where v1: "run_event e v = Some v1" "replay es v1 = Some v'" by (auto split: Option.bind_splits)
  then show ?case using run_event_legal [OF Cons.prems(2) _ v1(1)] Cons.IH [OF v1(2)] Cons.prems(3) by simp
qed simp

section \<open>No thread is stuck\<close>

text \<open>The message of the handler a thread is in.\<close>

fun pending :: "('m, 'i) peer_activity \<Rightarrow> 'i peer_event option" where
  "pending (AddStart info ids) = Some (HelloEvent info ids)"
| "pending (AddLoop info ids _ _) = Some (HelloEvent info ids)"
| "pending (RemoveLoop ids _) = Some (GoodbyeEvent ids)"
| "pending _ = None"

definition can_go_on ::
  "('h, 'p) lock_platform \<Rightarrow> ('m \<Rightarrow> 'i \<Rightarrow> 'w \<Rightarrow> 'w option) \<Rightarrow> ('h, 'm, 'i, 'w, 'p) peers_state \<Rightarrow> nat \<Rightarrow> bool" where
  "can_go_on os deliver s i \<longleftrightarrow> (\<exists>s'. ps_step os deliver s s' \<and> ps_activity s' i \<noteq> ps_activity s i)"

lemma can_go_onI: "ps_step os deliver s s' \<Longrightarrow> ps_activity s' i \<noteq> ps_activity s i \<Longrightarrow> can_go_on os deliver s i"
  by (auto simp: can_go_on_def)

lemma run_event_progress:
  assumes "holds_peers v ps"
  shows "legal_event (HelloEvent info ids) ps \<Longrightarrow> \<exists>v'. sv_onHelloReceived info ids v = Some v'"
    and "legal_event (GoodbyeEvent ids) ps \<Longrightarrow> \<exists>v'. sv_onGoodbyeReceived ids v = Some v'"
    and "\<exists>sent. sv_sendToAll (\<lambda>_ :: unit. collect) () v [] = Some sent"
    and "\<exists>r. sv_findThreadStreamInfo x v = Some r"
proof -
  obtain cs m where r: "sv_repr v cs m" "sv_counted cs m" and ps: "ps = peers_abs cs m"
    using assms(1) by (auto simp: holds_peers_def)
  show "legal_event (HelloEvent info ids) ps \<Longrightarrow> \<exists>v'. sv_onHelloReceived info ids v = Some v'"
    using holds_peers_hello [OF r, of info ids] ps by blast
  show "legal_event (GoodbyeEvent ids) ps \<Longrightarrow> \<exists>v'. sv_onGoodbyeReceived ids v = Some v'"
    using holds_peers_goodbye [OF r, of ids] ps by blast
  show "\<exists>sent. sv_sendToAll (\<lambda>_ :: unit. collect) () v [] = Some sent"
    using sv_sendToAll_run [OF r(1), of "\<lambda>_ :: unit. collect"] by (simp add: deliver_all_collect)
  show "\<exists>r. sv_findThreadStreamInfo x v = Some r" using sv_find_run [OF r] by simp
qed

lemma unlock_possible:
  assumes "ps_guarded s" and "rw_documented os (rl_mLock (st_locked (ps_rw s))) held" and "rw_inv held (ps_rw s)"
    and "guard_of (ps_activity s i) = Some g"
  shows "\<exists>s1. ps_unlock os i s = Some s1 \<and> ps_activity s1 = ps_activity s"
proof -
  have g: "st_guards (ps_rw s) i = Some g" using ps_guardedD [OF assms(1)] assms(4) by simp
  obtain p where "sc_destroy_guard os (rl_mLock (st_locked (ps_rw s))) g (st_platform (ps_rw s)) = Some p"
    using rw_drop_guard [OF assms(2,3) g] by blast
  then show ?thesis using g by (simp add: ps_unlock_def)
qed

lemma add_progress:
  "explained v0 v (AddStart info ids) \<Longrightarrow> sv_onHelloReceived info ids v0 = Some v' \<Longrightarrow> \<exists>b v1. add_emplace info ids v = Some (b, v1)"
  "explained v0 v (AddLoop info ids b (x # left)) \<Longrightarrow> sv_onHelloReceived info ids v0 = Some v' \<Longrightarrow> \<exists>v1. add_one b x v = Some v1"
  by (auto simp: sv_onHelloReceived_def sv_addThreads_def add_emplace_def add_one_def split: Option.bind_splits)

lemma remove_progress:
  "explained v0 v (RemoveLoop ids (x # left)) \<Longrightarrow> sv_onGoodbyeReceived ids v0 = Some v' \<Longrightarrow> \<exists>v1. sv_removeThread x v = Some v1"
  by (auto split: Option.bind_splits)

lemma send_progress:
  assumes "explained v v (SendLoop msg it sent)" and "sv_sendToAll (\<lambda>_ :: unit. collect) () v [] = Some all"
    and "it \<noteq> ll_cend" and "\<forall>a w. deliver a w \<noteq> None"
  shows "\<exists>a it1 w1. send_one deliver it v w = Some (a, it1, w1)"
proof -
  have "sv_sendToAll_loop collect (connHeap v) it sent = Some all" using assms(1,2) by simp
  then obtain c it1 where "it_deref (connHeap v) it = Some c" "it_next (connHeap v) it = Some it1"
    using assms(3) unfolding sv_sendToAll_loop.simps [of collect "connHeap v" it sent] by (auto split: Option.bind_splits)
  moreover obtain w1 where "deliver (conn_info c) w = Some w1" using assms(4) by blast
  ultimately show ?thesis by (simp add: send_one_def)
qed

lemma thread_progress:
  assumes g: "ps_guarded s" and doc: "rw_documented os (rl_mLock (st_locked (ps_rw s))) held" and inv: "rw_inv held (ps_rw s)"
    and ex: "ps_explained v0 s" and h: "holds_peers v0 ps" and del: "\<forall>msg a w. deliver msg a w \<noteq> None"
    and pend: "\<forall>e. pending (ps_activity s i) = Some e \<longrightarrow> legal_event e ps" and "ps_activity s i \<noteq> Idle"
  shows "can_go_on os deliver s i"
proof -
  have one: "explained v0 (ps_value s) (ps_activity s i)" using ex by (simp add: ps_explained_def)
  note unlock = unlock_possible [OF g doc inv, of i]
  have val: "ps_value s = v0" if "guard_of (ps_activity s i) = Some \<lparr>sc_write = False, mLockedLock = True\<rparr>"
    using reader_no_writer [OF g inv that] ex by (simp add: ps_explained_def)
  note run = run_event_progress [OF h]
  show ?thesis
  proof (cases "ps_activity s i")
    case (AddStart info ids)
    then obtain v' where "sv_onHelloReceived info ids v0 = Some v'" using run(1) pend by fastforce
    then obtain b v1 where "add_emplace info ids (ps_value s) = Some (b, v1)"
      using add_progress(1) [OF one [unfolded AddStart]] by blast
    then show ?thesis using can_go_onI [OF ps_step.hello_emplace, of s i] AddStart by simp
  next
    case (AddLoop info ids b left)
    show ?thesis
    proof (cases left)
      case Nil
      then show ?thesis using unlock AddLoop can_go_onI [OF ps_step.hello_unlock, of s i] by fastforce
    next
      case (Cons x left')
      obtain v' where "sv_onHelloReceived info ids v0 = Some v'" using run(1) pend AddLoop by fastforce
      then obtain v1 where "add_one b x (ps_value s) = Some v1"
        using add_progress(2) [OF one [unfolded AddLoop Cons]] by blast
      then show ?thesis using can_go_onI [OF ps_step.hello_add, of s i] AddLoop Cons by simp
    qed
  next
    case (RemoveLoop ids left)
    show ?thesis
    proof (cases left)
      case Nil
      then show ?thesis using unlock RemoveLoop can_go_onI [OF ps_step.goodbye_unlock, of s i] by fastforce
    next
      case (Cons x left')
      obtain v' where "sv_onGoodbyeReceived ids v0 = Some v'" using run(2) pend RemoveLoop by fastforce
      then obtain v1 where "sv_removeThread x (ps_value s) = Some v1"
        using remove_progress [OF one [unfolded RemoveLoop Cons]] by blast
      then show ?thesis using can_go_onI [OF ps_step.goodbye_remove, of s i] RemoveLoop Cons by simp
    qed
  next
    case (SendLoop msg it sent)
    show ?thesis
    proof (cases "it = ll_cend")
      case True
      then show ?thesis using unlock SendLoop can_go_onI [OF ps_step.send_unlock, of s i] by fastforce
    next
      case False
      have v: "ps_value s = v0" using val SendLoop by simp
      obtain all where "sv_sendToAll (\<lambda>_ :: unit. collect) () v0 [] = Some all" using run(3) by blast
      then obtain a it1 w where "send_one (deliver msg) it (ps_value s) (ps_net s) = Some (a, it1, w)"
        using send_progress [of v0 msg it sent all "deliver msg" "ps_net s"] one v SendLoop False del by auto
      from can_go_onI [OF ps_step.send_message [where deliver = deliver, OF SendLoop False this]] show ?thesis using SendLoop by simp
    qed
  next
    case (FindStart msg x)
    then obtain r where "sv_findThreadStreamInfo x (ps_value s) = Some r"
      using val run(4) [of x] by auto
    from can_go_onI [OF ps_step.find_thread [OF FindStart this]] show ?thesis using FindStart by simp
  next
    case (FindDone msg x r)
    then show ?thesis using unlock can_go_onI [OF ps_step.find_unlock, of s i] by fastforce
  next
    case (Found msg r)
    show ?thesis
    proof (cases r)
      case (Inl e)
      from can_go_onI [OF ps_step.found_none [OF Found [unfolded Inl]]] show ?thesis using Found by simp
    next
      case (Inr a)
      obtain w where "deliver msg a (ps_net s) = Some w" using del by blast
      from can_go_onI [OF ps_step.found_send [where deliver = deliver, OF Found [unfolded Inr] this]] show ?thesis using Found by simp
    qed
  qed (use assms(8) in simp)
qed

lemma pending_writes: "pending a \<noteq> None \<longleftrightarrow> guard_of a = Some \<lparr>sc_write = True, mLockedLock = True\<rparr>"
  by (cases a) auto

lemma no_handler_no_writer:
  assumes "ps_guarded s" and "\<forall>i. pending (ps_activity s i) = None"
  shows "writers (st_guards (ps_rw s)) = {}"
proof -
  have "\<not> (\<exists>g. guard_of (ps_activity s i) = Some g \<and> sc_write g)" for i
    using assms(2) [rule_format, of i] by (cases "ps_activity s i") auto
  then show ?thesis using ps_guardedD [OF assms(1)] by (auto simp: writers_def)
qed

section \<open>Properties\<close>

text \<open>
  C4: the lock makes the operations on the peers atomic. Any number of threads run hello and goodbye handlers,
  messages to all peers and searches, interleaved at every lock operation and every turn of a loop, over
  a lock that behaves as documented. In every state they reach, running the operations that have ended as
  whole operations, one after the other in the order in which they ended, succeeds, gives every reader
  the answer it had, and gives the peers that are stored, unless a handler is at work; while one is,
  no other thread is in an operation.
\<close>

theorem peers_atomic:
  assumes "ps_reachable os deliver s s'" and "ps_start held v s"
    and "rw_documented os (rl_mLock (st_locked (ps_rw s))) held"
  shows "(\<exists>v'. replay (ps_history s') v = Some v' \<and> ((\<forall>i. pending (ps_activity s' i) = None) \<longrightarrow> ps_value s' = v'))
       \<and> (\<forall>i j. pending (ps_activity s' i) \<noteq> None \<longrightarrow> j \<noteq> i \<longrightarrow> guard_of (ps_activity s' j) = None)"
proof (rule conjI)
  note inv = ps_reachable_inv [OF assms]
  obtain v' where v': "replay (ps_history s') v = Some v'" "ps_explained v' s'"
    using ps_reachable_explained [OF assms] by blast
  then show "\<exists>v'. replay (ps_history s') v = Some v' \<and> ((\<forall>i. pending (ps_activity s' i) = None) \<longrightarrow> ps_value s' = v')"
    using no_handler_no_writer [of s'] inv by (auto simp: ps_explained_def)
  show "\<forall>i j. pending (ps_activity s' i) \<noteq> None \<longrightarrow> j \<noteq> i \<longrightarrow> guard_of (ps_activity s' j) = None"
    using writer_alone [of s' held] inv pending_writes by blast
qed

text \<open>
  C5: what the readers see, from no peers on. As long as every handler gets a legal message, a hello of
  new threads or a goodbye of known ones, the stored connections are the peers that have said hello and
  have a thread left, in the order of their hellos; every message to all peers was sent to exactly the
  peers of that moment, in this order; every search found the peer of its thread at that moment, or none.
  No thread gets stuck in an operation: no iterator dangles, and every guard can be released.
\<close>

theorem peers_served:
  assumes "ps_reachable os deliver s s'" and "ps_start held sv_new s"
    and "rw_documented os (rl_mLock (st_locked (ps_rw s))) held" and "legal (ps_history s') []"
  shows "right (ps_history s') []
       \<and> ((\<forall>i. pending (ps_activity s' i) = None) \<longrightarrow> holds_peers (ps_value s') (fold peers_after (ps_history s') []))
       \<and> ((\<forall>msg a w. deliver msg a w \<noteq> None) \<longrightarrow>
            (\<forall>i. ps_activity s' i \<noteq> Idle \<longrightarrow>
               (\<forall>e. pending (ps_activity s' i) = Some e \<longrightarrow> legal_event e (fold peers_after (ps_history s') [])) \<longrightarrow>
               can_go_on os deliver s' i))"
proof (intro conjI impI allI)
  note inv = ps_reachable_inv [OF assms(1-3)]
  obtain v' where v': "replay (ps_history s') sv_new = Some v'" "ps_explained v' s'"
    using ps_reachable_explained [OF assms(1-3)] by blast
  note r = replay_legal [OF v'(1) holds_peers_new assms(4)]
  show "right (ps_history s') []" using r ..
  show "holds_peers (ps_value s') (fold peers_after (ps_history s') [])" if "\<forall>i. pending (ps_activity s' i) = None"
    using r v'(2) no_handler_no_writer [of s'] inv that by (simp add: ps_explained_def)
  have "rw_documented os (rl_mLock (st_locked (ps_rw s'))) held" using inv assms(3) by simp
  then show "can_go_on os deliver s' i" if "\<forall>msg a w. deliver msg a w \<noteq> None" "ps_activity s' i \<noteq> Idle"
    "\<forall>e. pending (ps_activity s' i) = Some e \<longrightarrow> legal_event e (fold peers_after (ps_history s') [])" for i
    using thread_progress [of s' os held v' "fold peers_after (ps_history s') []" deliver i] inv v'(2) r that by blast
qed

section \<open>Runs\<close>

text \<open>No thread is in an operation and the lock is free; then an operation can run to its end.\<close>

definition ps_quiet ::
  "'i other_servers \<Rightarrow> 'i peer_event list \<Rightarrow> (unit, 'm, 'i, 'w, nat \<times> bool) peers_state \<Rightarrow> bool" where
  "ps_quiet v es s \<longleftrightarrow> ps_value s = v \<and> ps_history s = es \<and> ps_activity s = (\<lambda>_. Idle)
     \<and> st_guards (ps_rw s) = Map.empty \<and> st_platform (ps_rw s) = (0, False)"

lemma ps_reachable_step: "ps_step os deliver s s1 \<Longrightarrow> ps_reachable os deliver s1 s2 \<Longrightarrow> ps_reachable os deliver s s2"
  by (auto simp: ps_reachable_def)

lemma ps_reachable_trans: "ps_reachable os deliver s s1 \<Longrightarrow> ps_reachable os deliver s1 s2 \<Longrightarrow> ps_reachable os deliver s s2"
  by (auto simp: ps_reachable_def)

lemma add_loop_run:
  assumes "ps_activity s i = AddLoop info ids b left"
    and "sv_addThreads_loop b left (idsHeap (ps_value s)) (mThreadIDToStream (ps_value s)) = Some (h, t)"
  shows "\<exists>s'. ps_reachable os deliver s s' \<and> ps_activity s' = (ps_activity s)(i := AddLoop info ids b [])
           \<and> ps_value s' = (ps_value s)\<lparr>idsHeap := h, mThreadIDToStream := t\<rparr> \<and> ps_history s' = ps_history s
           \<and> st_guards (ps_rw s') = st_guards (ps_rw s) \<and> st_platform (ps_rw s') = st_platform (ps_rw s)"
  using assms
proof (induction left arbitrary: s)
  case Nil
  then show ?case by (intro exI [of _ s]) (auto simp: ps_reachable_def fun_eq_iff)
next
  case (Cons x left)
  obtain v1 where one: "add_one b x (ps_value s) = Some v1"
    and rest: "sv_addThreads_loop b left (idsHeap v1) (mThreadIDToStream v1) = Some (h, t)"
    and v1: "v1\<lparr>idsHeap := h, mThreadIDToStream := t\<rparr> = (ps_value s)\<lparr>idsHeap := h, mThreadIDToStream := t\<rparr>"
    using Cons.prems(2) by (auto simp: add_one_def split: Option.bind_splits)
  let ?s1 = "ps_do i (AddLoop info ids b left) (ps_put v1 s)"
  have "ps_activity ?s1 i = AddLoop info ids b left"
    and "sv_addThreads_loop b left (idsHeap (ps_value ?s1)) (mThreadIDToStream (ps_value ?s1)) = Some (h, t)"
    using rest by simp_all
  from Cons.IH [OF this] obtain s' where r: "ps_reachable os deliver ?s1 s'"
    and s': "ps_activity s' = (ps_activity ?s1)(i := AddLoop info ids b [])" "ps_history s' = ps_history ?s1"
    "ps_value s' = (ps_value ?s1)\<lparr>idsHeap := h, mThreadIDToStream := t\<rparr>"
    "st_guards (ps_rw s') = st_guards (ps_rw ?s1)" "st_platform (ps_rw s') = st_platform (ps_rw ?s1)" by blast
  show ?case using ps_reachable_step [OF ps_step.hello_add [OF Cons.prems(1) one] r] s' v1
    by (intro exI [of _ s']) simp
qed

lemma hello_run:
  assumes "ps_quiet v es s" and "sv_onHelloReceived info ids v = Some v'"
  shows "\<exists>s'. ps_reachable counting_platform deliver s s' \<and> ps_quiet v' (es @ [HelloEvent info ids]) s'"
proof -
  note q = assms(1) [unfolded ps_quiet_def]
  obtain b v1 h t where em: "add_emplace info ids v = Some (b, v1)"
    and lp: "sv_addThreads_loop b ids (idsHeap v1) (mThreadIDToStream v1) = Some (h, t)"
    and v': "v' = v1\<lparr>idsHeap := h, mThreadIDToStream := t\<rparr>"
    using assms(2) by (auto simp: sv_onHelloReceived_def sv_addThreads_def add_emplace_def split: Option.bind_splits)
  let ?w = "\<lparr>sc_write = True, mLockedLock = True\<rparr>"
  let ?s1 = "s\<lparr>ps_rw := (ps_rw s)\<lparr>st_platform := (0, True), st_guards := [0 \<mapsto> ?w]\<rparr>\<rparr>"
  have lock: "ps_getWrite counting_platform 0 s = Some ?s1"
    using q by (simp add: ps_getWrite_def rl_getWrite_def ScopedWriteLock_def counting_platform_def)
  have idle: "ps_activity s 0 = Idle" using q by simp
  let ?s2 = "ps_do 0 (AddStart info ids) ?s1" and ?s3 = "ps_do 0 (AddLoop info ids b ids) (ps_put v1 (ps_do 0 (AddStart info ids) ?s1))"
  have st2: "ps_step counting_platform deliver ?s2 ?s3" by (rule ps_step.hello_emplace) (use q em in simp_all)
  have "ps_activity ?s3 0 = AddLoop info ids b ids"
    and "sv_addThreads_loop b ids (idsHeap (ps_value ?s3)) (mThreadIDToStream (ps_value ?s3)) = Some (h, t)" using lp by simp_all
  from add_loop_run [OF this] obtain s4 where r: "ps_reachable counting_platform deliver ?s3 s4"
    and s4: "ps_activity s4 = (ps_activity ?s3)(0 := AddLoop info ids b [])" "ps_history s4 = ps_history ?s3"
    "ps_value s4 = (ps_value ?s3)\<lparr>idsHeap := h, mThreadIDToStream := t\<rparr>"
    "st_guards (ps_rw s4) = st_guards (ps_rw ?s3)" "st_platform (ps_rw s4) = st_platform (ps_rw ?s3)" by blast
  let ?s5 = "s4\<lparr>ps_rw := (ps_rw s4)\<lparr>st_platform := (0, False), st_guards := Map.empty\<rparr>\<rparr>"
  have "ps_unlock counting_platform 0 s4 = Some ?s5"
    using s4 by (simp add: ps_unlock_def sc_destroy_guard_def counting_platform_def)
  then have "ps_step counting_platform deliver s4 (ps_do 0 Idle (ps_record (HelloEvent info ids) ?s5))"
    by (intro ps_step.hello_unlock [of s4 0 info ids b]) (use s4 in simp_all)
  then have "ps_reachable counting_platform deliver s4 (ps_do 0 Idle (ps_record (HelloEvent info ids) ?s5))"
    by (auto simp: ps_reachable_def)
  then have "ps_reachable counting_platform deliver s (ps_do 0 Idle (ps_record (HelloEvent info ids) ?s5))"
    using ps_reachable_step [OF ps_step.hello_lock [OF idle lock] ps_reachable_step [OF st2 ps_reachable_trans [OF r]]] by blast
  moreover have "ps_quiet v' (es @ [HelloEvent info ids]) (ps_do 0 Idle (ps_record (HelloEvent info ids) ?s5))"
    using q s4 v' by (simp add: ps_quiet_def fun_eq_iff)
  ultimately show ?thesis by blast
qed

lemma find_run:
  assumes "ps_quiet v es s" and "sv_findThreadStreamInfo x v = Some r"
  shows "\<exists>s'. ps_reachable counting_platform deliver s s' \<and> ps_history s' = es @ [FindEvent x r]
           \<and> ps_value s' = v \<and> ps_activity s' = (\<lambda>_. Idle)(0 := Found msg r)"
proof -
  note q = assms(1) [unfolded ps_quiet_def]
  let ?r = "\<lparr>sc_write = False, mLockedLock = True\<rparr>"
  let ?s1 = "s\<lparr>ps_rw := (ps_rw s)\<lparr>st_platform := (1, False), st_guards := [0 \<mapsto> ?r]\<rparr>\<rparr>"
  let ?s2 = "ps_do 0 (FindStart msg x) ?s1" and ?s3 = "ps_do 0 (FindDone msg x r) (ps_do 0 (FindStart msg x) ?s1)"
  let ?s4 = "?s3\<lparr>ps_rw := (ps_rw ?s3)\<lparr>st_platform := (0, False), st_guards := Map.empty\<rparr>\<rparr>"
  let ?s5 = "ps_do 0 (Found msg r) (ps_record (FindEvent x r) ?s4)"
  have "ps_getRead counting_platform 0 s = Some ?s1"
    using q by (simp add: ps_getRead_def rl_getRead_def ScopedReadLock_def counting_platform_def)
  then have st1: "ps_step counting_platform deliver s ?s2" by (intro ps_step.find_lock) (use q in simp_all)
  have st2: "ps_step counting_platform deliver ?s2 ?s3" by (rule ps_step.find_thread) (use q assms(2) in simp_all)
  have "ps_unlock counting_platform 0 ?s3 = Some ?s4"
    by (simp add: ps_unlock_def sc_destroy_guard_def counting_platform_def)
  then have "ps_step counting_platform deliver ?s3 ?s5" by (intro ps_step.find_unlock) simp_all
  from ps_reachable_step [OF st1 ps_reachable_step [OF st2 ps_reachable_step [OF this]]]
  have "ps_reachable counting_platform deliver s ?s5" by (simp add: ps_reachable_def)
  then show ?thesis using q by (intro exI [of _ ?s5]) (simp add: fun_eq_iff)
qed

text \<open>A peer at address 7 joins with thread 1, then a client searches for it.\<close>

definition sample_start :: "(unit, unit, nat, nat list, nat \<times> bool) peers_state" where
  "sample_start = \<lparr>ps_rw = \<lparr>st_locked = \<lparr>rl_mLock = Some (), rl_mValue = sv_new\<rparr>, st_platform = (0, False), st_guards = Map.empty\<rparr>,
     ps_activity = (\<lambda>_. Idle), ps_net = [], ps_history = []\<rparr>"

lemma sample_started: "ps_start id sv_new sample_start" "ps_quiet sv_new [] sample_start"
  by (simp_all add: ps_start_def ps_quiet_def sample_start_def)

lemma sample_run:
  "\<exists>s'. ps_reachable counting_platform deliver sample_start s' \<and> ps_history s' = [HelloEvent 7 [1], FindEvent 1 (Inr 7)]
      \<and> (\<forall>i. pending (ps_activity s' i) = None)"
proof -
  let ?e = "HelloEvent (7 :: nat) [1 :: 64 word]"
  have leg: "legal_event ?e []" by (simp add: peer_threads_def)
  obtain v' where v': "sv_onHelloReceived (7 :: nat) [1] sv_new = Some v'" using run_event_progress(1) [OF holds_peers_new leg] by blast
  have hp: "holds_peers v' [(7, {1})]" using run_event_legal [OF holds_peers_new leg, of v'] v' by simp
  obtain r where r: "sv_findThreadStreamInfo 1 v' = Some r" using run_event_progress(4) [OF hp] by blast
  have "right_event (FindEvent 1 r) [(7, {1 :: 64 word})]"
    using run_event_legal [OF hp, of "FindEvent 1 r" v'] r by simp
  then have r7: "r = Inr 7" by (simp add: peer_of_def)
  obtain s1 where s1: "ps_reachable counting_platform deliver sample_start s1" "ps_quiet v' [?e] s1"
    using hello_run [OF sample_started(2) v'] by auto
  obtain s2 where s2: "ps_reachable counting_platform deliver s1 s2" "ps_history s2 = [?e] @ [FindEvent 1 r]"
    "ps_activity s2 = (\<lambda>_. Idle)(0 := Found () r)" using find_run [OF s1(2) r] by blast
  show ?thesis using ps_reachable_trans [OF s1(1) s2(1)] s2(2,3) r7 by (intro exI [of _ s2]) simp
qed

lemma sample_documented: "rw_documented counting_platform (rl_mLock (st_locked (ps_rw sample_start))) id"
  by (rule counting_documented)

lemma peers_atomic_witness:
  "\<exists>s'. ps_reachable counting_platform (\<lambda>_ a w. Some (w @ [a])) sample_start s' \<and> ps_history s' = [HelloEvent 7 [1], FindEvent 1 (Inr 7)]
      \<and> replay (ps_history s') sv_new = Some (ps_value s')"
proof -
  obtain s' where s': "ps_reachable counting_platform (\<lambda>_ a w. Some (w @ [a])) sample_start s'"
    "ps_history s' = [HelloEvent 7 [1], FindEvent 1 (Inr 7)]" "\<forall>i. pending (ps_activity s' i) = None"
    using sample_run by blast
  from peers_atomic [OF s'(1) sample_started(1) sample_documented, THEN conjunct1] s' show ?thesis by auto
qed

lemma peers_served_witness:
  "\<exists>s'. ps_reachable counting_platform (\<lambda>_ a w. Some (w @ [a])) sample_start s' \<and> ps_history s' = [HelloEvent 7 [1], FindEvent 1 (Inr 7)]
      \<and> holds_peers (ps_value s') [(7, {1})]"
proof -
  obtain s' where s': "ps_reachable counting_platform (\<lambda>_ a w. Some (w @ [a])) sample_start s'"
    "ps_history s' = [HelloEvent 7 [1], FindEvent 1 (Inr 7)]" "\<forall>i. pending (ps_activity s' i) = None"
    using sample_run by blast
  have "legal (ps_history s') []" using s'(2) by (simp add: peer_threads_def)
  from peers_served [OF s'(1) sample_started(1) sample_documented this] s'
  have "holds_peers (ps_value s') (fold peers_after (ps_history s') [])" by blast
  then show ?thesis using s' by auto
qed

end
