(* ===== verification/KeyIterators.thy ===== *)
theory KeyIterators
  imports IteratorTools HashTables Vectors
begin

text \<open>
  Ranges of iterators that are read: the key and data iterators of Base/HashTable.hpp, which are
  \<open>ActionIterator\<close>s over the iterators of the list of entries, and the members of Base/Vector.hpp that
  copy a range into the vector's buffer. The range is of another container than the vector's own buffer.
\<close>

section \<open>The iterators of a hash table\<close>

definition ht_begin :: "hash_table \<Rightarrow> ptr" where
  "ht_begin t = mBegin (mKeysList t)"

definition ht_end :: "hash_table \<Rightarrow> ptr" where
  "ht_end t = ll_cend"

definition ht_cbegin :: "hash_table \<Rightarrow> ptr" where
  "ht_cbegin t = mBegin (mKeysList t)"

definition ht_cend :: "hash_table \<Rightarrow> ptr" where
  "ht_cend t = ll_cend"

definition GetKeyAction :: "('k, 't) pair_node \<Rightarrow> 'k" where
  "GetKeyAction keyAndData = pt_first keyAndData"

definition GetDataAction :: "('k, 't) pair_node \<Rightarrow> 't" where
  "GetDataAction keyAndData = pt_second keyAndData"

type_synonym ('k, 't, 'v) entry_iterator = "(ptr, ('k, 't) pair_node \<Rightarrow> 'v) action_iterator"

definition ht_keysBegin :: "hash_table \<Rightarrow> ('k, 't, 'k) entry_iterator" where
  "ht_keysBegin t = makeActionIterator (ht_begin t) GetKeyAction"

definition ht_keysEnd :: "hash_table \<Rightarrow> ('k, 't, 'k) entry_iterator" where
  "ht_keysEnd t = makeActionIterator (ht_end t) GetKeyAction"

definition ht_dataBegin :: "hash_table \<Rightarrow> ('k, 't, 't) entry_iterator" where
  "ht_dataBegin t = makeActionIterator (ht_begin t) GetDataAction"

definition ht_dataEnd :: "hash_table \<Rightarrow> ('k, 't, 't) entry_iterator" where
  "ht_dataEnd t = makeActionIterator (ht_end t) GetDataAction"

section \<open>Ranges into a vector\<close>

text \<open>
  \<open>insertToUninitilizedBuffer\<close>, the loop over the iterators: the number of the objects constructed, and
  the memory.
\<close>

partial_function (option) vec_insert_loop ::
  "('i \<Rightarrow> 'v option) \<Rightarrow> ('i \<Rightarrow> 'i option) \<Rightarrow> 'i \<Rightarrow> ptr \<Rightarrow> size_t \<Rightarrow> 'i \<Rightarrow> 'v memory \<Rightarrow> (size_t \<times> 'v memory) option" where
  "vec_insert_loop deref increment iend p currentIndex iterator m =
     (if iterator = iend then Some (currentIndex, m)
      else do {
        x \<leftarrow> deref iterator;
        m1 \<leftarrow> co_construct m p currentIndex x;
        iterator1 \<leftarrow> increment iterator;
        vec_insert_loop deref increment iend p (currentIndex + 1) iterator1 m1
      })"

definition vec_insertRange ::
  "('i \<Rightarrow> 'v option) \<Rightarrow> ('i \<Rightarrow> 'i option) \<Rightarrow> size_t \<Rightarrow> 'i \<Rightarrow> 'i \<Rightarrow> ptr \<Rightarrow> 'v memory \<Rightarrow> (size_t \<times> 'v memory) option" where
  "vec_insertRange deref increment index ibegin iend p m = do {
     (currentIndex, m1) \<leftarrow> vec_insert_loop deref increment iend p index ibegin m;
     Some (currentIndex - index, m1)
   }"

definition vec_assignTriple ::
  "('v \<Rightarrow> 'v) \<Rightarrow> size_t \<Rightarrow> ('i \<Rightarrow> 'v option) \<Rightarrow> ('i \<Rightarrow> 'i option) \<Rightarrow> 'i \<Rightarrow> 'i \<Rightarrow> size_t
     \<Rightarrow> 'v memory \<Rightarrow> vector \<Rightarrow> ('v memory \<times> vector) option" where
  "vec_assignTriple mv sizeofT deref increment ibegin iend beginToEnd m v = do {
     (m1, v1) \<leftarrow> vec_resizeBuffer mv sizeofT beginToEnd m v;
     (_, m2) \<leftarrow> vec_insertRange deref increment 0 ibegin iend (mPointer v1) m1;
     Some (m2, v1)
   }"

definition vec_assignRange ::
  "('v \<Rightarrow> 'v) \<Rightarrow> size_t \<Rightarrow> ('i \<Rightarrow> 'v option) \<Rightarrow> ('i \<Rightarrow> 'i option) \<Rightarrow> 'i \<Rightarrow> 'i
     \<Rightarrow> 'v memory \<Rightarrow> vector \<Rightarrow> ('v memory \<times> vector) option" where
  "vec_assignRange mv sizeofT deref increment ibegin iend m v = do {
     beginToEnd \<leftarrow> iteratorsRange increment ibegin iend;
     vec_assignTriple mv sizeofT deref increment ibegin iend beginToEnd m v
   }"

text \<open>The constructors from a range: the members have their initial values, then \<open>assign\<close>.\<close>

definition vec_constructTriple ::
  "('v \<Rightarrow> 'v) \<Rightarrow> size_t \<Rightarrow> ('i \<Rightarrow> 'v option) \<Rightarrow> ('i \<Rightarrow> 'i option) \<Rightarrow> 'i \<Rightarrow> 'i \<Rightarrow> size_t
     \<Rightarrow> 'v memory \<Rightarrow> ('v memory \<times> vector) option" where
  "vec_constructTriple mv sizeofT deref increment ibegin iend beginToEnd m =
     vec_assignTriple mv sizeofT deref increment ibegin iend beginToEnd m vec_empty"

definition vec_constructRange ::
  "('v \<Rightarrow> 'v) \<Rightarrow> size_t \<Rightarrow> ('i \<Rightarrow> 'v option) \<Rightarrow> ('i \<Rightarrow> 'i option) \<Rightarrow> 'i \<Rightarrow> 'i
     \<Rightarrow> 'v memory \<Rightarrow> ('v memory \<times> vector) option" where
  "vec_constructRange mv sizeofT deref increment ibegin iend m = do {
     beginToEnd \<leftarrow> iteratorsRange increment ibegin iend;
     vec_constructTriple mv sizeofT deref increment ibegin iend beginToEnd m
   }"

text \<open>\<open>expand\<close> with a range and its length.\<close>

definition vec_expandTriple ::
  "('v \<Rightarrow> 'v) \<Rightarrow> size_t \<Rightarrow> ('i \<Rightarrow> 'v option) \<Rightarrow> ('i \<Rightarrow> 'i option) \<Rightarrow> 'i \<Rightarrow> 'i \<Rightarrow> size_t
     \<Rightarrow> 'v memory \<Rightarrow> vector \<Rightarrow> ('v memory \<times> vector) option" where
  "vec_expandTriple mv sizeofT deref increment ibegin iend beginToEnd m v = do {
     let oldSize = mSize v;
     (m1, v1) \<leftarrow> vec_resizeBuffer mv sizeofT (mSize v + beginToEnd) m v;
     (_, m2) \<leftarrow> vec_insertRange deref increment oldSize ibegin iend (mPointer v1) m1;
     Some (m2, v1)
   }"

text \<open>The accessors: the begin is the pointer, the end the index behind the last element.\<close>

definition vec_data :: "vector \<Rightarrow> ptr" where
  "vec_data v = mPointer v"

definition vec_begin :: "vector \<Rightarrow> ptr \<times> nat" where
  "vec_begin v = (vec_data v, 0)"

definition vec_end :: "vector \<Rightarrow> ptr \<times> nat" where
  "vec_end v = (vec_data v, unat (mSize v))"

definition vec_size :: "vector \<Rightarrow> size_t" where
  "vec_size v = mSize v"

section \<open>Iterators that are read\<close>

text \<open>
  \<open>reads c ps xs\<close>: the iterators of \<open>c\<close> are \<open>ps\<close>, and all but the last one, which is past the end,
  give the values \<open>xs\<close>.
\<close>

locale readable = bidirectional increment decrement path
  for increment decrement :: "'c \<Rightarrow> 'i \<Rightarrow> 'i option" and path :: "'c \<Rightarrow> 'i list \<Rightarrow> bool" +
  fixes deref :: "'c \<Rightarrow> 'i \<Rightarrow> 'v option" and reads :: "'c \<Rightarrow> 'i list \<Rightarrow> 'v list \<Rightarrow> bool"
  assumes reads_path: "reads c ps xs \<Longrightarrow> path c ps \<and> length ps = Suc (length xs)"
    and reads_deref: "reads c ps xs \<Longrightarrow> i < length xs \<Longrightarrow> deref c (ps ! i) = Some (xs ! i)"
begin

lemma insert_loop_run:
  assumes r: "reads c ps xs" and "i \<le> length xs"
  shows "vec_insert_loop (deref c) (increment c) (ps ! length xs) p k (ps ! i) m
    = map_option (Pair (k + of_nat (length xs - i))) (vec_insertToUninitilized k (drop i xs) p m)"
  using assms(2)
proof (induction "length xs - i" arbitrary: i k m)
  case 0
  then show ?case by (simp add: vec_insert_loop.simps)
next
  case (Suc d)
  note path = conjunct1 [OF reads_path [OF r]] and len = conjunct2 [OF reads_path [OF r]]
  have lt: "i < length xs" using Suc.hyps(2) by simp
  then have "ps ! i \<noteq> ps ! length xs" using distinct_path [OF path] len by (simp add: nth_eq_iff_index_eq)
  moreover have "increment c (ps ! i) = Some (ps ! Suc i)" using increment_path [OF path, of i] lt len by simp
  moreover have "(of_nat (length xs - i) :: size_t) = 1 + of_nat (length xs - Suc i)" using Suc.hyps(2)
    by (metis Suc_diff_Suc lt of_nat_Suc)
  ultimately show ?case using Suc.hyps(1) [of "Suc i" "k + 1"] Suc.hyps(2) reads_deref [OF r lt] lt
    by (subst vec_insert_loop.simps)
      (auto simp: Cons_nth_drop_Suc [symmetric] add.assoc option.map_comp o_def split: Option.bind_splits)
qed

lemma insert_range_run:
  assumes "reads c ps xs"
  shows "vec_insertRange (deref c) (increment c) k (ps ! 0) (ps ! length xs) p m
    = map_option (Pair (of_nat (length xs))) (vec_insertToUninitilized k xs p m)"
  using insert_loop_run [OF assms, of 0 p k m]
  by (auto simp: vec_insertRange_def split: Option.bind_splits)

text \<open>Constructing, assigning and expanding from the range is doing so with the list of its values.\<close>

lemma range_count: "reads c ps xs \<Longrightarrow> iteratorsRange (increment c) (ps ! 0) (ps ! length xs) = Some (of_nat (length xs))"
  using distance [of c ps 0 "length xs"] reads_path [of c ps xs] by simp

lemma assign_range_run:
  assumes "reads c ps xs"
  shows "vec_assignRange mv sizeofT (deref c) (increment c) (ps ! 0) (ps ! length xs) m v = vec_assign mv sizeofT xs m v"
  using range_count [OF assms] insert_range_run [OF assms]
  by (auto simp: vec_assignRange_def vec_assignTriple_def vec_assign_def split: Option.bind_splits prod.splits)

lemma construct_range_run:
  assumes "reads c ps xs"
  shows "vec_constructRange mv sizeofT (deref c) (increment c) (ps ! 0) (ps ! length xs) m = vec_assign mv sizeofT xs m vec_empty"
  using assign_range_run [OF assms] by (simp add: vec_constructRange_def vec_constructTriple_def vec_assignRange_def)

lemma expand_range_run:
  assumes "reads c ps xs"
  shows "vec_expandTriple mv sizeofT (deref c) (increment c) (ps ! 0) (ps ! length xs) (of_nat (length xs)) m v
    = vec_expand_range mv sizeofT xs m v"
  using insert_range_run [OF assms]
  by (auto simp: vec_expandTriple_def vec_expand_range_def Let_def split: Option.bind_splits prod.splits)

end

text \<open>A range through an action is a range of the mapped values.\<close>

definition mapped_path ::
  "('c \<Rightarrow> 'i list \<Rightarrow> bool) \<Rightarrow> ('v \<Rightarrow> 'w) \<Rightarrow> 'c \<Rightarrow> ('i, 'v \<Rightarrow> 'w) action_iterator list \<Rightarrow> bool" where
  "mapped_path path f c qs \<longleftrightarrow> (\<exists>ps. path c ps \<and> qs = map (\<lambda>p. makeActionIterator p f) ps)"

definition mapped_reads ::
  "('c \<Rightarrow> 'i list \<Rightarrow> 'v list \<Rightarrow> bool) \<Rightarrow> ('v \<Rightarrow> 'w) \<Rightarrow> 'c \<Rightarrow> ('i, 'v \<Rightarrow> 'w) action_iterator list \<Rightarrow> 'w list \<Rightarrow> bool" where
  "mapped_reads reads f c qs ws \<longleftrightarrow> (\<exists>ps xs. reads c ps xs \<and> qs = map (\<lambda>p. makeActionIterator p f) ps \<and> ws = map f xs)"

locale mapped = readable increment decrement path deref reads
  for increment decrement :: "'c \<Rightarrow> 'i \<Rightarrow> 'i option" and path :: "'c \<Rightarrow> 'i list \<Rightarrow> bool"
    and deref :: "'c \<Rightarrow> 'i \<Rightarrow> 'v option" and reads :: "'c \<Rightarrow> 'i list \<Rightarrow> 'v list \<Rightarrow> bool" +
  fixes f :: "'v \<Rightarrow> 'w"

sublocale mapped < act: readable "\<lambda>c. ac_increment (increment c)" "\<lambda>c. ac_decrement (decrement c)" "mapped_path path f"
  "\<lambda>c. ac_deref (deref c)" "mapped_reads reads f"
proof
  fix c qs i
  assume "mapped_path path f c qs"
  then obtain ps where p: "path c ps" and qs: "qs = map (\<lambda>p. makeActionIterator p f) ps" by (auto simp: mapped_path_def)
  show "distinct qs" using distinct_path [OF p] by (auto simp: qs distinct_map makeActionIterator_def intro: inj_onI)
  show "ac_increment (increment c) (qs ! i) = Some (qs ! Suc i)" if "Suc i < length qs"
    using increment_path [OF p, of i] that by (simp add: qs ac_increment_def makeActionIterator_def)
  show "ac_decrement (decrement c) (qs ! Suc i) = Some (qs ! i)" if "Suc (Suc i) < length qs"
    using decrement_path [OF p, of i] that by (simp add: qs ac_decrement_def makeActionIterator_def)
next
  fix c qs ws i
  assume "mapped_reads reads f c qs ws"
  then obtain ps xs where r: "reads c ps xs" and qs: "qs = map (\<lambda>p. makeActionIterator p f) ps" and ws: "ws = map f xs"
    by (auto simp: mapped_reads_def)
  show "mapped_path path f c qs \<and> length qs = Suc (length ws)" using reads_path [OF r] by (auto simp: mapped_path_def qs ws)
  show "ac_deref (deref c) (qs ! i) = Some (ws ! i)" if "i < length ws"
    using reads_deref [OF r, of i] reads_path [OF r] that by (simp add: qs ws ac_deref_def makeActionIterator_def)
qed

definition list_reads :: "'a dll_heap \<times> linked_list \<Rightarrow> ptr list \<Rightarrow> 'a list \<Rightarrow> bool" where
  "list_reads c ps xs \<longleftrightarrow> (\<exists>es. ll_repr (fst c) (snd c) es \<and> ps = map (Some \<circ> fst) es @ [ll_cend] \<and> xs = map snd es)"

interpretation lrd: readable "\<lambda>c. it_next (fst c)" "\<lambda>c. it_previous (fst c)" list_path "\<lambda>c. it_deref (fst c)" list_reads
proof
  fix c :: "'a dll_heap \<times> linked_list" and ps xs i
  assume "list_reads c ps xs"
  then obtain es where r: "ll_repr (fst c) (snd c) es" and ps: "ps = map (Some \<circ> fst) es @ [ll_cend]" and xs: "xs = map snd es"
    by (auto simp: list_reads_def)
  show "list_path c ps \<and> length ps = Suc (length xs)" using r by (auto simp: list_path_def ps xs)
  show "it_deref (fst c) (ps ! i) = Some (xs ! i)" if "i < length xs"
    using ll_repr_deref [OF r, of "fst (es ! i)" "snd (es ! i)"] that by (simp add: ps xs nth_append)
qed

interpretation keys: mapped "\<lambda>c. it_next (fst c)" "\<lambda>c. it_previous (fst c)" list_path "\<lambda>c. it_deref (fst c)" list_reads GetKeyAction
  by unfold_locales

interpretation data: mapped "\<lambda>c. it_next (fst c)" "\<lambda>c. it_previous (fst c)" list_path "\<lambda>c. it_deref (fst c)" list_reads GetDataAction
  by unfold_locales

text \<open>The keys and the data of a table, in the order of its list.\<close>

lemma ht_keys_reads:
  assumes "ht_inv H h t es"
  shows "mapped_reads list_reads GetKeyAction (h, mKeysList t)
      (map (\<lambda>p. makeActionIterator p GetKeyAction) (map (Some \<circ> fst) es @ [ll_cend])) (map e_key es)"
    and "mapped_reads list_reads GetDataAction (h, mKeysList t)
      (map (\<lambda>p. makeActionIterator p GetDataAction) (map (Some \<circ> fst) es @ [ll_cend])) (map (\<lambda>e. pt_second (snd e)) es)"
proof -
  have l: "ll_repr h (mKeysList t) es" using assms by (simp add: ht_inv_def)
  have r: "list_reads (h, mKeysList t) (map (Some \<circ> fst) es @ [ll_cend]) (map snd es)"
    unfolding list_reads_def using l by (intro exI [of _ es]) simp
  show "mapped_reads list_reads GetKeyAction (h, mKeysList t)
      (map (\<lambda>p. makeActionIterator p GetKeyAction) (map (Some \<circ> fst) es @ [ll_cend])) (map e_key es)"
    unfolding mapped_reads_def
    by (intro exI conjI, rule r) (simp_all add: GetKeyAction_def [abs_def] o_def)
  show "mapped_reads list_reads GetDataAction (h, mKeysList t)
      (map (\<lambda>p. makeActionIterator p GetDataAction) (map (Some \<circ> fst) es @ [ll_cend])) (map (\<lambda>e. pt_second (snd e)) es)"
    unfolding mapped_reads_def
    by (intro exI conjI, rule r) (simp_all add: GetDataAction_def [abs_def] o_def)
qed

lemma ht_ends:
  assumes "ht_inv H h t es"
  shows "map (\<lambda>p. makeActionIterator p f) (map (Some \<circ> fst) es @ [ll_cend]) ! 0 = makeActionIterator (ht_begin t) f"
    and "map (\<lambda>p. makeActionIterator p f) (map (Some \<circ> fst) es @ [ll_cend]) ! length es = makeActionIterator (ht_end t) f"
proof -
  have "mBegin (mKeysList t) = (map (Some \<circ> fst) es @ [ll_cend]) ! 0"
    using assms ll_repr_begin [of h "mKeysList t" es] by (cases es) (auto simp: ht_inv_def ll_cend_def)
  then show "map (\<lambda>p. makeActionIterator p f) (map (Some \<circ> fst) es @ [ll_cend]) ! 0 = makeActionIterator (ht_begin t) f"
    by (simp add: ht_begin_def nth_append)
  show "map (\<lambda>p. makeActionIterator p f) (map (Some \<circ> fst) es @ [ll_cend]) ! length es = makeActionIterator (ht_end t) f"
    by (simp add: ht_end_def nth_append)
qed

lemma ht_keys_vector:
  assumes "ht_inv H h t es"
  shows "vec_constructRange mv sizeofT (ac_deref (it_deref h)) (ac_increment (it_next h)) (ht_keysBegin t) (ht_keysEnd t) m
      = vec_assign mv sizeofT (map e_key es) m vec_empty"
    and "vec_constructRange mv' sizeofT' (ac_deref (it_deref h)) (ac_increment (it_next h)) (ht_dataBegin t) (ht_dataEnd t) m'
      = vec_assign mv' sizeofT' (map (\<lambda>e. pt_second (snd e)) es) m' vec_empty"
  using keys.act.construct_range_run [OF ht_keys_reads(1) [OF assms], of mv sizeofT m]
    data.act.construct_range_run [OF ht_keys_reads(2) [OF assms], of mv' sizeofT' m']
  by (simp_all only: length_map ht_ends [OF assms] ht_keysBegin_def ht_keysEnd_def ht_dataBegin_def ht_dataEnd_def fst_conv)

section \<open>New vectors\<close>

text \<open>A vector of \<open>xs\<close> in a block of its own, and what is left when it is destroyed.\<close>

definition vec_new :: "'v memory \<Rightarrow> 'v list \<Rightarrow> 'v memory \<times> vector" where
  "vec_new m xs = (if xs = [] then (m, vec_empty)
     else (snd (new m (map Live xs)), \<lparr>mPointer = Some (brk m), mSize = of_nat (length xs)\<rparr>))"

lemma vec_new_repr:
  assumes "heap_ok m" "length xs < 2 ^ 64"
  shows "vec_repr (fst (vec_new m xs)) (snd (vec_new m xs)) xs"
  using assms heap_ok_new [of m "map Live xs"] unat_of_nat_small [of "length xs"]
  by (auto simp: vec_new_def vec_repr_def vec_empty_def new_def)

lemma vec_new_raw:
  assumes "heap_ok m" "alloc_fits sizeofT (length xs)" "xs \<noteq> []"
  shows "vec_resizeBuffer mv sizeofT (of_nat (length xs)) m vec_empty
    = Some (snd (new m (replicate (length xs) Raw)), \<lparr>mPointer = Some (brk m), mSize = of_nat (length xs)\<rparr>)"
proof -
  have "(of_nat (length xs) :: size_t) \<noteq> 0"
    using assms(3) unat_of_nat_small [of "length xs"] alloc_fits_less [OF assms(2)] by (metis length_0_conv unat_0)
  then show ?thesis using al_allocate_run [OF assms(2), of m]
    by (simp add: vec_resizeBuffer_def vec_empty_def new_def)
qed

lemma vec_assign_new:
  assumes "heap_ok m" "alloc_fits sizeofT (length xs)"
  shows "vec_assign mv sizeofT xs m vec_empty = Some (vec_new m xs)"
proof (cases "xs = []")
  case True
  then show ?thesis by (simp add: vec_assign_def vec_resizeBuffer_def vec_new_def vec_empty_def)
next
  case False
  have "vec_insertToUninitilized 0 xs (Some (brk m)) (snd (new m (replicate (length xs) Raw)))
      = Some (set_block (snd (new m (replicate (length xs) Raw))) (brk m) ([] @ map Live xs @ []))"
    by (rule vec_insert_run [where mid = "replicate (length xs) Raw"])
      (use alloc_fits_less [OF assms(2)] in \<open>simp_all add: new_def\<close>)
  then show ?thesis using False vec_new_raw [OF assms False, of mv]
    by (simp add: vec_assign_def vec_new_def new_def set_block_def)
qed

lemma vec_copy_new:
  assumes "vec_repr m v xs" "alloc_fits sizeofT (length xs)"
  shows "vec_copy_construct mv sizeofT m v = Some (vec_new m xs)"
proof (cases "xs = []")
  case True
  then have "mSize v = 0" using vec_repr_size [OF assms(1)] by simp
  then show ?thesis using True
    by (simp add: vec_copy_construct_def vec_copy_assign_def vec_resizeBuffer_def vec_new_def vec_empty_def)
next
  case False
  have ok: "heap_ok m" and sz: "mSize v = of_nat (length xs)" "unat (mSize v) = length xs"
    using assms(1) vec_repr_size [OF assms(1)] by (auto simp: vec_repr_def)
  obtain p rest where p: "mPointer v = Some p" "cells m p = Some (map Live xs @ rest)"
    using assms(1) False by (auto simp: vec_repr_def)
  have ne: "p \<noteq> brk m" using heap_ok_brk [OF ok] p(2) by auto
  have "vec_copyLoop 0 (length xs) (Some p) (Some (brk m)) (snd (new m (replicate (length xs) Raw)))
      = Some (set_block (snd (new m (replicate (length xs) Raw))) (brk m) (map Live xs))"
    using vec_copyLoop_run [of "snd (new m (replicate (length xs) Raw))" p "[]" xs rest "brk m" "replicate (length xs) Raw" "[]"] p ne
    by (simp add: new_def)
  then show ?thesis using False sz p(1) vec_new_raw [OF ok assms(2) False, of mv]
    by (simp add: vec_copy_construct_def vec_copy_assign_def vec_new_def new_def set_block_def)
qed

lemma vec_destroy_run:
  assumes "vec_repr m v xs"
  shows "\<exists>m'. vec_destroy m v = Some m' \<and> brk m' = brk m
    \<and> cells m' = (if xs = [] then cells m else (cells m)(the (mPointer v) := None))"
proof (cases "xs = []")
  case True
  then show ?thesis using vec_repr_size [OF assms] by (simp add: vec_destroy_def vec_deleteAll_def)
next
  case False
  then obtain p rest where "mPointer v = Some p" "cells m p = Some (map Live xs @ rest)" "unat (mSize v) = length xs"
    using assms by (auto simp: vec_repr_def)
  then show ?thesis using False vec_deleteAll_run [of m p xs rest "mSize v"] by (simp add: vec_destroy_def)
qed

end
