(* ===== verification/ProcessThreads.thy ===== *)
theory ProcessThreads
  imports KeyIterators PeersServer
begin

text \<open>
  The life of a \<open>ProcessPeersServer\<close> (Core/Common/ProcessPeersServer.hpp and .cpp) with its members: the
  vector of the local threads' identifiers that its hello and goodbye messages carry, the message
  factory that makes their streams, the constructor and the destructor. The identifiers' vectors live
  in a memory of their own, \<open>64 word memory\<close>.
\<close>

section \<open>The server\<close>

record ('t, 'i) process_server =
  mOtherServers :: "'i other_servers"
  threadsHeap :: "(64 word, 't) ht_heap"
  mProcessLocalThreads :: hash_table
  mMessageFactory :: ptr

text \<open>The elements of a vector, read through its iterators.\<close>

definition vec_elements :: "'v memory \<Rightarrow> vector \<Rightarrow> 'v list option" where
  "vec_elements m v = those (map (slot_read m (fst (vec_begin v))) [snd (vec_begin v)..<snd (vec_end v)])"

definition pp_getProcessThreadIDs ::
  "('t, 'i) process_server \<Rightarrow> 64 word memory \<Rightarrow> (64 word memory \<times> vector) option" where
  "pp_getProcessThreadIDs p m =
     vec_constructRange id 8 (ac_deref (it_deref (threadsHeap p))) (ac_increment (it_next (threadsHeap p)))
       (ht_keysBegin (mProcessLocalThreads p)) (ht_keysEnd (mProcessLocalThreads p)) m"

text \<open>The message constructor copies the vector although it takes it as an rvalue.\<close>

definition tms_construct :: "64 word memory \<Rightarrow> vector \<Rightarrow> (64 word memory \<times> vector) option" where
  "tms_construct m threadIDs = vec_copy_construct id 8 m threadIDs"

text \<open>
  \<open>mMessageFactory->createMessageStream (address, port)\<close>, then \<open>sendMessage\<close>: \<open>send\<close> is what both do with
  the factory object.
\<close>

definition pp_deliver ::
  "(nat \<Rightarrow> 'm \<Rightarrow> 'i \<Rightarrow> 'w \<Rightarrow> 'w option) \<Rightarrow> ptr \<Rightarrow> 'm \<Rightarrow> 'i \<Rightarrow> 'w \<Rightarrow> 'w option" where
  "pp_deliver send factory message info w = Option.bind factory (\<lambda>f. send f message info w)"

text \<open>
  \<open>sendHello\<close> and \<open>sendGoodbye\<close>: the message and then the vector it was made from are destroyed at the
  end of the statement.
\<close>

definition pp_sendThreads ::
  "(64 word list \<Rightarrow> 'i other_servers \<Rightarrow> 'w \<Rightarrow> 'w option) \<Rightarrow> ('t, 'i) process_server \<Rightarrow> 64 word memory \<Rightarrow> 'w
     \<Rightarrow> (64 word memory \<times> 'w) option" where
  "pp_sendThreads sendIDs p m w = do {
     (m1, threadIDs) \<leftarrow> pp_getProcessThreadIDs p m;
     (m2, messageIDs) \<leftarrow> tms_construct m1 threadIDs;
     ids \<leftarrow> vec_elements m2 messageIDs;
     w1 \<leftarrow> sendIDs ids (mOtherServers p) w;
     m3 \<leftarrow> vec_destroy m2 messageIDs;
     m4 \<leftarrow> vec_destroy m3 threadIDs;
     Some (m4, w1)
   }"

definition pp_sendHello ::
  "(nat \<Rightarrow> threads_message \<Rightarrow> 'i \<Rightarrow> 'w \<Rightarrow> 'w option) \<Rightarrow> ('t, 'i) process_server \<Rightarrow> 64 word memory \<Rightarrow> 'w
     \<Rightarrow> (64 word memory \<times> 'w) option" where
  "pp_sendHello send p = pp_sendThreads (sv_sendHello (pp_deliver send (mMessageFactory p))) p"

definition pp_sendGoodbye ::
  "(nat \<Rightarrow> threads_message \<Rightarrow> 'i \<Rightarrow> 'w \<Rightarrow> 'w option) \<Rightarrow> ('t, 'i) process_server \<Rightarrow> 64 word memory \<Rightarrow> 'w
     \<Rightarrow> (64 word memory \<times> 'w) option" where
  "pp_sendGoodbye send p = pp_sendThreads (sv_sendGoodbye (pp_deliver send (mMessageFactory p))) p"

text \<open>The constructor initialises \<open>mServer\<close> only; the other members have their default values.\<close>

definition pp_construct ::
  "(nat \<Rightarrow> threads_message \<Rightarrow> 'i \<Rightarrow> 'w \<Rightarrow> 'w option) \<Rightarrow> 64 word memory \<Rightarrow> 'w
     \<Rightarrow> (('t, 'i) process_server \<times> 64 word memory \<times> 'w) option" where
  "pp_construct send m w = do {
     let p = \<lparr>mOtherServers = sv_new, threadsHeap = empty_heap, mProcessLocalThreads = ht_construct_default,
              mMessageFactory = nullptr\<rparr>;
     (m1, w1) \<leftarrow> pp_sendHello send p m w;
     Some (p, m1, w1)
   }"

text \<open>The destructor's body; the destructors of the members follow it.\<close>

definition pp_destroy ::
  "(nat \<Rightarrow> threads_message \<Rightarrow> 'i \<Rightarrow> 'w \<Rightarrow> 'w option) \<Rightarrow> ('t, 'i) process_server \<Rightarrow> 64 word memory \<Rightarrow> 'w
     \<Rightarrow> (64 word memory \<times> 'w) option" where
  "pp_destroy send p m w = pp_sendGoodbye send p m w"

text \<open>The handlers that change the other servers, as members of the server.\<close>

definition pp_onHelloReceived :: "'i \<Rightarrow> 64 word list \<Rightarrow> ('t, 'i) process_server \<Rightarrow> ('t, 'i) process_server option" where
  "pp_onHelloReceived streamInfo newThreads p =
     map_option (\<lambda>s. p\<lparr>mOtherServers := s\<rparr>) (sv_onHelloReceived streamInfo newThreads (mOtherServers p))"

definition pp_onGoodbyeReceived :: "64 word list \<Rightarrow> ('t, 'i) process_server \<Rightarrow> ('t, 'i) process_server option" where
  "pp_onGoodbyeReceived leavingThreads p =
     map_option (\<lambda>s. p\<lparr>mOtherServers := s\<rparr>) (sv_onGoodbyeReceived leavingThreads (mOtherServers p))"

section \<open>The threads of a message\<close>

lemma those_map_Some: "those (map (\<lambda>x. Some (f x)) xs) = Some (map f xs)"
  by (induction xs) auto

lemma vec_elements_run:
  assumes "vec_repr m v xs"
  shows "vec_elements m v = Some xs"
proof -
  have n: "unat (mSize v) = length xs" using assms by (simp add: vec_repr_def)
  have "slot_read m (mPointer v) i = Some (xs ! i)" if "i < length xs" for i
    using assms that by (auto simp: vec_repr_def nth_append)
  then have "map (slot_read m (mPointer v)) [0..<length xs] = map (\<lambda>i. Some (xs ! i)) [0..<length xs]" by simp
  then show ?thesis using n
    by (simp only: vec_elements_def vec_begin_def vec_end_def vec_data_def fst_conv snd_conv those_map_Some map_nth)
qed

lemma sv_send_run:
  assumes "sv_repr s cs mm"
  shows "sv_sendHello deliver ids s w
      = deliver_all (deliver \<lparr>mMessageType = type_code ProcessPeerHello, mThreadIDs = ids\<rparr>) (map (\<lambda>e. conn_info (snd e)) cs) w"
    and "sv_sendGoodbye deliver ids s w
      = deliver_all (deliver \<lparr>mMessageType = type_code ProcessPeerGoodbye, mThreadIDs = ids\<rparr>) (map (\<lambda>e. conn_info (snd e)) cs) w"
proof -
  have l: "ll_repr (connHeap s) (mConnectionsList s) cs" using assms by (simp add: sv_repr_def)
  note run = sv_sendToAll_loop_run [of "connHeap s" "mConnectionsList s" "[]" cs]
  show "sv_sendHello deliver ids s w
      = deliver_all (deliver \<lparr>mMessageType = type_code ProcessPeerHello, mThreadIDs = ids\<rparr>) (map (\<lambda>e. conn_info (snd e)) cs) w"
    "sv_sendGoodbye deliver ids s w
      = deliver_all (deliver \<lparr>mMessageType = type_code ProcessPeerGoodbye, mThreadIDs = ids\<rparr>) (map (\<lambda>e. conn_info (snd e)) cs) w"
    using run l by (simp_all add: sv_sendHello_def sv_sendGoodbye_def sv_sendToAll_def ll_repr_begin [OF l])
qed

text \<open>Both vectors are gone after the statement.\<close>

lemma pp_sendThreads_run:
  assumes t: "ht_inv id_hash (threadsHeap p) (mProcessLocalThreads p) es"
    and ok: "heap_ok m" and fits: "alloc_fits 8 (length es)"
  shows "\<exists>m'. cells m' = cells m \<and> brk m \<le> brk m'
    \<and> (\<forall>sendIDs w. pp_sendThreads sendIDs p m w = map_option (Pair m') (sendIDs (map e_key es) (mOtherServers p) w))"
proof -
  let ?ids = "map e_key es"
  obtain m1 v where v: "vec_new m ?ids = (m1, v)" by fastforce
  have fits': "alloc_fits 8 (length ?ids)" using fits by simp
  have g: "pp_getProcessThreadIDs p m = Some (m1, v)"
    using ht_keys_vector(1) [OF t, of id 8 m] vec_assign_new [OF ok fits', of id] v
    by (simp add: pp_getProcessThreadIDs_def)
  have r1: "vec_repr m1 v ?ids" using vec_new_repr [OF ok, of ?ids] alloc_fits_less [OF fits] v by simp
  then have ok1: "heap_ok m1" by (simp add: vec_repr_def)
  obtain m2 v2 where v2: "vec_new m1 ?ids = (m2, v2)" by fastforce
  have c: "tms_construct m1 v = Some (m2, v2)"
    using vec_copy_new [OF r1 fits', of id] v2 by (simp add: tms_construct_def)
  have r2: "vec_repr m2 v2 ?ids" using vec_new_repr [OF ok1, of ?ids] alloc_fits_less [OF fits] v2 by simp
  obtain m3 where m3: "vec_destroy m2 v2 = Some m3" "brk m3 = brk m2"
    "cells m3 = (if ?ids = [] then cells m2 else (cells m2)(the (mPointer v2) := None))"
    using vec_destroy_run [OF r2] by blast
  have c3: "cells m3 = cells m1"
    using v2 m3(3) heap_ok_brk [OF ok1] by (auto simp: vec_new_def new_def fun_upd_idem split: if_splits)
  have "vec_repr m3 v ?ids" using r1 c3 m3(2) v2
    by (auto simp: vec_repr_def heap_ok_def vec_new_def new_def less_Suc_eq split: if_splits)
  then obtain m4 where m4: "vec_destroy m3 v = Some m4" "brk m4 = brk m3"
    "cells m4 = (if ?ids = [] then cells m3 else (cells m3)(the (mPointer v) := None))"
    using vec_destroy_run by blast
  have "cells m4 = cells m"
    using v m4(3) c3 heap_ok_brk [OF ok] by (auto simp: vec_new_def new_def fun_upd_idem split: if_splits)
  moreover have "brk m \<le> brk m4" using m3(2) m4(2) v v2 by (auto simp: vec_new_def new_def split: if_splits)
  moreover have "pp_sendThreads sendIDs p m w = map_option (Pair m4) (sendIDs ?ids (mOtherServers p) w)" for sendIDs w
    by (cases "sendIDs ?ids (mOtherServers p) w")
      (simp_all add: pp_sendThreads_def g c vec_elements_run [OF r2] m3(1) m4(1))
  ultimately show ?thesis by blast
qed

lemma deliver_null: "deliver_all (pp_deliver send nullptr msg) is w = (if is = [] then Some w else None)"
  by (cases "is") (simp_all add: pp_deliver_def)

lemma default_threads: "heap_ok h \<Longrightarrow> ht_inv id_hash h ht_construct_default []"
  unfolding ht_construct_default_def by (rule ht_construct_inv) (simp_all add: kVectorInitialSize_def)

lemma pp_construct_run:
  fixes send :: "nat \<Rightarrow> threads_message \<Rightarrow> 'i \<Rightarrow> 'w \<Rightarrow> 'w option"
  assumes "heap_ok m"
  shows "\<exists>m'. cells m' = cells m \<and> brk m \<le> brk m' \<and> pp_construct send m w
    = Some (\<lparr>mOtherServers = sv_new, threadsHeap = empty_heap, mProcessLocalThreads = ht_construct_default,
              mMessageFactory = nullptr\<rparr> :: ('t, 'i) process_server, m', w)"
proof -
  let ?p = "\<lparr>mOtherServers = sv_new, threadsHeap = empty_heap, mProcessLocalThreads = ht_construct_default,
              mMessageFactory = nullptr\<rparr> :: ('t, 'i) process_server"
  have "alloc_fits 8 (length [])" by (simp add: alloc_fits_def)
  from pp_sendThreads_run [of ?p "[]", OF _ assms this] obtain m' where "cells m' = cells m" "brk m \<le> brk m'"
    "\<And>sendIDs (w :: 'w). pp_sendThreads sendIDs ?p m w = map_option (Pair m') (sendIDs [] sv_new w)"
    using default_threads [OF heap_ok_empty] by auto
  moreover have "sv_sendHello (pp_deliver send nullptr) [] sv_new w = Some w"
    using sv_send_run(1) [OF sv_repr_new, of "pp_deliver send nullptr" "[]" w] by simp
  ultimately show ?thesis by (intro exI [of _ m']) (simp add: pp_construct_def pp_sendHello_def Let_def)
qed

section \<open>Properties\<close>

text \<open>
  C6: hello and goodbye carry each local thread of the process once: with a message factory, each
  connection gets, in the order of the list, one message whose identifiers are the keys of the table of
  local threads, each of them once, and both vectors that carried them are released.
\<close>

theorem process_threads_sent:
  fixes send :: "nat \<Rightarrow> threads_message \<Rightarrow> 'i \<Rightarrow> 'w \<Rightarrow> 'w option"
  assumes "ht_inv id_hash (threadsHeap p) (mProcessLocalThreads p) es" and "sv_repr (mOtherServers p) cs mm"
    and "mMessageFactory p = Some f" and "heap_ok m" and "alloc_fits 8 (length es)"
  shows "\<exists>ids m'. distinct ids \<and> set ids = dom (entry_map es) \<and> cells m' = cells m
    \<and> pp_sendHello send p m w = map_option (Pair m')
        (deliver_all (send f \<lparr>mMessageType = type_code ProcessPeerHello, mThreadIDs = ids\<rparr>) (map (\<lambda>e. conn_info (snd e)) cs) w)
    \<and> pp_sendGoodbye send p m w = map_option (Pair m')
        (deliver_all (send f \<lparr>mMessageType = type_code ProcessPeerGoodbye, mThreadIDs = ids\<rparr>) (map (\<lambda>e. conn_info (snd e)) cs) w)"
proof -
  have d: "pp_deliver send (mMessageFactory p) = send f" by (simp add: fun_eq_iff pp_deliver_def assms(3))
  have keys: "distinct (map e_key es)" "set (map e_key es) = dom (entry_map es)"
    using assms(1) by (auto simp: ht_inv_def entry_map_def dom_map_of_conv_image_fst image_image)
  from pp_sendThreads_run [OF assms(1,4,5)] obtain m' where "cells m' = cells m"
    "\<And>sendIDs (w :: 'w). pp_sendThreads sendIDs p m w = map_option (Pair m') (sendIDs (map e_key es) (mOtherServers p) w)" by blast
  then show ?thesis using keys
    by (intro exI [of _ "map e_key es"] exI [of _ m']) (simp add: pp_sendHello_def pp_sendGoodbye_def d sv_send_run [OF assms(2)])
qed

text \<open>
  C39: a server never says goodbye to its peers. The constructor sends its hello before there is any
  connection, without a thread, and leaves the message factory null; nothing sets it later. So the
  destructor is right for a server without connections, and dereferences null as soon as one peer's hello
  has been handled, whatever the server's local threads are.
\<close>

theorem process_goodbye_never_sent:
  fixes send :: "nat \<Rightarrow> threads_message \<Rightarrow> 'i \<Rightarrow> 'w \<Rightarrow> 'w option"
  assumes "heap_ok m"
  shows "\<exists>(p :: ('t, 'i) process_server) m'. pp_construct send m w = Some (p, m', w) \<and> cells m' = cells m
    \<and> (\<exists>m''. pp_destroy send p m' w = Some (m'', w) \<and> cells m'' = cells m)
    \<and> (\<forall>addr ids. \<exists>p'. pp_onHelloReceived addr ids p = Some p' \<and> mMessageFactory p' = nullptr
         \<and> pp_destroy send p' m' w = None)
    \<and> (\<forall>h t es. ht_inv id_hash h t es \<and> alloc_fits 8 (length es) \<longrightarrow>
         (\<forall>addr ids. \<exists>p'. pp_onHelloReceived addr ids (p\<lparr>threadsHeap := h, mProcessLocalThreads := t\<rparr>) = Some p'
            \<and> pp_destroy send p' m' w = None))"
proof -
  let ?p = "\<lparr>mOtherServers = sv_new, threadsHeap = empty_heap, mProcessLocalThreads = ht_construct_default,
              mMessageFactory = nullptr\<rparr> :: ('t, 'i) process_server"
  obtain m' where c: "cells m' = cells m" "brk m \<le> brk m'" "pp_construct send m w = Some (?p, m', w)"
    using pp_construct_run [OF assms, of send w, where ?'t = 't] by (elim exE conjE) (rule that)
  have ok: "heap_ok m'" using assms c(1,2) by (auto simp: heap_ok_def dest: less_le_trans)
  have threads: "ht_inv id_hash empty_heap ht_construct_default []" by (rule default_threads) simp
  have fits: "alloc_fits 8 (length [])" by (simp add: alloc_fits_def)
  have destroy: "pp_destroy send p m' w = None"
    if "ht_inv id_hash (threadsHeap p) (mProcessLocalThreads p) es" "alloc_fits 8 (length es)" "sv_repr (mOtherServers p) (cs @ [x]) mm"
      "mMessageFactory p = nullptr" for p :: "('t, 'i) process_server" and es cs x mm
  proof -
    from pp_sendThreads_run [OF that(1) ok that(2)] obtain m'' where
      "\<And>sendIDs (w :: 'w). pp_sendThreads sendIDs p m' w = map_option (Pair m'') (sendIDs (map e_key es) (mOtherServers p) w)"
      by blast
    then show ?thesis by (simp add: pp_destroy_def pp_sendGoodbye_def deliver_null that(4) sv_send_run(2) [OF that(3)])
  qed
  have hello: "\<exists>p'. pp_onHelloReceived addr ids (?p\<lparr>threadsHeap := h, mProcessLocalThreads := t\<rparr>) = Some p'
      \<and> mMessageFactory p' = nullptr \<and> pp_destroy send p' m' w = None"
    if t: "ht_inv id_hash h t es" "alloc_fits 8 (length es)"
    for h :: "(64 word, 't) ht_heap" and t es addr and ids :: "64 word list"
  proof -
    obtain s' cs x mm where s': "sv_addThreads ids addr (sv_new :: 'i other_servers) = Some s'" "sv_repr s' (cs @ [x]) mm"
      using sv_addThreads_run [OF sv_repr_new, of ids addr] by blast
    let ?p' = "?p\<lparr>threadsHeap := h, mProcessLocalThreads := t, mOtherServers := s'\<rparr>"
    have "pp_destroy send ?p' m' w = None" by (rule destroy [of ?p' es cs x mm]) (use t s' in simp_all)
    then show ?thesis using s'(1) by (simp add: pp_onHelloReceived_def sv_onHelloReceived_def)
  qed
  from pp_sendThreads_run [of ?p "[]", OF _ ok fits] obtain m'' where d: "cells m'' = cells m'"
    "\<And>sendIDs (w :: 'w). pp_sendThreads sendIDs ?p m' w = map_option (Pair m'') (sendIDs [] sv_new w)"
    using threads by auto
  have "pp_destroy send ?p m' w = Some (m'', w)"
    using d(2) sv_send_run(2) [OF sv_repr_new, of "pp_deliver send nullptr" "[]" w]
    by (simp add: pp_destroy_def pp_sendGoodbye_def)
  then have A: "\<exists>m''. pp_destroy send ?p m' w = Some (m'', w) \<and> cells m'' = cells m" using c(1) d(1) by auto
  have "?p\<lparr>threadsHeap := empty_heap, mProcessLocalThreads := ht_construct_default\<rparr> = ?p" by simp
  then have B: "\<forall>addr ids. \<exists>p'. pp_onHelloReceived addr ids ?p = Some p' \<and> mMessageFactory p' = nullptr
      \<and> pp_destroy send p' m' w = None"
    using hello [OF threads fits] by metis
  have C: "\<forall>h t es. ht_inv id_hash h t es \<and> alloc_fits 8 (length es) \<longrightarrow>
      (\<forall>addr ids. \<exists>p'. pp_onHelloReceived addr ids (?p\<lparr>threadsHeap := h, mProcessLocalThreads := t\<rparr>) = Some p'
        \<and> pp_destroy send p' m' w = None)"
    using hello by blast
  show ?thesis by (rule exI [of _ ?p], rule exI [of _ m']) (intro conjI c A B C)
qed

text \<open>Two local threads, and a factory at address 0 whose streams log the messages.\<close>

definition two_threads_heap :: "(64 word, nat) ht_heap" where
  "two_threads_heap = \<lparr>cells =
     [0 \<mapsto> \<lparr>nd_data = \<lparr>pt_first = 5, pt_second = 50, tableIterator = 1\<rparr>, nd_previous = None, nd_next = Some 1\<rparr>,
      1 \<mapsto> \<lparr>nd_data = \<lparr>pt_first = 6, pt_second = 60, tableIterator = 2\<rparr>, nd_previous = Some 0, nd_next = None\<rparr>], brk = 2\<rparr>"

definition two_threads :: hash_table where
  "two_threads = \<lparr>mTable = [None, Some 0, Some 1, None], mKeysList = \<lparr>mBegin = Some 0, mBeforeEnd = Some 1, mSize = 2\<rparr>\<rparr>"

lemma two_threads_inv:
  "ht_inv id_hash two_threads_heap two_threads
     [(0, \<lparr>pt_first = 5, pt_second = 50, tableIterator = 1\<rparr>), (1, \<lparr>pt_first = 6, pt_second = 60, tableIterator = 2\<rparr>)]"
    (is "ht_inv _ _ _ ?es")
proof -
  have "ll_repr two_threads_heap (mKeysList two_threads) ?es"
    by (auto simp: ll_repr_def two_threads_heap_def two_threads_def heap_ok_def split: if_splits)
  moreover have "\<forall>i < length (mTable two_threads). mTable two_threads ! i = first_ptr (filter (\<lambda>e. e_slot e = i) ?es) None"
    by (auto simp: two_threads_def less_Suc_eq numeral_eq_Suc)
  ultimately show ?thesis
    by (simp add: ht_inv_def two_threads_def slot_of_def trivial_hash_unsigned_def)
qed

definition log_send :: "nat \<Rightarrow> 'm \<Rightarrow> 'i \<Rightarrow> ('i \<times> 'm) list \<Rightarrow> ('i \<times> 'm) list option" where
  "log_send f message info w = Some (w @ [(info, message)])"

lemma process_threads_sent_witness:
  "\<exists>s ids m'. sv_onHelloReceived (7 :: nat) [1] sv_new = Some s \<and> distinct ids \<and> set ids = {5, 6}
     \<and> pp_sendHello log_send \<lparr>mOtherServers = s, threadsHeap = two_threads_heap, mProcessLocalThreads = two_threads,
          mMessageFactory = Some 0\<rparr> empty_heap []
         = Some (m', [(7, \<lparr>mMessageType = type_code ProcessPeerHello, mThreadIDs = ids\<rparr>)])"
proof -
  obtain s mm where s: "sv_addThreads [1] (7 :: nat) sv_new = Some s"
    "sv_repr s ([] @ [(brk (connHeap (sv_new :: nat other_servers)), \<lparr>conn_info = 7, referenceCount = of_nat (length [1 :: 64 word])\<rparr>)]) mm"
    using sv_addThreads_run [OF sv_repr_new, of "[1]" 7] by blast
  let ?p = "\<lparr>mOtherServers = s, threadsHeap = two_threads_heap, mProcessLocalThreads = two_threads, mMessageFactory = Some 0\<rparr>"
  have t: "ht_inv id_hash (threadsHeap ?p) (mProcessLocalThreads ?p)
      [(0, \<lparr>pt_first = 5, pt_second = 50, tableIterator = 1\<rparr>), (1, \<lparr>pt_first = 6, pt_second = 60, tableIterator = 2\<rparr>)]"
    using two_threads_inv by simp
  have f: "alloc_fits 8 (length [(0 :: nat, \<lparr>pt_first = 5 :: 64 word, pt_second = 50 :: nat, tableIterator = 1\<rparr>),
      (1, \<lparr>pt_first = 6, pt_second = 60, tableIterator = 2\<rparr>)])" by (simp add: alloc_fits_def)
  have r: "sv_repr (mOtherServers ?p) ([] @ [(brk (connHeap (sv_new :: nat other_servers)),
      \<lparr>conn_info = 7, referenceCount = of_nat (length [1 :: 64 word])\<rparr>)]) mm" using s(2) by simp
  from process_threads_sent [OF t r _ heap_ok_empty f, of 0 log_send "[]"] show ?thesis
    using s(1) by (auto simp: sv_onHelloReceived_def log_send_def entry_map_def)
qed

lemma process_goodbye_never_sent_witness:
  "\<exists>(p :: (nat, nat) process_server) m'. pp_construct log_send empty_heap [] = Some (p, m', [])
     \<and> (\<exists>p'. pp_onHelloReceived 7 [1] p = Some p' \<and> pp_destroy log_send p' m' [] = None)"
  using process_goodbye_never_sent [OF heap_ok_empty, of log_send "[] :: (nat \<times> threads_message) list", where ?'t = nat] by blast

end
