(* ===== verification/Callbacks.thy ===== *)
theory Callbacks
  imports ScopedContainers
begin

text \<open>
  Base/Callback.hpp: a callback is a unique pointer to an object manager, which holds a function, or a member
  function with a raw, a unique or a shared pointer to its object; and the calls of
  Base/FunctionTools.hpp. The manager interface declares a pure virtual destructor and does not define
  it, so a program with a manager does not link; the destructor is read as one that does nothing.
\<close>

section \<open>Object managers\<close>

text \<open>
  A function gets its arguments and the heap of the objects; a member function the address of its
  object, too. Both are template parameters of their manager.
\<close>

type_synonym ('a, 'r, 'o) static_function = "'a \<Rightarrow> 'o sp_heap \<Rightarrow> ('r \<times> 'o sp_heap) option"
type_synonym ('a, 'r, 'o) member_function = "nat \<Rightarrow> 'a \<Rightarrow> 'o sp_heap \<Rightarrow> ('r \<times> 'o sp_heap) option"

datatype ('a, 'r, 'o) object_manager =
    RegularFunctionObjectManager "('a, 'r, 'o) static_function"
  | RegularObjectManager "('a, 'r, 'o) member_function" ptr
  | UniqueObjectManager "('a, 'r, 'o) member_function" ptr
  | SharedObjectManager "('a, 'r, 'o) member_function" shared_pointer

fun om_isValid :: "('a, 'r, 'o) object_manager \<Rightarrow> bool" where
  "om_isValid (RegularFunctionObjectManager f) \<longleftrightarrow> True"
| "om_isValid (RegularObjectManager f mClassPointer) \<longleftrightarrow> mClassPointer \<noteq> nullptr"
| "om_isValid (UniqueObjectManager f mClassPointer) \<longleftrightarrow> up_bool mClassPointer"
| "om_isValid (SharedObjectManager f mClassPointer) \<longleftrightarrow> sp_bool mClassPointer"

definition call_member :: "('a, 'r, 'o) member_function \<Rightarrow> ptr \<Rightarrow> 'a \<Rightarrow> 'o sp_heap \<Rightarrow> ('r \<times> 'o sp_heap) option" where
  "call_member f p args h = do {
     a \<leftarrow> p;
     _ \<leftarrow> load (objects h) p;
     f a args h
   }"

fun om_invoke :: "('a, 'r, 'o) object_manager \<Rightarrow> 'a \<Rightarrow> 'o sp_heap \<Rightarrow> ('r \<times> 'o sp_heap) option" where
  "om_invoke (RegularFunctionObjectManager f) args h = f args h"
| "om_invoke (RegularObjectManager f mClassPointer) args h = call_member f mClassPointer args h"
| "om_invoke (UniqueObjectManager f mClassPointer) args h = call_member f mClassPointer args h"
| "om_invoke (SharedObjectManager f mClassPointer) args h = call_member f (sp_mPointer mClassPointer) args h"

text \<open>The destructors of the managers' members.\<close>

fun om_destroy :: "('a, 'r, 'o) object_manager \<Rightarrow> 'o sp_heap \<Rightarrow> 'o sp_heap option" where
  "om_destroy (RegularFunctionObjectManager f) h = Some h"
| "om_destroy (RegularObjectManager f mClassPointer) h = Some h"
| "om_destroy (UniqueObjectManager f mClassPointer) h =
     map_option (\<lambda>(os, _). h\<lparr>objects := os\<rparr>) (up_destroy (objects h) mClassPointer)"
| "om_destroy (SharedObjectManager f mClassPointer) h = sp_destroy h mClassPointer"

section \<open>Callback\<close>

text \<open>The state of a callback is its \<open>mObjectManager\<close>.\<close>

record ('a, 'r, 'o) callback_world =
  cw_managers :: "('a, 'r, 'o) object_manager heap"
  cw_heap :: "'o sp_heap"

definition cb_default :: ptr where
  "cb_default = up_null"

definition cb_new :: "('a, 'r, 'o) object_manager \<Rightarrow> ('a, 'r, 'o) callback_world \<Rightarrow> ptr \<times> ('a, 'r, 'o) callback_world" where
  "cb_new m w = (let (a, ms) = new (cw_managers w) m in (Some a, w\<lparr>cw_managers := ms\<rparr>))"

definition cb_of_function ::
  "('a, 'r, 'o) static_function \<Rightarrow> ('a, 'r, 'o) callback_world \<Rightarrow> ptr \<times> ('a, 'r, 'o) callback_world" where
  "cb_of_function f w = cb_new (RegularFunctionObjectManager f) w"

definition cb_of_pointer ::
  "('a, 'r, 'o) member_function \<Rightarrow> ptr \<Rightarrow> ('a, 'r, 'o) callback_world \<Rightarrow> ptr \<times> ('a, 'r, 'o) callback_world" where
  "cb_of_pointer f p w = cb_new (RegularObjectManager f p) w"

text \<open>The callback, what is left of the pointer it was made from, and the world.\<close>

definition cb_of_unique ::
  "('a, 'r, 'o) member_function \<Rightarrow> ptr \<Rightarrow> ('a, 'r, 'o) callback_world \<Rightarrow> ptr \<times> ptr \<times> ('a, 'r, 'o) callback_world" where
  "cb_of_unique f u w =
     (let (mClassPointer, u1) = up_move_construct u;
          (cb, w1) = cb_new (UniqueObjectManager f mClassPointer) w
      in (cb, u1, w1))"

definition cb_of_shared ::
  "('a, 'r, 'o) member_function \<Rightarrow> shared_pointer \<Rightarrow> ('a, 'r, 'o) callback_world
     \<Rightarrow> (ptr \<times> ('a, 'r, 'o) callback_world) option" where
  "cb_of_shared f s w = do {
     (h, mClassPointer) \<leftarrow> sp_copy_construct (cw_heap w) s;
     Some (cb_new (SharedObjectManager f mClassPointer) (w\<lparr>cw_heap := h\<rparr>))
   }"

definition cb_of_manager :: "ptr \<Rightarrow> ptr \<times> ptr" where
  "cb_of_manager objectManager = up_move_construct objectManager"

text \<open>
  \<open>operator()\<close>: the assertion asks the manager and goes on; \<open>operator bool\<close>; and the moves and the
  destructor, which delete a manager with its members.
\<close>

definition cb_call :: "ptr \<Rightarrow> 'a \<Rightarrow> ('a, 'r, 'o) callback_world \<Rightarrow> ('r \<times> ('a, 'r, 'o) callback_world) option" where
  "cb_call cb args w = do {
     m \<leftarrow> up_deref (cw_managers w) cb;
     (r, h) \<leftarrow> om_invoke m args (cw_heap w);
     Some (r, w\<lparr>cw_heap := h\<rparr>)
   }"

definition cb_bool :: "ptr \<Rightarrow> ('a, 'r, 'o) callback_world \<Rightarrow> bool option" where
  "cb_bool cb w = (if up_bool cb then map_option om_isValid (up_deref (cw_managers w) cb) else Some False)"

definition cb_reset :: "ptr \<Rightarrow> ('a, 'r, 'o) callback_world \<Rightarrow> ptr \<Rightarrow> (('a, 'r, 'o) callback_world \<times> ptr) option" where
  "cb_reset pointer w cb = do {
     h \<leftarrow> (if cb \<noteq> nullptr then Option.bind (load (cw_managers w) cb) (\<lambda>m. om_destroy m (cw_heap w)) else Some (cw_heap w));
     (ms, cb1) \<leftarrow> up_reset pointer (cw_managers w) cb;
     Some (w\<lparr>cw_managers := ms, cw_heap := h\<rparr>, cb1)
   }"

definition cb_destroy :: "ptr \<Rightarrow> ('a, 'r, 'o) callback_world \<Rightarrow> ('a, 'r, 'o) callback_world option" where
  "cb_destroy cb w = map_option fst (cb_reset nullptr w cb)"

definition cb_move_construct :: "ptr \<Rightarrow> ptr \<times> ptr" where
  "cb_move_construct other = up_move_construct other"

definition cb_move_assign ::
  "ptr \<Rightarrow> ptr \<Rightarrow> ('a, 'r, 'o) callback_world \<Rightarrow> (ptr \<times> ptr \<times> ('a, 'r, 'o) callback_world) option" where
  "cb_move_assign cb other w = map_option (\<lambda>(w1, cb1). (cb1, nullptr, w1)) (cb_reset other w cb)"

section \<open>FunctionTools\<close>

text \<open>
  A function of a parameter may change it and the state \<open>'w\<close>; a callback gets the result.
  \<open>runAndCallbackSingleParameter\<close> deletes the parameter object it was given.
\<close>

record ('c, 'p) runAndCallParam =
  rc_callback :: 'c
  rc_functionParameter :: 'p

definition runAndCallback :: "('a \<Rightarrow> 'w \<Rightarrow> ('v \<times> 'w) option) \<Rightarrow> ('v \<Rightarrow> 'w \<Rightarrow> 'w option) \<Rightarrow> 'a \<Rightarrow> 'w \<Rightarrow> 'w option" where
  "runAndCallback sFunc callback args w = do {
     (v, w1) \<leftarrow> sFunc args w;
     callback v w1
   }"

definition runAndCallbackSingleParameter ::
  "('p \<Rightarrow> 'w \<Rightarrow> ('v \<times> 'p \<times> 'w) option) \<Rightarrow> ('c \<Rightarrow> 'v \<Rightarrow> 'w \<Rightarrow> 'w option) \<Rightarrow> ptr
     \<Rightarrow> ('c, 'p) runAndCallParam heap \<Rightarrow> 'w \<Rightarrow> (('c, 'p) runAndCallParam heap \<times> 'w) option" where
  "runAndCallbackSingleParameter sFunc call parameter h w = do {
     n \<leftarrow> load h parameter;
     (v, p, w1) \<leftarrow> sFunc (rc_functionParameter n) w;
     h1 \<leftarrow> modify h parameter (\<lambda>n. n\<lparr>rc_functionParameter := p\<rparr>);
     w2 \<leftarrow> call (rc_callback n) v w1;
     h2 \<leftarrow> free h1 parameter;
     Some (h2, w2)
   }"

lemma runAndCallbackSingleParameter_once:
  assumes "cells h a = Some n" and "sFunc (rc_functionParameter n) w = Some (v, p, w1)"
    and "call (rc_callback n) v w1 = Some w2"
  shows "\<exists>h'. runAndCallbackSingleParameter sFunc call (Some a) h w = Some (h', w2) \<and> cells h' = (cells h)(a := None)"
  using assms by (simp add: runAndCallbackSingleParameter_def modify_Some free_Some)

section \<open>Callbacks as owners\<close>

text \<open>
  The callbacks a program makes: of functions, and of new objects that they own. \<open>requests\<close> are those to
  be made, in this order; after them it makes empty ones.
\<close>

datatype ('a, 'r, 'o) request = OfFunction "('a, 'r, 'o) static_function" | OfUnique "('a, 'r, 'o) member_function" 'o

type_synonym ('a, 'r, 'o) requested = "('a, 'r, 'o) request list \<times> ('a, 'r, 'o) callback_world"

fun cb_make :: "('a, 'r, 'o) requested \<Rightarrow> ptr \<times> ('a, 'r, 'o) requested" where
  "cb_make ([], w) = (cb_default, [], w)"
| "cb_make (OfFunction f # rs, w) = (let (cb, w1) = cb_of_function f w in (cb, rs, w1))"
| "cb_make (OfUnique f v # rs, w) =
     (let (os, u) = makeUnique v (objects (cw_heap w));
          (cb, _, w1) = cb_of_unique f u (w\<lparr>cw_heap := (cw_heap w)\<lparr>objects := os\<rparr>\<rparr>)
      in (cb, rs, w1))"

definition callback_ops :: "(ptr, ('a, 'r, 'o) requested) owner_ops" where
  "callback_ops =
     \<lparr>ow_make = cb_make, ow_move = cb_move_construct,
      ow_assign = (\<lambda>cb other (rs, w). map_option (\<lambda>(cb1, other1, w1). (cb1, other1, rs, w1)) (cb_move_assign cb other w)),
      ow_destroy = (\<lambda>cb (rs, w). map_option (Pair rs) (cb_destroy cb w))\<rparr>"

text \<open>The object of a manager; each object has one manager, and there are no managers of another kind.\<close>

fun om_object :: "('a, 'r, 'o) object_manager \<Rightarrow> ptr" where
  "om_object (UniqueObjectManager f p) = p"
| "om_object m = None"

fun om_owns :: "('a, 'r, 'o) object_manager \<Rightarrow> bool" where
  "om_owns (RegularFunctionObjectManager f) \<longleftrightarrow> True"
| "om_owns (UniqueObjectManager f p) \<longleftrightarrow> p \<noteq> nullptr"
| "om_owns m \<longleftrightarrow> False"

definition holds :: "('a, 'r, 'o) callback_world \<Rightarrow> nat \<Rightarrow> nat option" where
  "holds w = resources om_object (cells (cw_managers w))"

definition callbacks_ok :: "('a, 'r, 'o) callback_world \<Rightarrow> bool" where
  "callbacks_ok w \<longleftrightarrow> heap_ok (cw_managers w) \<and> heap_ok (objects (cw_heap w))
     \<and> (\<forall>m \<in> ran (cells (cw_managers w)). om_owns m)
     \<and> one_owner (holds w) \<and> live_objects (objects (cw_heap w)) = ran (holds w)"

lemma cb_reset_run:
  assumes ok: "callbacks_ok w" and cb: "set_option cb \<subseteq> live_objects (cw_managers w)"
  shows "\<exists>w'. cb_reset p w cb = Some (w', p) \<and> callbacks_ok w'
    \<and> live_objects (cw_managers w') = live_objects (cw_managers w) - set_option cb"
proof (cases cb)
  case None
  then show ?thesis using ok by (simp add: cb_reset_def up_reset_def)
next
  case (Some a)
  then obtain m where m: "cells (cw_managers w) a = Some m" using cb by (auto simp: live_objects_def)
  then have owns: "om_owns m" using ok by (auto simp: callbacks_ok_def ran_def)
  let ?ms = "(cw_managers w)\<lparr>cells := (cells (cw_managers w))(a := None)\<rparr>"
  have hold: "holds w a = om_object m" by (simp add: holds_def resources_def m)
  have dest: "\<exists>h. om_destroy m (cw_heap w) = Some h \<and> heap_ok (objects h)
      \<and> live_objects (objects h) = live_objects (objects (cw_heap w)) - set_option (om_object m)"
  proof (cases m)
    case (UniqueObjectManager f u)
    have "set_option u \<subseteq> live_objects (objects (cw_heap w))"
      using ok hold UniqueObjectManager by (cases u) (auto simp: callbacks_ok_def ran_def)
    then show ?thesis using up_reset_live [of u "objects (cw_heap w)" nullptr] ok UniqueObjectManager
      by (auto simp: up_destroy_def callbacks_ok_def)
  qed (use ok owns in \<open>auto simp: callbacks_ok_def\<close>)
  then obtain h where h: "om_destroy m (cw_heap w) = Some h" "heap_ok (objects h)"
    "live_objects (objects h) = live_objects (objects (cw_heap w)) - set_option (om_object m)" by blast
  let ?w = "w\<lparr>cw_managers := ?ms, cw_heap := h\<rparr>"
  have holds': "holds ?w = (holds w)(a := None)" by (simp add: holds_def)
  have "cb_reset p w cb = Some (?w, p)"
    using Some m h(1) by (simp add: cb_reset_def up_reset_def free_Some)
  moreover have "callbacks_ok ?w"
    using ok h m ran_drop [of "holds w" a] one_owner_drop [of "holds w" a] hold
    by (auto simp: callbacks_ok_def holds' ran_def heap_ok_upd split: if_splits)
  moreover have "live_objects ?ms = live_objects (cw_managers w) - set_option cb" using Some by (auto simp: live_objects_def)
  ultimately show ?thesis by auto
qed

text \<open>A new manager, of no object or of one that no other manager has.\<close>

lemma cb_new_run:
  assumes ok: "heap_ok (cw_managers w)" "heap_ok (objects (cw_heap w))" "\<forall>m \<in> ran (cells (cw_managers w)). om_owns m"
      "one_owner (holds w)"
    and m: "om_owns m" "set_option (om_object m) \<inter> ran (holds w) = {}"
      "live_objects (objects (cw_heap w)) = set_option (om_object m) \<union> ran (holds w)"
    and cb: "cb_new m w = (cb, w')"
  shows "callbacks_ok w'" and "set_option cb \<inter> live_objects (cw_managers w) = {}"
    and "live_objects (cw_managers w') = set_option cb \<union> live_objects (cw_managers w)"
proof -
  let ?a = "brk (cw_managers w)"
  have fresh: "cells (cw_managers w) ?a = None" by (rule heap_ok_brk [OF ok(1)])
  have w': "cb = Some ?a" "w' = w\<lparr>cw_managers := \<lparr>cells = (cells (cw_managers w))(?a \<mapsto> m), brk = Suc ?a\<rparr>\<rparr>"
    using cb by (simp_all add: cb_new_def new_def)
  have h: "holds w' = (holds w)(?a := om_object m)" "holds w ?a = None"
    using fresh by (simp_all add: w' holds_def resources_def fun_eq_iff)
  have "ran (cells (cw_managers w')) = insert m (ran (cells (cw_managers w)))" using fresh by (simp add: w')
  then have "\<forall>m \<in> ran (cells (cw_managers w')). om_owns m" using ok(3) m(1) by simp
  moreover have "one_owner (holds w') \<and> ran (holds w') = set_option (om_object m) \<union> ran (holds w)"
  proof (cases "om_object m")
    case None
    then show ?thesis using ok(4) h by (simp add: fun_upd_idem)
  next
    case (Some r)
    then show ?thesis using ok(4) m(2) h one_owner_add [of "holds w" r ?a] by simp
  qed
  ultimately show "callbacks_ok w'" using ok(2) m(3) heap_ok_new [OF ok(1)] by (simp add: callbacks_ok_def w')
  show "set_option cb \<inter> live_objects (cw_managers w) = {}"
    "live_objects (cw_managers w') = set_option cb \<union> live_objects (cw_managers w)"
    using fresh by (auto simp: w' live_objects_def)
qed

lemma cb_make_ok:
  assumes ok: "callbacks_ok w" and make: "cb_make (rs, w) = (cb, rs', w')"
  shows "callbacks_ok w' \<and> set_option cb \<inter> live_objects (cw_managers w) = {}
    \<and> live_objects (cw_managers w') = set_option cb \<union> live_objects (cw_managers w)"
proof (cases rs)
  case Nil
  then show ?thesis using ok make by (simp add: cb_default_def up_null_def)
next
  case (Cons r rs1)
  have o: "heap_ok (cw_managers w)" "heap_ok (objects (cw_heap w))" "\<forall>m \<in> ran (cells (cw_managers w)). om_owns m"
    "one_owner (holds w)" "live_objects (objects (cw_heap w)) = ran (holds w)" using ok by (simp_all add: callbacks_ok_def)
  show ?thesis
  proof (cases r)
    case (OfFunction f)
    then have "cb_new (RegularFunctionObjectManager f) w = (cb, w')"
      using make Cons by (simp add: cb_of_function_def split: prod.splits)
    from cb_new_run [OF o(1-4) _ _ _ this] show ?thesis using o(5) by simp
  next
    case (OfUnique f v)
    let ?b = "brk (objects (cw_heap w))"
    let ?w = "w\<lparr>cw_heap := (cw_heap w)\<lparr>objects := snd (new (objects (cw_heap w)) v)\<rparr>\<rparr>"
    have "cb_new (UniqueObjectManager f (Some ?b)) ?w = (cb, w')"
      using make Cons OfUnique by (simp add: cb_of_unique_def up_move_construct_def makeUnique_def new_def split: prod.splits)
    moreover have "holds ?w = holds w" by (simp add: holds_def)
    moreover have "heap_ok (objects (cw_heap ?w))" using heap_ok_new [OF o(2)] by (simp add: new_def)
    moreover have "live_objects (objects (cw_heap ?w)) = insert ?b (ran (holds w))" "?b \<notin> ran (holds w)"
      using o(5) heap_ok_brk [OF o(2)] by (auto simp: live_objects_def new_def)
    ultimately show ?thesis using cb_new_run [of ?w "UniqueObjectManager f (Some ?b)" cb w'] o(1,3,4) by simp
  qed
qed

interpretation cb: owner callback_ops "\<lambda>cb. cb" "\<lambda>(rs, w). live_objects (cw_managers w)" "\<lambda>(rs, w). callbacks_ok w"
proof (unfold_locales, goal_cases)
  case (1 s cb s')
  then show ?case using cb_make_ok [of "snd s" "fst s" cb "fst s'" "snd s'"]
    by (auto simp: callback_ops_def simp del: disjoint_insert split: prod.splits)
next
  case (2 x y x')
  then show ?case by (simp add: callback_ops_def cb_move_construct_def up_move_construct_def)
next
  case (3 s x y)
  then show ?case using cb_reset_run [of "snd s" x y] by (auto simp: callback_ops_def cb_move_assign_def split: prod.splits)
next
  case (4 s x)
  then show ?case using cb_reset_run [of "snd s" x nullptr] by (auto simp: callback_ops_def cb_destroy_def split: prod.splits)
qed

lemma bind_pair_Some: "Option.bind x (\<lambda>(r, h). Some (g r h)) = map_option (\<lambda>(r, h). g r h) x"
  by (cases x) auto

lemma resources_nil: "resources owned (\<lambda>_. None) = (\<lambda>_. None)"
  by (simp add: resources_def fun_eq_iff)

text \<open>Calling a callback, and asking whether it is one.\<close>

lemma callback_run:
  assumes ok: "callbacks_ok w" and cb: "set_option cb \<subseteq> live_objects (cw_managers w)"
  shows "cb_bool cb w = Some (cb \<noteq> nullptr)
    \<and> (\<forall>a. cb = Some a \<longrightarrow> (case cells (cw_managers w) a of
          Some (RegularFunctionObjectManager f) \<Rightarrow>
            (\<forall>args. cb_call cb args w = map_option (\<lambda>(r, h). (r, w\<lparr>cw_heap := h\<rparr>)) (f args (cw_heap w)))
        | Some (UniqueObjectManager f p) \<Rightarrow> (\<exists>b \<in> live_objects (objects (cw_heap w)). p = Some b
            \<and> (\<forall>args. cb_call cb args w = map_option (\<lambda>(r, h). (r, w\<lparr>cw_heap := h\<rparr>)) (f b args (cw_heap w))))
        | _ \<Rightarrow> False))"
proof (cases cb)
  case None
  then show ?thesis by (simp add: cb_bool_def up_bool_def)
next
  case (Some a)
  then obtain m where m: "cells (cw_managers w) a = Some m" using cb by (auto simp: live_objects_def)
  then have owns: "om_owns m" using ok by (auto simp: callbacks_ok_def ran_def)
  have hold: "holds w a = om_object m" by (simp add: holds_def resources_def m)
  show ?thesis
  proof (cases m)
    case (RegularFunctionObjectManager f)
    then show ?thesis using Some m by (simp add: cb_bool_def up_bool_def up_deref_def cb_call_def bind_pair_Some)
  next
    case (UniqueObjectManager f p)
    then obtain b where b: "p = Some b" using owns by auto
    then have "b \<in> live_objects (objects (cw_heap w))" using ok hold UniqueObjectManager
      by (auto simp: callbacks_ok_def ran_def)
    moreover from this obtain v where "cells (objects (cw_heap w)) b = Some v" by (auto simp: live_objects_def)
    ultimately show ?thesis using Some m b UniqueObjectManager
      by (simp add: bind_pair_Some cb_bool_def up_bool_def up_deref_def cb_call_def call_member_def)
  qed (use owns in auto)
qed

section \<open>Properties\<close>

text \<open>
  C16: whatever callbacks of functions and of owned objects a program makes, moves, assigns and destroys, in
  whatever order: there is exactly one manager for each callback that is not empty, and one object for each
  manager of an owned object; no assignment and no destructor is undefined; and the callbacks that are
  not empty are valid, and calling one calls its function, on its live object when it has one.
\<close>

theorem callbacks_own:
  assumes "own_reachable callback_ops \<lparr>objs = \<lambda>_. None,
      world = (rs, \<lparr>cw_managers = empty_heap, cw_heap = \<lparr>objects = empty_heap, blocks = empty_heap\<rparr>\<rparr>)\<rparr> s"
    and "world s = (rs', w)"
  shows "live_objects (cw_managers w) = ran (\<lambda>i. Option.bind (objs s i) id) \<and> one_owner (\<lambda>i. Option.bind (objs s i) id)
    \<and> live_objects (objects (cw_heap w)) = ran (holds w) \<and> one_owner (holds w)
    \<and> (\<forall>i cb. objs s i = Some cb \<longrightarrow> cb_destroy cb w \<noteq> None \<and> (\<forall>other. cb_move_assign cb other w \<noteq> None)
         \<and> cb_bool cb w = Some (cb \<noteq> nullptr)
         \<and> (\<forall>a. cb = Some a \<longrightarrow> (case cells (cw_managers w) a of
              Some (RegularFunctionObjectManager f) \<Rightarrow>
                (\<forall>args. cb_call cb args w = map_option (\<lambda>(r, h). (r, w\<lparr>cw_heap := h\<rparr>)) (f args (cw_heap w)))
            | Some (UniqueObjectManager f p) \<Rightarrow> (\<exists>b \<in> live_objects (objects (cw_heap w)). p = Some b
                \<and> (\<forall>args. cb_call cb args w = map_option (\<lambda>(r, h). (r, w\<lparr>cw_heap := h\<rparr>)) (f b args (cw_heap w))))
            | _ \<Rightarrow> False)))"
proof -
  have res: "resources (\<lambda>cb. cb) (objs s) = (\<lambda>i. Option.bind (objs s i) id)" by (simp add: resources_def fun_eq_iff id_def)
  have "own_inv (\<lambda>cb. cb) (\<lambda>(rs, w). live_objects (cw_managers w)) (\<lambda>(rs, w). callbacks_ok w) {} \<lparr>objs = \<lambda>_. None,
      world = (rs, \<lparr>cw_managers = empty_heap, cw_heap = \<lparr>objects = empty_heap, blocks = empty_heap\<rparr>\<rparr>)\<rparr>"
    by (simp add: own_inv_def one_owner_def callbacks_ok_def holds_def resources_nil live_objects_def empty_heap_def heap_ok_def)
  from cb.inv_reachable [OF assms(1) this] assms(2)
  have ok: "callbacks_ok w" and own: "one_owner (resources (\<lambda>cb. cb) (objs s))"
    and live: "live_objects (cw_managers w) = ran (resources (\<lambda>cb. cb) (objs s))"
    by (simp_all add: own_inv_def)
  have each: "cb_destroy cb w \<noteq> None \<and> (\<forall>other. cb_move_assign cb other w \<noteq> None) \<and> cb_bool cb w = Some (cb \<noteq> nullptr)
     \<and> (\<forall>a. cb = Some a \<longrightarrow> (case cells (cw_managers w) a of
          Some (RegularFunctionObjectManager f) \<Rightarrow>
            (\<forall>args. cb_call cb args w = map_option (\<lambda>(r, h). (r, w\<lparr>cw_heap := h\<rparr>)) (f args (cw_heap w)))
        | Some (UniqueObjectManager f p) \<Rightarrow> (\<exists>b \<in> live_objects (objects (cw_heap w)). p = Some b
            \<and> (\<forall>args. cb_call cb args w = map_option (\<lambda>(r, h). (r, w\<lparr>cw_heap := h\<rparr>)) (f b args (cw_heap w))))
        | _ \<Rightarrow> False))"
    if "objs s i = Some cb" for i cb
  proof -
    have sub: "set_option cb \<subseteq> live_objects (cw_managers w)"
      using that live resources_Some [of "objs s" i cb "\<lambda>cb. cb"] by (auto simp: ran_def)
    then show ?thesis using cb_reset_run [OF ok sub] callback_run [OF ok, of cb]
      by (force simp: cb_destroy_def cb_move_assign_def)
  qed
  have obj: "live_objects (objects (cw_heap w)) = ran (holds w)" "one_owner (holds w)" using ok by (simp_all add: callbacks_ok_def)
  show ?thesis
    by (rule conjI [OF live [unfolded res] conjI [OF own [unfolded res] conjI [OF obj(1) conjI [OF obj(2)]]]])
      (intro allI impI, rule each)
qed

text \<open>
  A callback that was moved from, or made by the default constructor, is invalid, and calling it dereferences
  null. A callback of a shared pointer copies it, so its object outlives the pointer that it was made from.
\<close>

lemma callback_empty:
  "cb_call (snd (cb_move_construct cb)) args w = None \<and> cb_bool (snd (cb_move_construct cb)) w = Some False
   \<and> cb_call cb_default args w = None \<and> cb_bool cb_default w = Some False"
  by (simp add: cb_call_def cb_bool_def cb_move_construct_def up_move_construct_def cb_default_def up_null_def
      up_deref_def up_bool_def)

lemma callback_shared:
  assumes "cells (objects (cw_heap w)) b = Some v"
  shows "\<exists>cb w'. cb_of_shared f (sp_of (Some b)) w = Some (cb, w') \<and> cb_bool cb w' = Some True
    \<and> cb_call cb args w' = map_option (\<lambda>(r, h). (r, w'\<lparr>cw_heap := h\<rparr>)) (f b args (cw_heap w'))
    \<and> (\<exists>w''. cb_destroy cb w' = Some w'' \<and> cw_heap w'' = cw_heap w')"
  using assms
  by (simp add: cb_of_shared_def sp_copy_construct_def sp_of_def sp_increaseCount_def new_def cb_new_def cb_bool_def
      up_bool_def up_deref_def sp_bool_def cb_call_def call_member_def bind_pair_Some cb_destroy_def cb_reset_def
      sp_destroy_def sp_decreaseCountAndDeleteReference_def sp_decreaseCount_def up_reset_def free_Some)

lemma callbacks_own_witness:
  "(let w0 = \<lparr>cw_managers = empty_heap, cw_heap = \<lparr>objects = empty_heap, blocks = empty_heap\<rparr>\<rparr>;
        (cb, rs, w) = cb_make ([OfUnique (\<lambda>a (n :: nat) h. Some (n + a, h)) (7 :: nat)], w0)
    in rs = [] \<and> cb_bool cb w = Some True \<and> one_owner (holds w) \<and> cb_destroy cb w \<noteq> None)"
proof -
  let ?w0 = "\<lparr>cw_managers = empty_heap, cw_heap = \<lparr>objects = empty_heap, blocks = empty_heap\<rparr>\<rparr>
    :: (nat, nat, nat) callback_world"
  let ?rs = "[OfUnique (\<lambda>a n h. Some (n + a, h)) 7] :: (nat, nat, nat) request list"
  obtain w where make: "cb_make (?rs, ?w0) = (Some 0, [], w)"
    by (simp add: cb_of_unique_def up_move_construct_def makeUnique_def new_def cb_new_def empty_heap_def)
  have "own_reachable callback_ops \<lparr>objs = \<lambda>_. None, world = (?rs, ?w0)\<rparr> \<lparr>objs = [0 \<mapsto> Some 0], world = ([], w)\<rparr>"
    unfolding own_reachable_def
    using own_step.make [of "\<lparr>objs = \<lambda>_. None, world = (?rs, ?w0)\<rparr>" 0 callback_ops "Some 0" "([], w)"] make
    by (intro r_into_rtranclp) (simp add: callback_ops_def)
  from callbacks_own [OF this, of "[]" w] make show ?thesis by (simp add: Let_def)
qed

end
