(* ===== verification/RawPointers.thy ===== *)
theory RawPointers
  imports KeyIterators PeersServer
begin

text \<open>
  Base/RawPointer.hpp, Base/DummyPointer.hpp and Base/Array.hpp: pointers that own nothing, the array that
  knows its length, the value that acts like a pointer to itself, and the array in an object; with the
  members of other classes that make and walk such arrays. The memory is the one of the vectors: a
  pointer to an element is a block and an index. \<open>operator T&\<close> of the pointer classes returns
  \<open>*this\<close>, which converts with that same operator and never ends, so it is left out, as is the comparison
  of \<open>RawArray\<close>, whose call finds no operator to compare the pointers with.
\<close>

section \<open>RawPointer\<close>

text \<open>The state of a raw pointer is its \<open>mPointer\<close>.\<close>

definition rp_null :: ptr where
  "rp_null = nullptr"

definition rp_of :: "ptr \<Rightarrow> ptr" where
  "rp_of pointer = pointer"

definition rp_reset :: "ptr \<Rightarrow> ptr \<Rightarrow> ptr" where
  "rp_reset pointer self = pointer"

definition rp_bool :: "ptr \<Rightarrow> bool" where
  "rp_bool self \<longleftrightarrow> self \<noteq> nullptr"

definition rp_get :: "ptr \<Rightarrow> ptr" where
  "rp_get self = self"

definition rp_deref :: "'o heap \<Rightarrow> ptr \<Rightarrow> 'o option" where
  "rp_deref h self = load h self"

definition rp_equal :: "ptr \<Rightarrow> ptr \<Rightarrow> bool" where
  "rp_equal self other \<longleftrightarrow> self = other"

section \<open>RawArray\<close>

record raw_array =
  ra_mPointer :: ptr
  ra_mSize :: size_t

definition ra_construct :: "ptr \<Rightarrow> size_t \<Rightarrow> raw_array" where
  "ra_construct pointer n = \<lparr>ra_mPointer = pointer, ra_mSize = n\<rparr>"

definition ra_size :: "raw_array \<Rightarrow> size_t" where
  "ra_size a = ra_mSize a"

text \<open>The array of constant elements from one of elements that may change.\<close>

definition ra_of_nonconst :: "raw_array \<Rightarrow> raw_array" where
  "ra_of_nonconst nonconstArray = ra_construct (rp_get (ra_mPointer nonconstArray)) (ra_size nonconstArray)"

definition rp_at :: "'v memory \<Rightarrow> ptr \<Rightarrow> size_t \<Rightarrow> 'v option" where
  "rp_at m self index = slot_read m self (unat index)"

definition ra_at :: "'v memory \<Rightarrow> raw_array \<Rightarrow> size_t \<Rightarrow> 'v option" where
  "ra_at m a index = slot_read m (ra_mPointer a) (unat index)"

text \<open>Iterators are indexes into the array's block.\<close>

definition ra_begin :: "raw_array \<Rightarrow> nat" where
  "ra_begin a = 0"

definition ra_end :: "raw_array \<Rightarrow> nat" where
  "ra_end a = unat (ra_mSize a)"

definition ra_cbegin :: "raw_array \<Rightarrow> nat" where
  "ra_cbegin a = ra_begin a"

definition ra_cend :: "raw_array \<Rightarrow> nat" where
  "ra_cend a = ra_end a"

text \<open>
  \<open>makeBytesArray\<close>: the bytes of an object (\<open>object\<close> is the block of its bytes), \<open>size\<close> of them.
\<close>

definition makeBytesArray :: "nat \<Rightarrow> size_t \<Rightarrow> raw_array" where
  "makeBytesArray object n = ra_construct (Some object) n"

definition vec_toRawArray :: "vector \<Rightarrow> raw_array" where
  "vec_toRawArray v = ra_construct (vec_data v) (vec_size v)"

section \<open>DummyPointer and Array\<close>

text \<open>The dummy pointer holds the value; a pointer to it is a pointer to the object itself.\<close>

record 'v dummy_pointer =
  dp_mValue :: 'v

definition dp_construct :: "'v \<Rightarrow> 'v dummy_pointer" where
  "dp_construct v = \<lparr>dp_mValue = v\<rparr>"

definition dp_bool :: "'v dummy_pointer \<Rightarrow> bool" where
  "dp_bool d \<longleftrightarrow> True"

definition dp_get :: "'v dummy_pointer \<Rightarrow> 'v" where
  "dp_get d = dp_mValue d"

definition dp_put :: "'v \<Rightarrow> 'v dummy_pointer \<Rightarrow> 'v dummy_pointer" where
  "dp_put v d = d\<lparr>dp_mValue := v\<rparr>"

text \<open>\<open>Array<T, n>\<close> is its \<open>n\<close> elements.\<close>

definition ar_make :: "'v list \<Rightarrow> 'v list" where
  "ar_make values = values"

definition ar_size :: "'v list \<Rightarrow> size_t" where
  "ar_size mArray = of_nat (length mArray)"

definition ar_at :: "'v list \<Rightarrow> size_t \<Rightarrow> 'v option" where
  "ar_at mArray index = (if unat index < length mArray then Some (mArray ! unat index) else None)"

definition ar_begin :: "'v list \<Rightarrow> nat" where
  "ar_begin mArray = 0"

definition ar_end :: "'v list \<Rightarrow> nat" where
  "ar_end mArray = length mArray"

section \<open>Range loops\<close>

text \<open>\<open>for (auto x : range) body\<close>, for a range with the given iterators.\<close>

partial_function (option) range_for ::
  "('i \<Rightarrow> 'v option) \<Rightarrow> ('i \<Rightarrow> 'i option) \<Rightarrow> 'i \<Rightarrow> ('v \<Rightarrow> 's \<Rightarrow> 's option) \<Rightarrow> 'i \<Rightarrow> 's \<Rightarrow> 's option" where
  "range_for deref increment iend body iterator s =
     (if iterator = iend then Some s
      else do {
        x \<leftarrow> deref iterator;
        s1 \<leftarrow> body x s;
        iterator1 \<leftarrow> increment iterator;
        range_for deref increment iend body iterator1 s1
      })"

definition ra_for :: "'v memory \<Rightarrow> raw_array \<Rightarrow> ('v \<Rightarrow> 's \<Rightarrow> 's option) \<Rightarrow> 's \<Rightarrow> 's option" where
  "ra_for m a body s =
     range_for (slot_read m (ra_mPointer a)) (array_increment (ra_end a)) (ra_end a) body (ra_begin a) s"

text \<open>The hashes of arrays and vectors of bytes.\<close>

definition hash_array :: "byte memory \<Rightarrow> raw_array \<Rightarrow> size_t option" where
  "hash_array m array = ra_for m array (\<lambda>element hash. Some ((push_bit 5 hash + hash) + ucast element)) 5381"

definition hash_vector :: "byte memory \<Rightarrow> vector \<Rightarrow> size_t option" where
  "hash_vector m v = hash_array m (ra_construct (vec_data v) (vec_size v))"

text \<open>\<open>addThreads\<close> and \<open>removeThreads\<close> over the array of a message's identifiers.\<close>

definition ra_addThreads :: "64 word memory \<Rightarrow> raw_array \<Rightarrow> 'i \<Rightarrow> 'i other_servers \<Rightarrow> 'i other_servers option" where
  "ra_addThreads m threadsToAdd info s = do {
     (_, ch, cl) \<leftarrow> ll_emplace_back \<lparr>conn_info = info, referenceCount = ra_size threadsToAdd\<rparr>
                      (connHeap s) (mConnectionsList s);
     let beforeEnd = mBeforeEnd cl;
     (ih, tb) \<leftarrow> ra_for m threadsToAdd (\<lambda>threadID (h, t). do {
         (it, h1, t1) \<leftarrow> ht_subscript id_hash (=) nullptr threadID h t;
         n \<leftarrow> it_deref h1 it;
         h2 \<leftarrow> it_assign h1 it (n\<lparr>pt_second := beforeEnd\<rparr>);
         Some (h2, t1)
       }) (idsHeap s, mThreadIDToStream s);
     Some \<lparr>connHeap = ch, mConnectionsList = cl, idsHeap = ih, mThreadIDToStream = tb\<rparr>
   }"

definition ra_removeThreads :: "64 word memory \<Rightarrow> raw_array \<Rightarrow> 'i other_servers \<Rightarrow> 'i other_servers option" where
  "ra_removeThreads m threadsToRemove s = ra_for m threadsToRemove sv_removeThread s"

section \<open>The elements of an array\<close>

fun for_each :: "('v \<Rightarrow> 's \<Rightarrow> 's option) \<Rightarrow> 'v list \<Rightarrow> 's \<Rightarrow> 's option" where
  "for_each body [] s = Some s"
| "for_each body (x # xs) s = Option.bind (body x s) (for_each body xs)"

text \<open>\<open>array_holds m a xs\<close>: the block that the array points to starts with the elements \<open>xs\<close>.\<close>

definition array_holds :: "'v memory \<Rightarrow> raw_array \<Rightarrow> 'v list \<Rightarrow> bool" where
  "array_holds m a xs \<longleftrightarrow> unat (ra_mSize a) = length xs
     \<and> (xs \<noteq> [] \<longrightarrow> (\<exists>p rest. ra_mPointer a = Some p \<and> cells m p = Some (map Live xs @ rest)))"

definition array_reads :: "'v memory \<times> ptr \<times> nat \<Rightarrow> nat list \<Rightarrow> 'v list \<Rightarrow> bool" where
  "array_reads c ps xs \<longleftrightarrow> (case c of (m, p, n) \<Rightarrow> ps = [0..<Suc n] \<and> n = length xs
     \<and> (\<forall>i < n. slot_read m p i = Some (xs ! i)))"

interpretation rar: readable "\<lambda>(m, p, n). array_increment n" "\<lambda>(m, p, n). array_decrement n" "\<lambda>(m, p, n). array_path n"
  "\<lambda>(m, p, n). slot_read m p" array_reads
  by unfold_locales
    (auto simp: array_reads_def array_path_def array_increment_def array_decrement_def split: prod.splits simp del: upt_Suc)

context readable begin

lemma range_for_run:
  assumes "reads c ps xs"
  shows "range_for (deref c) (increment c) (ps ! length xs) body (ps ! 0) s = for_each body xs s"
proof -
  note path = conjunct1 [OF reads_path [OF assms]] and len = conjunct2 [OF reads_path [OF assms]]
  have "range_for (deref c) (increment c) (ps ! length xs) body (ps ! i) s = for_each body (drop i xs) s"
    if "i \<le> length xs" for i s
    using that
  proof (induction "length xs - i" arbitrary: i s)
    case 0
    then show ?case by (simp add: range_for.simps)
  next
    case (Suc d)
    have lt: "i < length xs" using Suc.hyps(2) by simp
    then have "ps ! i \<noteq> ps ! length xs" using distinct_path [OF path] len by (simp add: nth_eq_iff_index_eq)
    moreover have "increment c (ps ! i) = Some (ps ! Suc i)" using increment_path [OF path, of i] lt len by simp
    ultimately show ?case using Suc.hyps(1) [of "Suc i"] Suc.hyps(2) reads_deref [OF assms lt] lt
      by (subst range_for.simps) (simp add: Cons_nth_drop_Suc [symmetric])
  qed
  from this [of 0] show ?thesis by simp
qed

end

lemma ra_for_run:
  assumes "array_holds m a xs"
  shows "ra_for m a body s = for_each body xs s"
proof -
  have "slot_read m (ra_mPointer a) i = Some (xs ! i)" if "i < length xs" for i
    using assms that by (auto simp: array_holds_def nth_append)
  then have "array_reads (m, ra_mPointer a, length xs) [0..<Suc (length xs)] xs" by (simp add: array_reads_def del: upt_Suc)
  from rar.range_for_run [OF this, of body s] show ?thesis
    using assms by (simp add: ra_for_def ra_begin_def ra_end_def array_holds_def del: upt_Suc)
qed

lemma for_each_total: "for_each (\<lambda>x s. Some (f x s)) xs s = Some (fold f xs s)"
  by (induction xs arbitrary: s) auto

lemma vec_array_holds:
  assumes "vec_repr m v xs"
  shows "array_holds m (vec_toRawArray v) xs"
  using assms by (auto simp: vec_repr_def array_holds_def vec_toRawArray_def ra_construct_def vec_data_def vec_size_def)

lemma for_each_cong: "(\<And>x s. body x s = body' x s) \<Longrightarrow> for_each body xs s = for_each body' xs s"
  by (induction xs arbitrary: s) (auto split: Option.bind_splits)

lemma add_loop_for_each:
  "for_each (\<lambda>threadID (h, t). do {
      (it, h1, t1) \<leftarrow> ht_subscript id_hash (=) nullptr threadID h t;
      n \<leftarrow> it_deref h1 it;
      h2 \<leftarrow> it_assign h1 it (n\<lparr>pt_second := beforeEnd\<rparr>);
      Some (h2, t1)
    }) ids (h, t) = sv_addThreads_loop beforeEnd ids h t"
  by (induction ids arbitrary: h t) (auto split: Option.bind_splits prod.splits)

lemma removeThreads_for_each: "for_each sv_removeThread ids s = sv_removeThreads ids s"
  by (induction ids arbitrary: s) (auto split: Option.bind_splits)

section \<open>Properties\<close>

text \<open>
  C28: an array over a vector shows the vector: it has its size and its elements, a range loop runs over them
  in order, the hash of the vector is djb2 of its bytes, and adding and removing the threads of such an
  array is what the peers server does with the list of its identifiers.
\<close>

theorem raw_array_views_vector:
  assumes "vec_repr m v xs" and "vec_repr mb vb bs" and "vec_repr mi vi ids"
  shows "ra_size (vec_toRawArray v) = of_nat (length xs)
    \<and> (\<forall>i. unat i < length xs \<longrightarrow> ra_at m (vec_toRawArray v) i = Some (xs ! unat i))
    \<and> (\<forall>body s. ra_for m (ra_of_nonconst (vec_toRawArray v)) body s = for_each body xs s)
    \<and> hash_vector mb vb = Some (djb2 bs)
    \<and> ra_addThreads mi (vec_toRawArray vi) info srv = sv_addThreads ids info srv
    \<and> ra_removeThreads mi (vec_toRawArray vi) srv = sv_removeThreads ids srv"
proof (intro conjI allI impI)
  show size_xs: "ra_size (vec_toRawArray v) = of_nat (length xs)"
    using vec_repr_size [OF assms(1)] by (simp add: ra_size_def vec_toRawArray_def ra_construct_def vec_size_def)
  show "ra_at m (vec_toRawArray v) i = Some (xs ! unat i)" if "unat i < length xs" for i
    using vec_array_holds [OF assms(1)] that by (auto simp: ra_at_def array_holds_def nth_append)
  have "array_holds m (ra_of_nonconst (vec_toRawArray v)) xs"
    using vec_array_holds [OF assms(1)] by (simp add: ra_of_nonconst_def ra_construct_def ra_size_def rp_get_def array_holds_def)
  from ra_for_run [OF this] show "ra_for m (ra_of_nonconst (vec_toRawArray v)) body s = for_each body xs s" for body s .
  show "hash_vector mb vb = Some (djb2 bs)"
    by (simp add: hash_vector_def hash_array_def for_each_total djb2_def
        ra_for_run [OF vec_array_holds [OF assms(2)], unfolded vec_toRawArray_def])
  have "ra_size (vec_toRawArray vi) = of_nat (length ids)"
    using vec_repr_size [OF assms(3)] by (simp add: ra_size_def vec_toRawArray_def ra_construct_def vec_size_def)
  then show "ra_addThreads mi (vec_toRawArray vi) info srv = sv_addThreads ids info srv"
    by (simp add: ra_addThreads_def sv_addThreads_def ra_for_run [OF vec_array_holds [OF assms(3)]] add_loop_for_each)
  show "ra_removeThreads mi (vec_toRawArray vi) srv = sv_removeThreads ids srv"
    by (simp add: ra_removeThreads_def ra_for_run [OF vec_array_holds [OF assms(3)]] removeThreads_for_each)
qed

lemma raw_array_views_vector_witness:
  "(let (mb, vb) = vec_new empty_heap [1, 2 :: byte]; (m, v) = vec_new empty_heap [10, 11 :: nat]
    in hash_vector mb vb = Some (djb2 [1, 2]) \<and> ra_at m (vec_toRawArray v) 1 = Some 11)"
proof -
  obtain mb vb where b: "vec_new empty_heap [1, 2 :: byte] = (mb, vb)" by fastforce
  obtain m v where v: "vec_new empty_heap [10, 11 :: nat] = (m, v)" by fastforce
  obtain mi vi where i: "vec_new empty_heap [3 :: 64 word] = (mi, vi)" by fastforce
  have "vec_repr m v [10, 11]" "vec_repr mb vb [1, 2]" "vec_repr mi vi [3]"
    using vec_new_repr [OF heap_ok_empty, of "[10, 11 :: nat]"] vec_new_repr [OF heap_ok_empty, of "[1, 2 :: byte]"]
      vec_new_repr [OF heap_ok_empty, of "[3 :: 64 word]"] b v i by simp_all
  note t = raw_array_views_vector [OF this]
  show ?thesis
    using t [THEN conjunct2, THEN conjunct1, rule_format, of 1]
      t [THEN conjunct2, THEN conjunct2, THEN conjunct2, THEN conjunct1] by (simp add: b v)
qed

end
