(* ===== verification/Drivers.thy ===== *)
theory Drivers
  imports UsbDevices RawPointers
begin

text \<open>
  The life of a driver: its context (Platforms/Common/OS/AbstractDriverContext.hpp and the two
  OS/DriverContext), the entry points that load and unload it (Platforms/Linux/PerDriver and
  Platforms/GenericUsermode/PerDriver) and the driver of Platforms/Tests/UsbDeviceTest, which keeps a
  USB device manager as its user data. The kernel's functions are the parameter \<open>linux_usb\<close>, those of
  libusb the parameter \<open>usb_lib\<close>. Logging has no effect here.
\<close>

section \<open>The Linux driver\<close>

text \<open>
  A driver context holds the user data of the driver; the user data objects hold a manager each. \<open>void *\<close>
  variables of the module are part of the world.
\<close>

record driver_context =
  mUserData :: ptr

record 'k driver_world =
  dw_contexts :: "driver_context heap"
  dw_data :: "usb_manager heap"
  dw_usb :: "'k usb_world"
  g_private_data_ptr :: ptr

definition dc_Create :: "int + driver_context" where
  "dc_Create = Inr \<lparr>mUserData = up_null\<rparr>"

text \<open>\<open>UniquePointer<IDestructable>::reset\<close>: the destructor is virtual, so the manager is destroyed.\<close>

definition data_reset :: "('i, 'k) linux_usb \<Rightarrow> ptr \<Rightarrow> 'k driver_world \<Rightarrow> ptr \<Rightarrow> ('k driver_world \<times> ptr) option" where
  "data_reset lu pointer w u = do {
     usb \<leftarrow> (if u \<noteq> nullptr then Option.bind (load (dw_data w) u) (\<lambda>m. lu_destroy lu m (dw_usb w)) else Some (dw_usb w));
     (data, u1) \<leftarrow> up_reset pointer (dw_data w) u;
     Some (w\<lparr>dw_data := data, dw_usb := usb\<rparr>, u1)
   }"

definition ac_getUserData :: "'k driver_world \<Rightarrow> ptr \<Rightarrow> usb_manager option" where
  "ac_getUserData w self = Option.bind (load (dw_contexts w) self) (\<lambda>c. load (dw_data w) (mUserData c))"

definition ac_setUserData :: "('i, 'k) linux_usb \<Rightarrow> ptr \<Rightarrow> ptr \<Rightarrow> 'k driver_world \<Rightarrow> 'k driver_world option" where
  "ac_setUserData lu self destructable w = do {
     c \<leftarrow> load (dw_contexts w) self;
     (w1, u) \<leftarrow> data_reset lu destructable w (mUserData c);
     cs \<leftarrow> modify (dw_contexts w1) self (\<lambda>c. c\<lparr>mUserData := u\<rparr>);
     Some (w1\<lparr>dw_contexts := cs\<rparr>)
   }"

text \<open>\<open>delete\<close> of a context: its base class destroys the user data.\<close>

definition dc_delete :: "('i, 'k) linux_usb \<Rightarrow> ptr \<Rightarrow> 'k driver_world \<Rightarrow> 'k driver_world option" where
  "dc_delete lu p w =
     (if p = nullptr then Some w
      else do {
        c \<leftarrow> load (dw_contexts w) p;
        (w1, _) \<leftarrow> data_reset lu nullptr w (mUserData c);
        cs \<leftarrow> free (dw_contexts w1) p;
        Some (w1\<lparr>dw_contexts := cs\<rparr>)
      })"

text \<open>
  The driver of the USB device test. The manager that \<open>Create\<close> returned is moved into the user data, and
  what is left of it is destroyed when the function returns.
\<close>

definition ZqOnLoad :: "('i, 'k) linux_usb \<Rightarrow> ptr \<Rightarrow> 'k driver_world \<Rightarrow> 'k driver_world option" where
  "ZqOnLoad lu pointer w = do {
     let (callbacks, callback) = makeUnique () (uw_callbacks (dw_usb w));
     let (manager, usb) = lu_Create lu ''MyUsbDeviceTest '' callback ((dw_usb w)\<lparr>uw_callbacks := callbacks\<rparr>);
     let (deviceManager, manager1) = lu_move_construct manager;
     let (data, destructable) = makeUnique deviceManager (dw_data w);
     w1 \<leftarrow> ac_setUserData lu pointer destructable (w\<lparr>dw_data := data, dw_usb := usb\<rparr>);
     usb1 \<leftarrow> lu_destroy lu manager1 (dw_usb w1);
     Some (w1\<lparr>dw_usb := usb1\<rparr>)
   }"

definition ZqOnUnload :: "ptr \<Rightarrow> 'k driver_world \<Rightarrow> 'k driver_world" where
  "ZqOnUnload pointer w = w"

definition CppForwardOnLoad :: "('i, 'k) linux_usb \<Rightarrow> 'k driver_world \<Rightarrow> (int \<times> 'k driver_world) option" where
  "CppForwardOnLoad lu w =
     (case dc_Create of
        Inl e \<Rightarrow> Some (e, w)
      | Inr context \<Rightarrow> do {
          let (a, contexts) = new (dw_contexts w) context;
          w1 \<leftarrow> ZqOnLoad lu (Some a) (w\<lparr>dw_contexts := contexts, g_private_data_ptr := Some a\<rparr>);
          Some (0, w1)
        })"

definition CppForwardOnUnload :: "('i, 'k) linux_usb \<Rightarrow> 'k driver_world \<Rightarrow> 'k driver_world option" where
  "CppForwardOnUnload lu w = dc_delete lu (g_private_data_ptr w) (ZqOnUnload (g_private_data_ptr w) w)"

text \<open>\<open>linux_init\<close> drops the result and returns nothing.\<close>

definition linux_init :: "('i, 'k) linux_usb \<Rightarrow> 'k driver_world \<Rightarrow> 'k driver_world option" where
  "linux_init lu w = map_option snd (CppForwardOnLoad lu w)"

definition linux_exit :: "('i, 'k) linux_usb \<Rightarrow> 'k driver_world \<Rightarrow> 'k driver_world option" where
  "linux_exit lu w = CppForwardOnUnload lu w"

section \<open>The driver context in user mode\<close>

text \<open>
  The context has the libusb context as its member \<open>d\<close>, and the user data in its base class, so \<open>d\<close> is
  destroyed first; reading it afterwards is undefined. A manager holds the handle of its registration,
  whose deleter has a raw pointer to the driver context, and its callback.
\<close>

datatype 'v member = Alive 'v | Destroyed

record gu_context =
  gu_mUserData :: ptr
  gu_mUsbContext :: "ptr member"

record gu_manager =
  gu_mHotplugHandle :: "(int, ptr) container"
  gu_mHotplugCallback :: ptr

text \<open>The ids are vendor and product.\<close>

record 'k usb_lib =
  libusb_init :: "'k \<Rightarrow> (int + nat) \<times> 'k"
  libusb_exit :: "nat \<Rightarrow> 'k \<Rightarrow> 'k"
  libusb_hotplug_register_callback :: "ptr \<Rightarrow> 16 word \<Rightarrow> 16 word \<Rightarrow> ptr \<Rightarrow> 'k \<Rightarrow> (int + int) \<times> 'k"
  libusb_hotplug_deregister_callback :: "ptr \<Rightarrow> int \<Rightarrow> 'k \<Rightarrow> 'k"

record 'k gu_world =
  gw_contexts :: "gu_context heap"
  gw_data :: "gu_manager heap"
  gw_ICallbacks :: "unit heap"
  gw_lib :: 'k

definition lc_Create :: "'k usb_lib \<Rightarrow> 'k \<Rightarrow> (int + nat) \<times> 'k" where
  "lc_Create lib k = libusb_init lib k"

definition lc_destroy :: "'k usb_lib \<Rightarrow> ptr \<Rightarrow> 'k \<Rightarrow> 'k" where
  "lc_destroy lib mContext k = (case mContext of None \<Rightarrow> k | Some c \<Rightarrow> libusb_exit lib c k)"

definition gu_dc_Create :: "'k usb_lib \<Rightarrow> 'k \<Rightarrow> (int + gu_context) \<times> 'k" where
  "gu_dc_Create lib k =
     (case lc_Create lib k of
        (Inl e, k1) \<Rightarrow> (Inl e, k1)
      | (Inr c, k1) \<Rightarrow> (Inr \<lparr>gu_mUserData = up_null, gu_mUsbContext = Alive (Some c)\<rparr>, k1))"

definition getUsbContext :: "'k gu_world \<Rightarrow> ptr \<Rightarrow> ptr option" where
  "getUsbContext w driver = do {
     c \<leftarrow> load (gw_contexts w) driver;
     (case gu_mUsbContext c of Alive p \<Rightarrow> Some p | Destroyed \<Rightarrow> None)
   }"

text \<open>
  \<open>ZQ_ARRAY_LENGTH\<close> multiplies the two sizes: for an array of \<open>n\<close> elements of \<open>sizeofT\<close> bytes.
\<close>

definition ZQ_ARRAY_LENGTH :: "size_t \<Rightarrow> size_t \<Rightarrow> size_t" where
  "ZQ_ARRAY_LENGTH sizeofT n = sizeofT * (n * sizeofT)"

type_synonym usb_id = "16 word \<times> 16 word"

definition GetUsbIds :: "nat \<Rightarrow> raw_array" where
  "GetUsbIds g_usb_ids = ra_construct (Some g_usb_ids) (ZQ_ARRAY_LENGTH 4 1)"

definition hotplug_deleter :: "'k usb_lib \<Rightarrow> ptr \<Rightarrow> int \<Rightarrow> 'k gu_world \<Rightarrow> 'k gu_world option" where
  "hotplug_deleter lib mDriverContext handle w = do {
     c \<leftarrow> getUsbContext w mDriverContext;
     Some (w\<lparr>gw_lib := libusb_hotplug_deregister_callback lib c handle (gw_lib w)\<rparr>)
   }"

text \<open>
  \<open>Create\<close>: the handle goes through a local container and the packed arguments into the manager; what is
  left of both is destroyed. \<open>mv\<close> is the library's memory of the ids.
\<close>

definition gu_Create ::
  "'k usb_lib \<Rightarrow> usb_id memory \<Rightarrow> nat \<Rightarrow> ptr \<Rightarrow> ptr \<Rightarrow> 'k gu_world \<Rightarrow> ((int + gu_manager) \<times> ptr \<times> 'k gu_world) option" where
  "gu_Create lib mv g_usb_ids driver callback w = do {
     (vendor, product) \<leftarrow> ra_at mv (GetUsbIds g_usb_ids) 0;
     c \<leftarrow> getUsbContext w driver;
     let (rv, k) = libusb_hotplug_register_callback lib c vendor product callback (gw_lib w);
     let w1 = w\<lparr>gw_lib := k\<rparr>;
     (case rv of
        Inl e \<Rightarrow> Some (Inl e, callback, w1)
      | Inr handle \<Rightarrow> do {
          let scopedHandle = cn_construct handle driver;
          let (packed, scopedHandle1) = cn_move_construct 0 scopedHandle;
          let (mHotplugHandle, packed1) = cn_move_construct 0 packed;
          let (mCallback, callback1) = up_move_construct callback;
          w2 \<leftarrow> cn_destroy (hotplug_deleter lib) packed1 w1;
          w3 \<leftarrow> cn_destroy (hotplug_deleter lib) scopedHandle1 w2;
          Some (Inr \<lparr>gu_mHotplugHandle = mHotplugHandle, gu_mHotplugCallback = mCallback\<rparr>, callback1, w3)
        })
   }"

definition gu_move_construct :: "gu_manager \<Rightarrow> gu_manager \<times> gu_manager" where
  "gu_move_construct other =
     (let (handle, handle1) = cn_move_construct 0 (gu_mHotplugHandle other);
          (callback, callback1) = up_move_construct (gu_mHotplugCallback other)
      in (\<lparr>gu_mHotplugHandle = handle, gu_mHotplugCallback = callback\<rparr>,
          \<lparr>gu_mHotplugHandle = handle1, gu_mHotplugCallback = callback1\<rparr>))"

definition gu_destroy :: "'k usb_lib \<Rightarrow> gu_manager \<Rightarrow> 'k gu_world \<Rightarrow> 'k gu_world option" where
  "gu_destroy lib m w = do {
     (callbacks, _) \<leftarrow> up_destroy (gw_ICallbacks w) (gu_mHotplugCallback m);
     cn_destroy (hotplug_deleter lib) (gu_mHotplugHandle m) (w\<lparr>gw_ICallbacks := callbacks\<rparr>)
   }"

definition gu_data_reset :: "'k usb_lib \<Rightarrow> ptr \<Rightarrow> 'k gu_world \<Rightarrow> ptr \<Rightarrow> ('k gu_world \<times> ptr) option" where
  "gu_data_reset lib pointer w u = do {
     w1 \<leftarrow> (if u \<noteq> nullptr then Option.bind (load (gw_data w) u) (\<lambda>m. gu_destroy lib m w) else Some w);
     (data, u1) \<leftarrow> up_reset pointer (gw_data w1) u;
     Some (w1\<lparr>gw_data := data\<rparr>, u1)
   }"

definition gu_setUserData :: "'k usb_lib \<Rightarrow> ptr \<Rightarrow> ptr \<Rightarrow> 'k gu_world \<Rightarrow> 'k gu_world option" where
  "gu_setUserData lib self destructable w = do {
     c \<leftarrow> load (gw_contexts w) self;
     (w1, u) \<leftarrow> gu_data_reset lib destructable w (gu_mUserData c);
     cs \<leftarrow> modify (gw_contexts w1) self (\<lambda>c. c\<lparr>gu_mUserData := u\<rparr>);
     Some (w1\<lparr>gw_contexts := cs\<rparr>)
   }"

text \<open>The destructor of a context: the member \<open>d\<close>, then the base class.\<close>

definition gu_dc_destroy :: "'k usb_lib \<Rightarrow> ptr \<Rightarrow> 'k gu_world \<Rightarrow> 'k gu_world option" where
  "gu_dc_destroy lib self w = do {
     c \<leftarrow> load (gw_contexts w) self;
     p \<leftarrow> getUsbContext w self;
     cs \<leftarrow> modify (gw_contexts w) self (\<lambda>c. c\<lparr>gu_mUsbContext := Destroyed\<rparr>);
     (w1, _) \<leftarrow> gu_data_reset lib nullptr (w\<lparr>gw_lib := lc_destroy lib p (gw_lib w), gw_contexts := cs\<rparr>) (gu_mUserData c);
     cs1 \<leftarrow> free (gw_contexts w1) self;
     Some (w1\<lparr>gw_contexts := cs1\<rparr>)
   }"

definition gu_ZqOnLoad :: "'k usb_lib \<Rightarrow> usb_id memory \<Rightarrow> nat \<Rightarrow> ptr \<Rightarrow> 'k gu_world \<Rightarrow> 'k gu_world option" where
  "gu_ZqOnLoad lib mv g_usb_ids pointer w = do {
     let (callbacks, callback) = makeUnique () (gw_ICallbacks w);
     (maybe, callback1, w1) \<leftarrow> gu_Create lib mv g_usb_ids pointer callback (w\<lparr>gw_ICallbacks := callbacks\<rparr>);
     (callbacks1, _) \<leftarrow> up_destroy (gw_ICallbacks w1) callback1;
     let w2 = w1\<lparr>gw_ICallbacks := callbacks1\<rparr>;
     (case maybe of
        Inl e \<Rightarrow> Some w2
      | Inr manager \<Rightarrow> do {
          let (deviceManager, manager1) = gu_move_construct manager;
          let (data, destructable) = makeUnique deviceManager (gw_data w2);
          w3 \<leftarrow> gu_setUserData lib pointer destructable (w2\<lparr>gw_data := data\<rparr>);
          gu_destroy lib manager1 w3
        })
   }"

definition gu_ZqOnUnload :: "ptr \<Rightarrow> 'k gu_world \<Rightarrow> 'k gu_world" where
  "gu_ZqOnUnload pointer w = w"

text \<open>\<open>main\<close>: the loop has no exit, so what follows it is not reached.\<close>

partial_function (option) gu_event_loop :: "(ptr \<Rightarrow> 'k gu_world \<Rightarrow> 'k gu_world option) \<Rightarrow> ptr \<Rightarrow> 'k gu_world \<Rightarrow> 'k gu_world option" where
  "gu_event_loop libusb_handle_events driver w = do {
     c \<leftarrow> getUsbContext w driver;
     w1 \<leftarrow> libusb_handle_events c w;
     gu_event_loop libusb_handle_events driver w1
   }"

definition gu_main ::
  "'k usb_lib \<Rightarrow> (ptr \<Rightarrow> 'k gu_world \<Rightarrow> 'k gu_world option) \<Rightarrow> usb_id memory \<Rightarrow> nat \<Rightarrow> 'k gu_world
     \<Rightarrow> (int \<times> 'k gu_world) option" where
  "gu_main lib libusb_handle_events mv g_usb_ids w =
     (case gu_dc_Create lib (gw_lib w) of
        (Inl e, k) \<Rightarrow> Some (e, w\<lparr>gw_lib := k\<rparr>)
      | (Inr context, k) \<Rightarrow> do {
          let (a, contexts) = new (gw_contexts w) context;
          w1 \<leftarrow> gu_ZqOnLoad lib mv g_usb_ids (Some a) (w\<lparr>gw_lib := k, gw_contexts := contexts\<rparr>);
          w2 \<leftarrow> gu_event_loop libusb_handle_events (Some a) w1;
          w3 \<leftarrow> gu_dc_destroy lib (Some a) (gu_ZqOnUnload (Some a) w2);
          Some (0, w3)
        })"

section \<open>Loading and unloading on Linux\<close>

text \<open>
  What is documented of the kernel: \<open>reg\<close> gives the registered drivers; setting the data of an interface
  does not change them; registering, and unregistering when there is no device, change nothing else.
\<close>

definition kernel_documented :: "('i, 'k) linux_usb \<Rightarrow> ('k \<Rightarrow> nat set) \<Rightarrow> bool" where
  "kernel_documented lu reg \<longleftrightarrow> data_documented lu \<and> register_documented lu (\<lambda>w. reg (uw_kernel w))
     \<and> (\<forall>i p k. reg (ZqLinuxUsbSetInterfaceData lu i p k) = reg k)
     \<and> (\<forall>name arg w p w'. ZqLinuxUsbRegisterDevice lu name arg w = (p, w') \<longrightarrow> w' = w\<lparr>uw_kernel := uw_kernel w'\<rparr>)
     \<and> (\<forall>a w w'. ZqLinuxUsbUnregisterDevice lu a w = Some w' \<longrightarrow> live_objects (uw_devices w) = {} \<longrightarrow>
          w' = w\<lparr>uw_kernel := uw_kernel w'\<rparr>)"

lemma usb_run_reg:
  assumes "\<forall>i p k. reg (ZqLinuxUsbSetInterfaceData lu i p k) = reg k" "usb_run lu argument es w = Some w'"
  shows "reg (uw_kernel w') = reg (uw_kernel w)"
  using assms(2)
proof (induction es arbitrary: w)
  case (Cons e es)
  then show ?case using assms(1)
    by (cases e) (auto simp: bind_Some_iff lu_onProbe_def lu_onDisconnect_def callback_call_def up_release_def Let_def split: prod.splits)
qed simp

definition idle :: "'k driver_world \<Rightarrow> bool" where
  "idle w \<longleftrightarrow> dw_contexts w = empty_heap \<and> dw_data w = empty_heap \<and> uw_callbacks (dw_usb w) = empty_heap
     \<and> uw_devices (dw_usb w) = empty_heap \<and> uw_calls (dw_usb w) = []"

lemma linux_init_run:
  assumes "idle w"
    and r: "ZqLinuxUsbRegisterDevice lu ''MyUsbDeviceTest '' (Some 0) ((dw_usb w)\<lparr>uw_callbacks := snd (new empty_heap ())\<rparr>) = (p, usb)"
  shows "linux_init lu w = Some \<lparr>dw_contexts = snd (new empty_heap \<lparr>mUserData = Some 0\<rparr>),
    dw_data = snd (new empty_heap \<lparr>um_mDriver = cn_construct p (), um_mCallback = Some 0\<rparr>),
    dw_usb = usb, g_private_data_ptr = Some 0\<rparr>"
proof -
  have i: "dw_contexts w = empty_heap" "dw_data w = empty_heap" "uw_callbacks (dw_usb w) = empty_heap"
    using assms(1) by (simp_all add: idle_def)
  have r': "ZqLinuxUsbRegisterDevice lu ''MyUsbDeviceTest '' (Some 0)
      ((dw_usb w)\<lparr>uw_callbacks := \<lparr>cells = [0 \<mapsto> ()], brk = Suc 0\<rparr>\<rparr>) = (p, usb)"
    using r by (simp add: new_def empty_heap_def)
  show ?thesis
    using i r'
    by (simp add: linux_init_def CppForwardOnLoad_def dc_Create_def up_null_def ZqOnLoad_def makeUnique_def new_def
        empty_heap_def lu_Create_def cn_construct_def lu_move_construct_def cn_move_construct_def up_move_construct_def
        ac_setUserData_def data_reset_def up_reset_def modify_Some lu_destroy_def up_destroy_def cn_destroy_def
        driver_deleter_def Let_def)
qed

lemma linux_exit_run:
  assumes "cells (uw_callbacks usb) 0 = Some ()"
    and u: "driver_deleter lu () p (usb\<lparr>uw_callbacks := (uw_callbacks usb)\<lparr>cells := (cells (uw_callbacks usb))(0 := None)\<rparr>\<rparr>) = Some usb'"
  shows "linux_exit lu \<lparr>dw_contexts = snd (new empty_heap \<lparr>mUserData = Some 0\<rparr>),
    dw_data = snd (new empty_heap \<lparr>um_mDriver = cn_construct p (), um_mCallback = Some 0\<rparr>),
    dw_usb = usb, g_private_data_ptr = Some 0\<rparr>
    = Some \<lparr>dw_contexts = empty_heap\<lparr>brk := 1\<rparr>, dw_data = empty_heap\<lparr>brk := 1\<rparr>, dw_usb = usb', g_private_data_ptr = Some 0\<rparr>"
  using assms
  by (simp add: linux_exit_def CppForwardOnUnload_def ZqOnUnload_def dc_delete_def new_def empty_heap_def data_reset_def
      lu_destroy_def up_destroy_def up_reset_def free_Some cn_destroy_def cn_construct_def fun_upd_idem)

lemma driver_unregister:
  assumes "kernel_documented lu reg" and "set_option p \<subseteq> reg (uw_kernel w)" and "live_objects (uw_devices w) = {}"
  shows "\<exists>w'. driver_deleter lu () p w = Some w' \<and> reg (uw_kernel w') = reg (uw_kernel w) - set_option p
    \<and> uw_devices w' = uw_devices w \<and> uw_callbacks w' = uw_callbacks w"
proof (cases p)
  case None
  then show ?thesis by (simp add: driver_deleter_def)
next
  case (Some a)
  note k = assms(1) [unfolded kernel_documented_def]
  note doc = k [THEN conjunct2, THEN conjunct1] and keep = k [THEN conjunct2, THEN conjunct2, THEN conjunct2, THEN conjunct2, rule_format]
  from Some assms(2) have "a \<in> reg (uw_kernel w)" by simp
  then obtain w' where w': "ZqLinuxUsbUnregisterDevice lu (Some a) w = Some w'" "reg (uw_kernel w') = reg (uw_kernel w) - {a}"
    using doc [unfolded register_documented_def, THEN conjunct2, rule_format] by blast
  have "w' = w\<lparr>uw_kernel := uw_kernel w'\<rparr>" by (rule keep [OF w'(1) assms(3)])
  then have "uw_devices w' = uw_devices w \<and> uw_callbacks w' = uw_callbacks w" by (cases w, cases w') simp
  then show ?thesis using w' Some by (simp add: driver_deleter_def)
qed

section \<open>Properties\<close>


text \<open>The event loop never ends, and the user mode driver's load function.\<close>

lemma gu_event_loop_none: "gu_event_loop handle driver w = None"
proof -
  have "gu_event_loop handle driver w = Some y \<Longrightarrow> False" for y
    by (rule gu_event_loop.raw_induct [of "\<lambda>handle driver w y. False"]) (auto simp: bind_Some_iff)
  then show ?thesis by (cases "gu_event_loop handle driver w") auto
qed

definition gu_idle :: "'k gu_world \<Rightarrow> bool" where
  "gu_idle w \<longleftrightarrow> gw_contexts w = empty_heap \<and> gw_data w = empty_heap \<and> gw_ICallbacks w = empty_heap"

abbreviation gu_started :: "'k gu_world \<Rightarrow> nat \<Rightarrow> 'k \<Rightarrow> 'k gu_world" where
  "gu_started w c k \<equiv> w\<lparr>gw_lib := k, gw_contexts := snd (new (gw_contexts w) \<lparr>gu_mUserData = up_null, gu_mUsbContext = Alive (Some c)\<rparr>)\<rparr>"

lemma GetUsbIds_at:
  assumes "cells mv g = Some [Live usbID]"
  shows "ra_at mv (GetUsbIds g) 0 = Some usbID" and "ra_at mv (GetUsbIds g) 1 = None" and "ra_size (GetUsbIds g) = 16"
  using assms by (simp_all add: ra_at_def GetUsbIds_def ra_construct_def ra_size_def ZQ_ARRAY_LENGTH_def)

lemma hotplug_deleter_run:
  assumes "cells (gw_contexts w) a = Some ctx" and "gu_mUsbContext ctx = Alive p"
  shows "hotplug_deleter lib (Some a) handle w = Some (w\<lparr>gw_lib := libusb_hotplug_deregister_callback lib p handle (gw_lib w)\<rparr>)"
  using assms by (simp add: hotplug_deleter_def getUsbContext_def)

lemma gu_Create_run:
  assumes ctx: "cells (gw_contexts w) a = Some ctx" "gu_mUsbContext ctx = Alive p"
    and id: "cells mv g = Some [Live (vendor, product)]"
    and r: "libusb_hotplug_register_callback lib p vendor product callback (gw_lib w) = (Inr handle, k1)"
  shows "\<exists>k2. gu_Create lib mv g (Some a) callback w
    = Some (Inr \<lparr>gu_mHotplugHandle = cn_construct handle (Some a), gu_mHotplugCallback = callback\<rparr>, nullptr, w\<lparr>gw_lib := k2\<rparr>)"
  using r GetUsbIds_at(1) [OF id] hotplug_deleter_run [of _ a ctx p lib 0] ctx
  by (simp add: gu_Create_def getUsbContext_def cn_construct_def cn_move_construct_def up_move_construct_def cn_destroy_def)
    (rule exI, rule refl)

lemma gu_setUserData_run:
  assumes "cells (gw_contexts w) a = Some ctx" and "gu_mUserData ctx = nullptr"
  shows "gu_setUserData lib (Some a) p w
    = Some (w\<lparr>gw_contexts := (gw_contexts w)\<lparr>cells := (cells (gw_contexts w))(a \<mapsto> ctx\<lparr>gu_mUserData := p\<rparr>)\<rparr>\<rparr>)"
  using assms by (simp add: gu_setUserData_def gu_data_reset_def up_reset_def modify_Some)

lemma gu_destroy_moved:
  assumes "cells (gw_contexts w) a = Some ctx" and "gu_mUsbContext ctx = Alive p"
  shows "gu_destroy lib (snd (gu_move_construct \<lparr>gu_mHotplugHandle = cn_construct handle (Some a), gu_mHotplugCallback = callback\<rparr>)) w
    = Some (w\<lparr>gw_lib := libusb_hotplug_deregister_callback lib p 0 (gw_lib w)\<rparr>)"
  using hotplug_deleter_run [OF assms, of lib 0]
  by (simp add: gu_destroy_def gu_move_construct_def cn_construct_def cn_move_construct_def up_move_construct_def
      cn_destroy_def up_destroy_def up_reset_def)

lemma gu_load_ok:
  assumes "gu_idle w" and id: "cells mv g = Some [Live (vendor, product)]"
    and r: "libusb_hotplug_register_callback lib (Some c) vendor product (Some 0) k = (Inr handle, k1)"
  shows "\<exists>k2. gu_ZqOnLoad lib mv g (Some 0) (gu_started w c k)
    = Some \<lparr>gw_contexts = snd (new empty_heap \<lparr>gu_mUserData = Some 0, gu_mUsbContext = Alive (Some c)\<rparr>),
        gw_data = snd (new empty_heap \<lparr>gu_mHotplugHandle = cn_construct handle (Some 0), gu_mHotplugCallback = Some 0\<rparr>),
        gw_ICallbacks = snd (new empty_heap ()), gw_lib = k2\<rparr>"
proof -
  let ?ctx = "\<lparr>gu_mUserData = nullptr, gu_mUsbContext = Alive (Some c)\<rparr>"
  let ?m = "\<lparr>gu_mHotplugHandle = cn_construct handle (Some 0), gu_mHotplugCallback = Some 0\<rparr>"
  let ?w = "\<lparr>gw_contexts = snd (new empty_heap ?ctx), gw_data = empty_heap, gw_ICallbacks = snd (new empty_heap ()), gw_lib = k\<rparr>"
  have started: "(gu_started w c k)\<lparr>gw_ICallbacks := snd (new empty_heap ())\<rparr> = ?w" "gw_ICallbacks w = empty_heap"
    using assms(1) by (cases w, simp add: gu_idle_def up_null_def)+
  obtain k2 where create: "gu_Create lib mv g (Some 0) (Some 0) ?w = Some (Inr ?m, nullptr, ?w\<lparr>gw_lib := k2\<rparr>)"
    using gu_Create_run [of ?w 0 ?ctx "Some c" mv g vendor product lib "Some 0" handle k1] id r
    by (auto simp: new_def empty_heap_def)
  let ?w2 = "?w\<lparr>gw_lib := k2, gw_data := snd (new empty_heap ?m)\<rparr>"
  let ?w3 = "?w2\<lparr>gw_contexts := snd (new empty_heap \<lparr>gu_mUserData = Some 0, gu_mUsbContext = Alive (Some c)\<rparr>)\<rparr>"
  have set: "gu_setUserData lib (Some 0) (Some 0) ?w2 = Some ?w3"
    using gu_setUserData_run [of ?w2 0 ?ctx lib "Some 0"] by (simp add: new_def empty_heap_def)
  have moved: "gu_destroy lib (snd (gu_move_construct ?m)) ?w3
      = Some (?w3\<lparr>gw_lib := libusb_hotplug_deregister_callback lib (Some c) 0 (gw_lib ?w3)\<rparr>)"
    by (rule gu_destroy_moved [of _ 0 "\<lparr>gu_mUserData = Some 0, gu_mUsbContext = Alive (Some c)\<rparr>"]) (simp_all add: new_def empty_heap_def)
  have first: "fst (gu_move_construct ?m) = ?m"
    by (simp add: gu_move_construct_def cn_construct_def cn_move_construct_def up_move_construct_def)
  have unit: "makeUnique () empty_heap = (snd (new empty_heap ()), Some 0)" "makeUnique ?m empty_heap = (snd (new empty_heap ?m), Some 0)"
    by (simp_all add: makeUnique_def new_def empty_heap_def)
  have "gu_ZqOnLoad lib mv g (Some 0) (gu_started w c k) = gu_destroy lib (snd (gu_move_construct ?m)) ?w3"
    using create set first started unit by (simp add: gu_ZqOnLoad_def up_destroy_def up_reset_def split_beta Let_def)
  then show ?thesis using moved by simp
qed

lemma gu_load_error:
  assumes "gu_idle w" and id: "cells mv g = Some [Live (vendor, product)]"
    and r: "libusb_hotplug_register_callback lib (Some c) vendor product (Some 0) k = (Inl e, k1)"
  shows "gu_ZqOnLoad lib mv g (Some 0) (gu_started w c k)
    = Some \<lparr>gw_contexts = snd (new empty_heap \<lparr>gu_mUserData = up_null, gu_mUsbContext = Alive (Some c)\<rparr>),
        gw_data = empty_heap, gw_ICallbacks = empty_heap\<lparr>brk := 1\<rparr>, gw_lib = k1\<rparr>"
  using assms(1) r GetUsbIds_at(1) [OF id]
  by (cases w)
    (simp add: gu_idle_def gu_ZqOnLoad_def makeUnique_def new_def empty_heap_def gu_Create_def getUsbContext_def
      up_destroy_def up_reset_def free_Some fun_upd_idem up_null_def Let_def)


section \<open>Instances\<close>

definition sample_driver_world :: "((nat \<Rightarrow> ptr) \<times> bool) driver_world" where
  "sample_driver_world = \<lparr>dw_contexts = empty_heap, dw_data = empty_heap,
     dw_usb = sample_world\<lparr>uw_callbacks := empty_heap\<rparr>, g_private_data_ptr = nullptr\<rparr>"



end
