(* ===== verification/EndToEnd.thy ===== *)
theory EndToEnd
  imports KernelSockets Messages Pointers
begin

text \<open>
  A message on its way: from the message (Core/Protocol/Message.hpp) through \<open>sendMessage\<close> and the output
  vector of a TCP stream to \<open>kernel_sendmsg\<close> of Linux, and from \<open>kernel_recvmsg\<close> through the input
  vector of the other end to \<open>receiveMessage\<close>; with the messages by their type, the members of
  Network/TcpStream that this needs, and Network/UdpServer. The two getters of \<open>TcpStream\<close> that are to hand its
  vectors to a message stream have empty bodies; here the message stream has them.
\<close>

section \<open>Messages by type\<close>

text \<open>\<open>MessageWithType<type, MessageType>\<close> gives its constructor's arguments to that of \<open>MessageType\<close>, behind the type.\<close>

definition MessageWithType :: "message_type \<Rightarrow> (16 word \<Rightarrow> 'x \<Rightarrow> 'm) \<Rightarrow> 'x \<Rightarrow> 'm" where
  "MessageWithType type construct args = construct (type_code type) args"

definition tm_construct :: "16 word \<Rightarrow> 64 word \<Rightarrow> thread_message" where
  "tm_construct type threadID = \<lparr>mMessageType = type, mThreadID = threadID\<rparr>"

text \<open>The vector of identifiers by its elements; \<open>ProcessThreads\<close> has the vector itself.\<close>

definition tms_of_ids :: "16 word \<Rightarrow> 64 word list \<Rightarrow> threads_message" where
  "tms_of_ids type threadIDs = \<lparr>mMessageType = type, mThreadIDs = threadIDs\<rparr>"

definition ContiniueThreadMessage :: "64 word \<Rightarrow> thread_message" where
  "ContiniueThreadMessage = MessageWithType ContinueThread tm_construct"

definition ContiniueThreadOKMessage :: "64 word \<Rightarrow> thread_message" where
  "ContiniueThreadOKMessage = MessageWithType ContinueThreadOK tm_construct"

definition KillThreadMessage :: "64 word \<Rightarrow> thread_message" where
  "KillThreadMessage = MessageWithType KillThread tm_construct"

definition KillThreadOKMessage :: "64 word \<Rightarrow> thread_message" where
  "KillThreadOKMessage = MessageWithType KillThreadOK tm_construct"

definition StopThreadMessage :: "64 word \<Rightarrow> thread_message" where
  "StopThreadMessage = MessageWithType StopThread tm_construct"

definition StopThreadOKMessage :: "64 word \<Rightarrow> thread_message" where
  "StopThreadOKMessage = MessageWithType StopThreadOK tm_construct"

definition ProcessPeerHelloMessage :: "64 word list \<Rightarrow> threads_message" where
  "ProcessPeerHelloMessage = MessageWithType ProcessPeerHello tms_of_ids"

definition ProcessPeerGoodbyeMessage :: "64 word list \<Rightarrow> threads_message" where
  "ProcessPeerGoodbyeMessage = MessageWithType ProcessPeerGoodbye tms_of_ids"

datatype operating_system_config = Linux_4 | WindowsNT_10
datatype machine_configuration = x86_Intel | x64_Intel

record thread_info_message =
  mOperatingSystem :: operating_system_config
  mMachineConfig :: machine_configuration

text \<open>Both enums are over 16 bit integers.\<close>

definition mti_writableSize :: "thread_info_message \<Rightarrow> size_t" where
  "mti_writableSize m = 2 + 2"

section \<open>TcpStream and UdpServer\<close>

definition ts_construct :: "'h socket \<Rightarrow> 'a \<times> port \<Rightarrow> ('h, 'a) tcp_stream \<times> 'h socket" where
  "ts_construct readySocket addressAndPort =
     (let (s, readySocket1) = so_move_construct readySocket
      in (\<lparr>ts_socket = s, mStreamAddressAndPort = addressAndPort\<rparr>, readySocket1))"

definition ts_sendRawPacket :: "('h, 'a, 'os) socket_os \<Rightarrow> ('h, 'a) tcp_stream \<Rightarrow> byte list \<Rightarrow> 'os \<Rightarrow> 'os" where
  "ts_sendRawPacket api st data os = snd (so_send api (ts_socket st) data os)"

definition ti_receiveData ::
  "('h, 'a, 'os) socket_os \<Rightarrow> ('h, 'a) tcp_stream \<Rightarrow> 'os \<Rightarrow> (Streams.receive_error + byte list) \<times> 'os" where
  "ti_receiveData api st = ts_receiveRawPacket api st"

fun ts_socketReceiveErrorToError :: "Sockets.receive_error \<Rightarrow> Streams.receive_error" where
  "ts_socketReceiveErrorToError Sockets.Disconnected = Streams.Other"
| "ts_socketReceiveErrorToError Sockets.Other = Streams.Other"
| "ts_socketReceiveErrorToError Sockets.Timeout = Streams.Timeout"

lemma ts_members:
  "ts_receiveRawPacket api st os = (case so_receive api (ts_socket st) os of
     (Inl e, os1) \<Rightarrow> (Inl (ts_socketReceiveErrorToError e), os1) | (Inr bs, os1) \<Rightarrow> (Inr bs, os1))"
  "to_sendCurrentSegment api st (o1, os) =
     Some (o1\<lparr>os_vector := ev_setEnd 0 (ev_setBegin 0 (os_vector o1))\<rparr>, ts_sendRawPacket api st (ev_vector (os_vector o1)) os)"
proof -
  have "ts_socketReceiveErrorToError e = socketReceiveErrorToError e" for e by (cases e) simp_all
  then show "ts_receiveRawPacket api st os = (case so_receive api (ts_socket st) os of
     (Inl e, os1) \<Rightarrow> (Inl (ts_socketReceiveErrorToError e), os1) | (Inr bs, os1) \<Rightarrow> (Inr bs, os1))"
    by (simp add: ts_receiveRawPacket_def split: prod.splits sum.splits)
qed (simp add: to_sendCurrentSegment_def ts_sendRawPacket_def split: prod.splits)

text \<open>A UDP server is a shared pointer to its socket, which the server has taken from its maker.\<close>

definition usv_construct :: "'h socket \<Rightarrow> 'h socket sp_heap \<Rightarrow> 'h socket sp_heap \<times> shared_pointer \<times> 'h socket" where
  "usv_construct listeningSocket h =
     (let (s, listeningSocket1) = so_move_construct listeningSocket; (h1, mSocket) = makeShared s h
      in (h1, mSocket, listeningSocket1))"

definition usv_Listen ::
  "('h, 'a, 'os) socket_os \<Rightarrow> size_t \<Rightarrow> 'a \<Rightarrow> port \<Rightarrow> 'h socket sp_heap \<Rightarrow> 'os
     \<Rightarrow> (unit + shared_pointer) \<times> 'h socket sp_heap \<times> 'os" where
  "usv_Listen api sizeof_in6 address p h os =
     (case so_Bind api (sa_CreateIn6 sizeof_in6 address p) Datagram 0 os of
        (Inl _, os1) \<Rightarrow> (Inl (), h, os1)
      | (Inr s, os1) \<Rightarrow> (let (h1, server, _) = usv_construct s h in (Inr server, h1, os1)))"

definition usv_CreateFromStream ::
  "('h, 'a) udp_stream \<Rightarrow> 'h socket sp_heap \<Rightarrow> 'h socket sp_heap \<times> shared_pointer \<times> ('h, 'a) udp_stream" where
  "usv_CreateFromStream st h =
     (let (h1, server, s1) = usv_construct (us_socket st) h in (h1, server, st\<lparr>us_socket := s1\<rparr>))"

lemma usv_CreateFromStream_run:
  "usv_CreateFromStream st h = (h1, server, st1) \<Longrightarrow>
     load (objects h1) (sp_mPointer server) = Some (us_socket st) \<and> us_socket st1 = None"
  by (auto simp: usv_CreateFromStream_def usv_construct_def so_move_construct_def makeShared_def sp_of_def new_def)

section \<open>A message stream over TCP\<close>

text \<open>The output vector of the stream, with the kernel; and its end of a connection.\<close>

definition tcp_send ::
  "('h, 'a, 'k) socket_os \<Rightarrow> ('h, 'a) tcp_stream \<Rightarrow> threads_message \<Rightarrow> output_stream \<times> 'k \<Rightarrow> (output_stream \<times> 'k) option" where
  "tcp_send api st =
     ms_sendMessage (tms_writeToWriter fst (\<lambda>b s. (b, snd s)) (to_sendCurrentSegment api st)) (to_sendCurrentSegment api st)"

definition tcp_receive ::
  "('h, 'a, 'k) socket_os \<Rightarrow> ('h, 'a) tcp_stream \<Rightarrow> 'k \<Rightarrow> input_stream
     \<Rightarrow> ((receive_message_error + 16 word) \<times> 'k \<times> input_stream) option" where
  "tcp_receive api st = ms_receiveMessage (ti_receiveData api st)"

text \<open>The bytes of a message.\<close>

definition tms_bytes :: "threads_message \<Rightarrow> byte list" where
  "tms_bytes m = enc_bytes (be_write16 (mMessageType m)) @ fields_bytes LittleEndianFieldWriter (tms_fields m)"

lemma tms_bytes_length: "length (tms_bytes m) = 4 + 8 * length (mThreadIDs m)"
  by (simp add: tms_bytes_def tms_fields_def fields_bytes_cons16 length_fields_bytes_ids)

lemma mySizeOfArgs_LE: "mySizeOfArgs fs = of_nat (length (fields_bytes LittleEndianFieldWriter fs))"
  unfolding LittleEndianFieldWriter_def by (rule mySizeOfArgs_bytes) simp

text \<open>Expanding a window that is empty at the begin of its vector.\<close>

lemma expand_empty:
  assumes "0 < n" and "length old + n < 2 ^ 64"
  shows "ev_expand 0 (of_nat n) \<lparr>ev_vector = old, mIndexBegin = 0, mIndexEnd = 0\<rparr> =
    (if n \<le> length old then \<lparr>ev_vector = old, mIndexBegin = 0, mIndexEnd = of_nat (length old - n)\<rparr>
     else \<lparr>ev_vector = old @ replicate n (0 :: byte), mIndexBegin = 0, mIndexEnd = 0\<rparr>)"
proof -
  let ?n = "of_nat n :: size_t" and ?o = "of_nat (length old) :: size_t"
  have u: "unat ?n = n" "unat ?o = length old" using assms by (auto intro!: unat_of_nat_small)
  have le: "?n \<le> ?o \<longleftrightarrow> n \<le> length old" using u by (simp add: word_le_nat_alt)
  have pos: "0 < ?n" using u assms(1) by (simp add: word_less_nat_alt)
  show ?thesis
  proof (cases "n \<le> length old")
    case True
    then have m: "min ?n ?o = ?n" "?o \<noteq> 0" using le pos by (auto simp: min_def)
    then show ?thesis using True by (simp add: ev_expand_def ev_size_def Let_def of_nat_diff)
  next
    case False
    then have m: "min ?n ?o = ?o" using le by (simp add: min_def)
    have "0 < ?n - ?o" using False le by (metis linorder_not_le right_minus_eq word_gt_0 order_refl)
    then show ?thesis using False m u(1) pos by (simp add: ev_expand_def ev_size_def Let_def)
  qed
qed

text \<open>What a vector that held \<open>old\<close> holds behind a message of \<open>n\<close> bytes.\<close>

definition trailing :: "nat \<Rightarrow> byte list \<Rightarrow> byte list" where
  "trailing n old = (if length old < n then replicate (length old) 0
     else drop n old @ (if length old = Suc n then [0] else []))"

lemma expand_two:
  assumes "unat e < 2" and "4 \<le> length old" and "length old < 2 ^ 64"
  shows "ev_expand 0 (2 - e) \<lparr>ev_vector = old, mIndexBegin = 0, mIndexEnd = e\<rparr> =
    \<lparr>ev_vector = old @ (if e = 0 then [] else [0 :: byte]), mIndexBegin = 0, mIndexEnd = of_nat (length old) - e - (2 - e)\<rparr>"
proof -
  let ?o = "of_nat (length old) :: size_t"
  have u: "unat ?o = length old" using assms(3) by (rule unat_of_nat_small)
  have e: "e = 0 \<or> e = 1" using assms(1) by (auto simp: word_unat_eq_iff)
  have "e \<noteq> ?o" using u assms by auto
  moreover have "min (2 - e) (?o - e) = 2 - e"
  proof -
    have "2 \<le> ?o" "1 \<le> ?o" using u assms(2) by (simp_all add: word_le_nat_alt)
    then show ?thesis using e u assms(2) by (auto simp: min_def word_le_nat_alt unat_sub)
  qed
  ultimately show ?thesis using e by (auto simp: ev_expand_def ev_size_def Let_def)
qed

lemma os_writeT_run:
  "(if os_size (base s) < mySizeOfArgs fs then os_expand base setBase send (mySizeOfArgs fs - os_size (base s)) s else Some s)
     = Some s1 \<Longrightarrow> fw_writeAll w fs (os_vector (base s1)) = Some v \<Longrightarrow>
   os_writeT base setBase send w fs s = Some (setBase ((base s1)\<lparr>os_vector := v\<rparr>) s1)"
  by (simp add: os_writeT_def Let_def)

lemma tms_writeToWriter_run:
  assumes auto: "2 \<le> auto" and len: "length old + length (tms_bytes m) < 2 ^ 64"
  shows "\<exists>e. tms_writeToWriter fst (\<lambda>b s. (b, snd s)) send m
      (\<lparr>os_vector = \<lparr>ev_vector = old, mIndexBegin = 0, mIndexEnd = 0\<rparr>, mAutoSendDataSize = auto\<rparr>, k) =
    Some (\<lparr>os_vector = \<lparr>ev_vector = tms_bytes m @ trailing (length (tms_bytes m)) old,
        mIndexBegin = of_nat (length (tms_bytes m)), mIndexEnd = e\<rparr>, mAutoSendDataSize = auto\<rparr>, k)"
proof -
  let ?n = "length (tms_bytes m)" and ?fs = "tms_fields m"
  let ?ty = "enc_bytes (be_write16 (mMessageType m))" and ?bs = "fields_bytes LittleEndianFieldWriter (tms_fields m)"
  have n4: "4 \<le> ?n" and n0: "0 < ?n" by (simp_all add: tms_bytes_length)
  have nb: "?n = 2 + length ?bs" by (simp add: tms_bytes_def)
  have args: "2 + mySizeOfArgs ?fs = of_nat ?n" by (simp add: mySizeOfArgs_LE nb)
  have u: "unat (of_nat ?n :: size_t) = ?n" using len by (intro unat_of_nat_small) linarith
  have pos: "0 < (of_nat ?n :: size_t)" "auto \<noteq> 0" using u n4 auto by (auto simp: word_less_nat_alt word_le_nat_alt)
  let ?st = "\<lambda>v e. (\<lparr>os_vector = \<lparr>ev_vector = v, mIndexBegin = 0, mIndexEnd = e\<rparr>, mAutoSendDataSize = auto\<rparr>, k)"
  define v where "v = (if ?n \<le> length old then old else old @ replicate ?n 0)"
  define e :: size_t where "e = (if ?n \<le> length old then of_nat (length old - ?n) else 0)"
  have ex: "os_expand fst (\<lambda>b s. (b, snd s)) send (of_nat ?n) (?st old 0) = Some (?st v e)"
    using expand_empty [OF n0 len] pos
    by (cases "?n \<le> length old") (simp_all add: os_expand_def os_isAutoSendSizePassed_def ev_size_def v_def e_def)
  have vl: "?n \<le> length v" "length v < 2 ^ 64" using len by (auto simp: v_def)
  have ue: "unat e = (if ?n \<le> length old then length old - ?n else 0)"
  proof -
    have "unat (of_nat (length old - ?n) :: size_t) = length old - ?n" using len by (intro unat_of_nat_small) linarith
    then show ?thesis by (simp add: e_def del: of_nat_diff)
  qed
  define w where "w = v @ (if unat e = 1 then [0] else [])"
  have wl: "?n \<le> length w" "length w < 2 ^ 64" using vl len n4 ue by (auto simp: w_def v_def split: if_splits)
  have w: "w = take ?n w @ trailing ?n old"
    using ue by (auto simp: w_def v_def trailing_def simp flip: replicate_add split: if_splits)
  have pass: "\<exists>e2. (if e < 2 then os_expand fst (\<lambda>b s. (b, snd s)) send (2 - e) (?st v e) else Some (?st v e)) = Some (?st w e2)"
  proof (cases "e < 2")
    case True
    then have e2: "unat e < 2" by (simp add: word_less_nat_alt)
    have "\<not> auto \<le> e" using True auto by (meson linorder_not_le order_less_le_trans)
    moreover have "e \<noteq> 0 \<longleftrightarrow> unat e = 1" using e2 by (auto simp: word_unat_eq_iff)
    ultimately show ?thesis using expand_two [OF e2, of v] True vl n4
      by (auto simp: os_expand_def os_isAutoSendSizePassed_def ev_size_def w_def)
  next
    case False
    then have "unat e \<noteq> 1" by (auto simp: word_less_nat_alt)
    then show ?thesis using False by (simp add: w_def)
  qed
  then obtain e2 where e2: "(if e < 2 then os_expand fst (\<lambda>b s. (b, snd s)) send (2 - e) (?st v e) else Some (?st v e)) = Some (?st w e2)"
    by blast
  let ?ev = "\<lparr>ev_vector = w, mIndexBegin = 0, mIndexEnd = e2\<rparr>"
  let ?rest = "drop 2 (take ?n w) @ trailing ?n old"
  have "take 2 (take ?n w) = take 2 w" using n4 by (simp add: min_def)
  then have "take 2 w @ drop 2 (take ?n w) = take ?n w" by (metis append_take_drop_id)
  then have "take 2 w @ ?rest = w" using w by (metis append.assoc)
  then have a: "at_window ?ev [] (take 2 w @ ?rest)" using wl(2) by (simp add: at_window_def)
  have LE: "LittleEndianFieldWriter = BigEndianWriter \<or> LittleEndianFieldWriter = LittleEndianWriter"
    by (simp add: LittleEndianFieldWriter_def)
  have tyb: "fields_bytes LittleEndianFieldWriter [F16 (mMessageType m)] = ?ty"
    by (simp add: fields_bytes_cons16) (simp add: fields_bytes_def)
  have wt: "fw_writeAll LittleEndianFieldWriter [F16 (mMessageType m)] ?ev = Some (written ?ev [] ?ty ?rest)"
    using fw_writeAll_run [OF LE a, of "[F16 (mMessageType m)]"] wl n4 by (simp add: tyb)
  have "at_window (written ?ev [] ?ty ?rest) ([] @ ?ty) ?rest"
    using wl n4 by (intro written_at_window [OF a]) simp
  from fw_writeAll_run [OF LE this, of ?fs] have wf: "fw_writeAll LittleEndianFieldWriter ?fs (written ?ev [] ?ty ?rest)
      = Some (written (written ?ev [] ?ty ?rest) ([] @ ?ty) ?bs (trailing ?n old))"
    using wl nb by simp
  have e2': "(if os_size (fst (?st v e)) < mySizeOfArgs [F16 (mMessageType m)]
      then os_expand fst (\<lambda>b s. (b, snd s)) send (mySizeOfArgs [F16 (mMessageType m)] - os_size (fst (?st v e))) (?st v e)
      else Some (?st v e)) = Some (?st w e2)"
    using e2 by (simp add: os_size_def ev_size_def split: if_splits)
  have wt': "fw_writeAll LittleEndianFieldWriter [F16 (mMessageType m)] (os_vector (fst (?st w e2))) = Some (written ?ev [] ?ty ?rest)"
    using wt by (simp del: fw_writeAll.simps)
  have "me_writeToWriter fst (\<lambda>b s. (b, snd s)) send (message.truncate m) (?st v e)
      = Some (\<lparr>os_vector = written ?ev [] ?ty ?rest, mAutoSendDataSize = auto\<rparr>, k)"
    using os_writeT_run [OF e2' wt']
    by (simp add: me_writeToWriter_def message.truncate_def os_size_def ev_size_def)
  then have "tms_writeToWriter fst (\<lambda>b s. (b, snd s)) send m (?st old 0)
      = Some (\<lparr>os_vector = written (written ?ev [] ?ty ?rest) ([] @ ?ty) ?bs (trailing ?n old), mAutoSendDataSize = auto\<rparr>, k)"
    using ex wf pos by (simp add: tms_writeToWriter_def me_writeT_def args os_size_def ev_size_def)
  then show ?thesis by (simp add: written_def tms_bytes_def)
qed

text \<open>
  \<open>sendMessage\<close> gives the socket the bytes of the message, with what is behind them in the vector, and
  resets the window.
\<close>

lemma tcp_send_run:
  assumes "2 \<le> auto" and "length old + length (tms_bytes m) < 2 ^ 64"
  shows "tcp_send api st m (\<lparr>os_vector = \<lparr>ev_vector = old, mIndexBegin = 0, mIndexEnd = 0\<rparr>, mAutoSendDataSize = auto\<rparr>, k) =
    (let sent = tms_bytes m @ trailing (length (tms_bytes m)) old
     in Some (\<lparr>os_vector = \<lparr>ev_vector = sent, mIndexBegin = 0, mIndexEnd = 0\<rparr>, mAutoSendDataSize = auto\<rparr>,
              snd (so_send api (ts_socket st) sent k)))"
proof -
  obtain e where run: "tms_writeToWriter fst (\<lambda>b s. (b, snd s)) (to_sendCurrentSegment api st) m
      (\<lparr>os_vector = \<lparr>ev_vector = old, mIndexBegin = 0, mIndexEnd = 0\<rparr>, mAutoSendDataSize = auto\<rparr>, k) =
    Some (\<lparr>os_vector = \<lparr>ev_vector = tms_bytes m @ trailing (length (tms_bytes m)) old,
        mIndexBegin = of_nat (length (tms_bytes m)), mIndexEnd = e\<rparr>, mAutoSendDataSize = auto\<rparr>, k)"
    by (rule exE [OF tms_writeToWriter_run [OF assms, of "to_sendCurrentSegment api st" k]])
  show ?thesis
    unfolding tcp_send_def ms_sendMessage_def run Option.bind.bind_lunit to_sendCurrentSegment_def Let_def
    by (simp add: ev_setBegin_def ev_setEnd_def split: prod.splits)
qed

text \<open>Over UDP the same message is written out of bounds.\<close>

lemma udp_send_run:
  assumes "uo_construct auto c = Some u" and "length (tms_bytes m) < 2 ^ 63"
  shows "ms_sendMessage (tms_writeToWriter uo_base (\<lambda>b u. u\<lparr>uo_base := b\<rparr>) send) send' m u = None"
proof -
  have LE: "LittleEndianFieldWriter = BigEndianWriter \<or> LittleEndianFieldWriter = LittleEndianWriter"
    by (simp add: LittleEndianFieldWriter_def)
  let ?n = "of_nat (length (tms_bytes m)) :: size_t"
  let ?ev = "os_vector (uo_base u)"
  have ev: "mIndexBegin ?ev = 4" "mIndexEnd ?ev = 0" "length (ev_vector ?ev) = 4"
    using assms(1) by (auto simp: uo_construct_run)
  have sz: "unat (ev_size ?ev) = 2 ^ 64 - 4" using unat_neg_of_nat [of 4] ev by (simp add: ev_size_def)
  have n: "unat ?n = length (tms_bytes m)" using assms(2) by (simp add: unat_of_nat_small)
  have args: "2 + mySizeOfArgs (tms_fields m) = ?n" by (simp add: mySizeOfArgs_LE tms_bytes_def)
  have no: "\<not> ev_size ?ev < ?n" "\<not> ev_size ?ev < 2" using n sz assms(2) by (simp_all add: word_less_nat_alt)
  have "fw_writeAll LittleEndianFieldWriter [F16 (mMessageType m)] ?ev = None"
    using ev by (intro fw_writeAll_end [OF LE]) (simp_all add: fields_bytes_cons16, simp add: enc_bytes_def be_write16_def)
  then show ?thesis using no
    by (simp add: ms_sendMessage_def tms_writeToWriter_def me_writeT_def me_writeToWriter_def os_writeT_def args os_size_def
        message.truncate_def del: fw_writeAll.simps)
qed

section \<open>A connection of Linux\<close>

text \<open>
  As documented for a connected pair of sockets on which nothing is under way (\<open>quiet\<close>): the kernel
  takes all bytes of a segment and the other end gets them, in one packet.
\<close>

definition carries :: "('h, 'a, 'k) kernel_net \<Rightarrow> ('k \<Rightarrow> bool) \<Rightarrow> 'h option \<Rightarrow> 'h option \<Rightarrow> bool" where
  "carries kn quiet s peer \<longleftrightarrow>
     (\<forall>bs k. quiet k \<longrightarrow> bs \<noteq> [] \<longrightarrow> length bs < 2 ^ 31 \<longrightarrow>
        (\<exists>k1 n k2 a k3. kn_sendmsg kn s bs None k = (of_nat (length bs), k1) \<and> get_next_packet_size kn peer k1 = (n, k2)
           \<and> kn_recvmsg kn peer n (if n \<noteq> 0 then snd (kn_vmalloc kn n k2) else k2) = ((of_nat (length bs), bs, a), k3)
           \<and> quiet k3))"

lemma of_nat_positive:
  assumes "n < 2 ^ 31"
  shows "\<not> (of_nat n :: 32 word) <s 0" "unat (of_nat n :: 32 word) = n"
proof -
  show "unat (of_nat n :: 32 word) = n" using assms by (simp add: unat_of_nat)
  have "sint (of_nat n :: 32 word) = int n"
    using assms by (simp add: signed_of_nat signed_take_bit_int_eq_self)
  then show "\<not> (of_nat n :: 32 word) <s 0" by (simp add: word_sless_alt)
qed

text \<open>What the streams at both ends do with a segment.\<close>

lemma carried:
  assumes "carries kn quiet s peer" and "quiet k" and "bs \<noteq> []" "length bs < 2 ^ 31"
  shows "\<exists>k1. quiet k1 \<and> ts_receiveRawPacket (linux_sockets kn unset) \<lparr>ts_socket = peer, mStreamAddressAndPort = ap\<rparr>
      (snd (so_send (linux_sockets kn unset) s bs k)) = (Inr bs, k1)"
proof -
  obtain k1 n k2 a k3 where c: "kn_sendmsg kn s bs None k = (of_nat (length bs), k1)"
    "get_next_packet_size kn peer k1 = (n, k2)"
    "kn_recvmsg kn peer n (if n \<noteq> 0 then snd (kn_vmalloc kn n k2) else k2) = ((of_nat (length bs), bs, a), k3)" "quiet k3"
    using assms unfolding carries_def by blast
  have "snd (so_send (linux_sockets kn unset) s bs k) = k1"
    using c(1) of_nat_positive [OF assms(4)]
    by (simp add: so_send_def linux_sockets_def lx_Send_def ziqe_sendmsg_def)
  moreover have "so_receive (linux_sockets kn unset) peer k1 = (Inr bs, k3)"
    using linux_so_receive [OF c(2,3), of unset] of_nat_positive [OF assms(4)] assms(3) by simp
  ultimately show ?thesis using c(4) by (simp add: ts_receiveRawPacket_def)
qed

lemma receive_one_packet:
  assumes "receiveData k = (Inr bs, k1)" and "2 < length bs" "length bs < 2 ^ 64"
  shows "\<exists>s. ms_receiveMessage receiveData k is_new = Some (Inl ReceiveMessageOther, k1, s) \<and> is_view s = drop 2 bs"
proof -
  obtain s1 where s1: "is_receiveNewData receiveData k is_new = (True, k1, s1)" "is_ok s1" "is_view s1 = bs"
    using assms(1,3) by (auto simp: is_receiveNewData_def is_ok_def is_view_def is_new_def ev_new_def ev_ok_def ev_view_def)
  have n: "mVectorsSize s1 = of_nat (length bs)" using s1 by (simp add: is_ok_def)
  have "unat (of_nat (length bs) :: size_t) = length bs" using assms(3) by (intro unat_of_nat_small) simp
  then have "\<not> mVectorsSize s1 < 2" "mVectorsSize is_new < 2" using n assms(2) by (simp_all add: word_less_nat_alt is_new_def)
  then have "is_hasLength receiveData 2 k is_new = Some (True, k1, s1)"
    using s1(1) by (simp add: is_hasLength.simps [of _ _ k] is_hasLength.simps [of _ _ k1])
  then show ?thesis using is_read_any_type [OF s1(2)] s1(3) assms(2)
    by (auto simp: ms_receiveMessage_def IsValidMessageType_def)
qed

section \<open>Properties\<close>


text \<open>A kernel with one connection, which holds the segment that is under way.\<close>

definition sample_connection :: "(nat, nat, byte list) kernel_net" where
  "sample_connection =
     \<lparr>kn_sock_create = (\<lambda>_ _ _ k. ((0, 1), k)), kn_sock_release = (\<lambda>_ k. k), kn_listen = (\<lambda>_ _ k. (0, k)),
      kn_bind = (\<lambda>_ _ k. (0, k)), kn_connect = (\<lambda>_ _ k. (0, k)),
      kn_ioctl_inq = (\<lambda>_ k. ((0, of_nat (length k)), k)), kn_BUG = (\<lambda>k. k), kn_vmalloc = (\<lambda>_ k. (True, k)),
      kn_sendmsg = (\<lambda>_ bs _ k. (of_nat (length bs), k @ bs)),
      kn_recvmsg = (\<lambda>_ n k. ((of_nat (min (unat n) (length k)), take (unat n) k, sa_CreateIn6 28 0 0), drop (unat n) k)),
      kn_setsockopt = (\<lambda>_ _ _ _ k. (0, k)), kn_accept = (\<lambda>_ k. ((- 11, 0), k)),
      kn_getsockname = (\<lambda>_ k. (sa_CreateIn6 28 0 0, k))\<rparr>"

lemma sample_connection_carries: "carries sample_connection (\<lambda>k. k = []) (Some 1) (Some 2)"
proof -
  have "unat (of_nat (length bs) :: size_t) = length bs" if "length bs < 2 ^ 31" for bs :: "byte list"
    using that by (simp add: unat_of_nat_small)
  then show ?thesis by (simp add: carries_def sample_connection_def get_next_packet_size_def)
qed


end
