(* ===== verification/CppObjects.thy ===== *)
theory CppObjects
  imports UsbDevices Callbacks Variants Tuples
begin

text \<open>
  The tools of Base/Macros.hpp that the other classes rest on: comparisons, \<open>swap\<close> of the objects of an
  owning class, and the computation with types behind \<open>move\<close>, \<open>forward\<close> and the checks that
  Base/Expected.hpp and Base/ZQObject.hpp make at compile time.
\<close>

section \<open>Values\<close>

text \<open>\<open>gt\<close>, \<open>lt\<close> and \<open>neq\<close> are the operators of the type; the functions that give a reference give the operand itself.\<close>

definition max_of :: "('a \<Rightarrow> 'a \<Rightarrow> bool) \<Rightarrow> 'a \<Rightarrow> 'a \<Rightarrow> 'a" where
  "max_of gt one two = (if gt one two then one else two)"

definition min_of :: "('a \<Rightarrow> 'a \<Rightarrow> bool) \<Rightarrow> 'a \<Rightarrow> 'a \<Rightarrow> 'a" where
  "min_of lt one two = (if lt one two then one else two)"

definition IsEqual :: "('a \<Rightarrow> 'a \<Rightarrow> bool) \<Rightarrow> 'a \<Rightarrow> 'a \<Rightarrow> bool" where
  "IsEqual neq one other \<longleftrightarrow> \<not> neq one other"

definition IsLessThan :: "('a \<Rightarrow> 'a \<Rightarrow> bool) \<Rightarrow> 'a \<Rightarrow> 'a \<Rightarrow> bool" where
  "IsLessThan lt one other \<longleftrightarrow> lt one other"

text \<open>The comparisons and the hash of what two pointers point to; a dereference may be undefined.\<close>

definition DerefrenceIsEqual :: "('p \<Rightarrow> 'a option) \<Rightarrow> ('a \<Rightarrow> 'a \<Rightarrow> bool) \<Rightarrow> 'p \<Rightarrow> 'p \<Rightarrow> bool option" where
  "DerefrenceIsEqual deref neq one other = do { a \<leftarrow> deref one; b \<leftarrow> deref other; Some (\<not> neq a b) }"

definition DerefrenceIsLessThan :: "('p \<Rightarrow> 'a option) \<Rightarrow> ('a \<Rightarrow> 'a \<Rightarrow> bool) \<Rightarrow> 'p \<Rightarrow> 'p \<Rightarrow> bool option" where
  "DerefrenceIsLessThan deref lt one other = do { a \<leftarrow> deref one; b \<leftarrow> deref other; Some (lt a b) }"

definition DerefrenceHash :: "('p \<Rightarrow> 'a option) \<Rightarrow> ('a \<Rightarrow> size_t) \<Rightarrow> 'p \<Rightarrow> size_t option" where
  "DerefrenceHash deref hash value = map_option hash (deref value)"

definition copy_of :: "'a \<Rightarrow> 'a" where
  "copy_of value = value"

definition IgnoreUnused :: "'a list \<Rightarrow> bool" where
  "IgnoreUnused args \<longleftrightarrow> True"

record ('a, 'b, 'c) triple =
  tr_first :: 'a
  tr_second :: 'b
  tr_third :: 'c

definition makeTriple :: "'a \<Rightarrow> 'b \<Rightarrow> 'c \<Rightarrow> ('a, 'b, 'c) triple" where
  "makeTriple a b c = \<lparr>tr_first = a, tr_second = b, tr_third = c\<rparr>"

text \<open>\<open>pack_foreach\<close> calls \<open>f\<close> on each argument, in the order of an initialiser list.\<close>

fun pack_foreach :: "('a \<Rightarrow> 's \<Rightarrow> 's option) \<Rightarrow> 'a list \<Rightarrow> 's \<Rightarrow> 's option" where
  "pack_foreach f [] s = Some s"
| "pack_foreach f (arg # args) s = Option.bind (f arg s) (pack_foreach f args)"

section \<open>Swap\<close>

text \<open>
  The general \<open>swap\<close> on two objects of a class: a temporary takes the first object, the first takes the
  second, the second takes the temporary, which is destroyed.
\<close>

definition swap_objects :: "('o, 'w) owner_ops \<Rightarrow> 'o \<Rightarrow> 'o \<Rightarrow> 'w \<Rightarrow> ('o \<times> 'o \<times> 'w) option" where
  "swap_objects ops first second w = do {
     let (temp, first1) = ow_move ops first;
     (first2, second1, w1) \<leftarrow> ow_assign ops first1 second w;
     (second2, temp1, w2) \<leftarrow> ow_assign ops second1 temp w1;
     w3 \<leftarrow> ow_destroy ops temp1 w2;
     Some (first2, second2, w3)
   }"

context owner
begin

lemma swap_run:
  assumes "ok w" and "set_option (owned x) \<subseteq> live w" "set_option (owned y) \<subseteq> live w"
  shows "\<exists>x' y' w'. swap_objects ops x y w = Some (x', y', w') \<and> owned x' = owned y \<and> owned y' = owned x
    \<and> ok w' \<and> live w' = live w"
proof -
  obtain temp x1 where m: "ow_move ops x = (temp, x1)" by fastforce
  then have o: "owned temp = owned x" "owned x1 = None" using law_move by blast+
  obtain x2 y1 w1 where a: "ow_assign ops x1 y w = Some (x2, y1, w1)" "ok w1" "owned x2 = owned y" "owned y1 = None" "live w1 = live w"
    using law_assign [OF assms(1), of x1 y] o(2) by auto
  obtain y2 temp1 w2 where b: "ow_assign ops y1 temp w1 = Some (y2, temp1, w2)" "ok w2" "owned y2 = owned temp"
      "owned temp1 = None" "live w2 = live w1"
    using law_assign [OF a(2), of y1 temp] a(4) by auto
  obtain w3 where d: "ow_destroy ops temp1 w2 = Some w3" "ok w3" "live w3 = live w2"
    using law_destroy [OF b(2), of temp1] b(4) by auto
  show ?thesis using m a b d o by (simp add: swap_objects_def)
qed

text \<open>A swap is four steps of a program, so a program that swaps keeps the invariant of \<open>owner\<close>.\<close>

lemma swap_steps:
  assumes "objs s i = Some x" "objs s j = Some y" "i \<noteq> j" "objs s t = None"
    and "swap_objects ops x y (world s) = Some (x', y', w')"
  shows "own_reachable ops s \<lparr>objs = (objs s)(i \<mapsto> x', j \<mapsto> y'), world = w'\<rparr>"
proof -
  obtain temp x1 y1 w1 temp1 w2 where r: "ow_move ops x = (temp, x1)" "ow_assign ops x1 y (world s) = Some (x', y1, w1)"
    "ow_assign ops y1 temp w1 = Some (y', temp1, w2)" "ow_destroy ops temp1 w2 = Some w'"
    using assms(5) by (auto simp: swap_objects_def bind_eq_Some_conv split: prod.splits)
  have t: "t \<noteq> i" "t \<noteq> j" using assms(1,2,4) by auto
  let ?s1 = "\<lparr>objs = (objs s)(t \<mapsto> temp, i \<mapsto> x1), world = world s\<rparr>"
  let ?s2 = "\<lparr>objs = (objs ?s1)(i \<mapsto> x', j \<mapsto> y1), world = w1\<rparr>"
  let ?s3 = "\<lparr>objs = (objs ?s2)(j \<mapsto> y', t \<mapsto> temp1), world = w2\<rparr>"
  have 1: "own_step ops s ?s1" by (rule own_step.move [OF assms(1,4) r(1)])
  have 2: "own_step ops ?s1 ?s2" using assms(2,3) t r(2) by (intro own_step.assign) auto
  have 3: "own_step ops ?s2 ?s3" using assms(3) t r(3) by (intro own_step.assign) auto
  have 4: "own_step ops ?s3 \<lparr>objs = (objs ?s3)(t := None), world = w'\<rparr>" using t r(4) by (intro own_step.destroy) auto
  have "(objs ?s3)(t := None) = (objs s)(i \<mapsto> x', j \<mapsto> y')" using assms(3,4) t by (auto simp: fun_eq_iff)
  then have "own_step ops ?s3 \<lparr>objs = (objs s)(i \<mapsto> x', j \<mapsto> y'), world = w'\<rparr>" using 4 by simp
  note 4 = this
  have "(own_step ops)\<^sup>*\<^sup>* s ?s2"
    by (rule rtranclp.rtrancl_into_rtrancl [OF r_into_rtranclp]) (rule 1, rule 2)
  then have "(own_step ops)\<^sup>*\<^sup>* s ?s3" by (rule rtranclp.rtrancl_into_rtrancl) (rule 3)
  then show ?thesis unfolding own_reachable_def by (rule rtranclp.rtrancl_into_rtrancl) (rule 4)
qed

lemma swap_reachable:
  assumes "own_reachable ops \<lparr>objs = \<lambda>_. None, world = w\<rparr> s" "ok w"
    and "objs s i = Some x" "objs s j = Some y" "i \<noteq> j" "objs s t = None"
  shows "\<exists>x' y' w'. swap_objects ops x y (world s) = Some (x', y', w') \<and> owned x' = owned y \<and> owned y' = owned x
    \<and> live w' = live (world s)
    \<and> own_reachable ops \<lparr>objs = \<lambda>_. None, world = w\<rparr> \<lparr>objs = (objs s)(i \<mapsto> x', j \<mapsto> y'), world = w'\<rparr>"
proof -
  have "own_inv owned live ok (live w) \<lparr>objs = \<lambda>_. None, world = w\<rparr>"
    using assms(2) by (simp add: own_inv_def one_owner_def resources_nil)
  from inv_reachable [OF assms(1) this] have inv: "own_inv owned live ok (live w) s" .
  then have "ok (world s)" by (simp add: own_inv_def)
  from swap_run [OF this inv_live(1) [OF inv assms(3)] inv_live(1) [OF inv assms(4)]] obtain x' y' w' where
    swap: "swap_objects ops x y (world s) = Some (x', y', w')" "owned x' = owned y" "owned y' = owned x" "live w' = live (world s)"
    by blast
  have "own_reachable ops s \<lparr>objs = (objs s)(i \<mapsto> x', j \<mapsto> y'), world = w'\<rparr>"
    by (rule swap_steps [OF assms(3-6) swap(1)])
  then have "own_reachable ops \<lparr>objs = \<lambda>_. None, world = w\<rparr> \<lparr>objs = (objs s)(i \<mapsto> x', j \<mapsto> y'), world = w'\<rparr>"
    using assms(1) unfolding own_reachable_def by (rule rtranclp_trans [rotated])
  then show ?thesis using swap by blast
qed

end

text \<open>Swapping any two objects of a program of this class.\<close>

definition swap_works :: "('o, 'w) owner_ops \<Rightarrow> ('o \<Rightarrow> 'r option) \<Rightarrow> ('w \<Rightarrow> 'r set) \<Rightarrow> ('w \<Rightarrow> bool) \<Rightarrow> bool" where
  "swap_works ops owned live ok \<longleftrightarrow>
     (\<forall>w s i j t x y. own_reachable ops \<lparr>objs = \<lambda>_. None, world = w\<rparr> s \<longrightarrow> ok w \<longrightarrow>
        objs s i = Some x \<longrightarrow> objs s j = Some y \<longrightarrow> i \<noteq> j \<longrightarrow> objs s t = None \<longrightarrow>
        (\<exists>x' y' w'. swap_objects ops x y (world s) = Some (x', y', w') \<and> owned x' = owned y \<and> owned y' = owned x
          \<and> live w' = live (world s)
          \<and> own_reachable ops \<lparr>objs = \<lambda>_. None, world = w\<rparr> \<lparr>objs = (objs s)(i \<mapsto> x', j \<mapsto> y'), world = w'\<rparr>))"


section \<open>Types\<close>

text \<open>
  The types the templates compute with: an object type, by its name and whether it is \<open>const\<close>, or a
  reference to one. A type that does not exist is \<open>None\<close>.
\<close>

datatype object_type = ObjectType string bool

datatype cpp_type = Object object_type | Lvalue object_type | Rvalue object_type

definition EnableIf :: "bool \<Rightarrow> cpp_type \<Rightarrow> cpp_type option" where
  "EnableIf condition T = (if condition then Some T else None)"

definition IsSame :: "'t \<Rightarrow> 't \<Rightarrow> bool" where
  "IsSame T1 T2 \<longleftrightarrow> T1 = T2"

text \<open>The \<open>const\<close> of what a reference refers to is no part of the reference.\<close>

fun RemoveConst :: "cpp_type \<Rightarrow> cpp_type" where
  "RemoveConst (Object (ObjectType name c)) = Object (ObjectType name False)"
| "RemoveConst T = T"

fun object_of :: "cpp_type \<Rightarrow> object_type" where
  "object_of (Object t) = t"
| "object_of (Lvalue t) = t"
| "object_of (Rvalue t) = t"

definition RemoveReference :: "cpp_type \<Rightarrow> cpp_type" where
  "RemoveReference T = Object (object_of T)"

text \<open>\<open>T&&\<close> for a type \<open>T\<close>: a reference to an lvalue reference is that one.\<close>

fun forwarding :: "cpp_type \<Rightarrow> cpp_type" where
  "forwarding (Lvalue t) = Lvalue t"
| "forwarding (Rvalue t) = Rvalue t"
| "forwarding (Object t) = Rvalue t"

text \<open>
  An argument of a call is an expression: the type of its value, whether it is an lvalue, and the value.
  A call whose result type is an lvalue reference is an lvalue, any other one is none. \<open>deduced\<close> is the
  \<open>Args\<close> of a parameter \<open>Args&&\<close>.
\<close>

record 'v argument =
  ag_type :: object_type
  ag_lvalue :: bool
  ag_value :: 'v

definition result_of :: "cpp_type \<Rightarrow> 'v \<Rightarrow> 'v argument" where
  "result_of R v = \<lparr>ag_type = object_of R, ag_lvalue = (case R of Lvalue _ \<Rightarrow> True | _ \<Rightarrow> False), ag_value = v\<rparr>"

definition deduced :: "'v argument \<Rightarrow> cpp_type" where
  "deduced a = (if ag_lvalue a then Lvalue (ag_type a) else Object (ag_type a))"

text \<open>\<open>move (t)\<close> and \<open>forward<T> (t)\<close>; the argument of \<open>forward\<close> is a parameter, which has a name.\<close>

definition move_arg :: "'v argument \<Rightarrow> 'v argument" where
  "move_arg a = result_of (Rvalue (object_of (RemoveReference (deduced a)))) (ag_value a)"

definition forward_arg :: "cpp_type \<Rightarrow> 'v argument \<Rightarrow> 'v argument option" where
  "forward_arg T parameter =
     (if Object (ag_type parameter) = RemoveReference T then Some (result_of (forwarding T) (ag_value parameter)) else None)"

definition parameter_of :: "'v argument \<Rightarrow> 'v argument" where
  "parameter_of a = a\<lparr>ag_lvalue := True\<rparr>"

text \<open>The arguments a function with parameters \<open>Args&&...\<close> passes on with \<open>forward<Args>\<close>.\<close>

definition forwarded :: "'v argument list \<Rightarrow> 'v argument list option" where
  "forwarded args = those (map (\<lambda>a. forward_arg (deduced a) (parameter_of a)) args)"

text \<open>
  The check of \<open>Error\<close>, \<open>makeDataInit\<close> and \<open>makeBaseClassInit\<close> on their arguments, and \<open>Error\<close> itself: a wrapper that
  holds the values in a tuple, from which \<open>Expected\<close> constructs its error.
\<close>

definition rvalues_only :: "'v argument list \<Rightarrow> bool" where
  "rvalues_only args \<longleftrightarrow> IsSame (map deduced args) (map (RemoveReference \<circ> deduced) args)"

definition Error :: "'v argument list \<Rightarrow> 'v tuple option" where
  "Error args =
     (if rvalues_only args then map_option (\<lambda>vs. tp_construct (map ag_value vs)) (forwarded args) else None)"

definition ex_of_wrapper :: "('v list \<Rightarrow> 'e) \<Rightarrow> 'v tuple \<Rightarrow> ('t, 'e) expected option" where
  "ex_of_wrapper construct error = tuple_apply (\<lambda>args. ex_error (construct args)) error"

definition checked_init :: "('v list \<Rightarrow> 'v tuple) \<Rightarrow> 'v argument list \<Rightarrow> 'v tuple option" where
  "checked_init pack args =
     (if rvalues_only args then map_option (\<lambda>vs. pack (map ag_value vs)) (forwarded args) else None)"

lemma forward_restores: "forward_arg (deduced a) (parameter_of a) = Some a"
  by (simp add: forward_arg_def parameter_of_def deduced_def RemoveReference_def result_of_def)

lemma forwarded_all: "forwarded args = Some args"
  by (induction args) (simp_all add: forwarded_def forward_restores)

lemma rvalues_only_iff: "rvalues_only args \<longleftrightarrow> (\<forall>a \<in> set args. \<not> ag_lvalue a)"
  by (auto simp: rvalues_only_def IsSame_def deduced_def RemoveReference_def split: if_splits)

lemma move_rvalue [simp]: "\<not> ag_lvalue (move_arg a)" "ag_value (move_arg a) = ag_value a" "ag_type (move_arg a) = ag_type a"
  by (simp_all add: move_arg_def result_of_def RemoveReference_def deduced_def)

text \<open>
  C34: The types of \<open>forward\<close>, \<open>move\<close> and \<open>Error\<close> fit together. \<open>forward\<close> of a parameter gives the argument back as
  it was passed, lvalue or not; \<open>Error\<close> and the initialisers of objects compile exactly when no argument is an
  lvalue, which holds for arguments that went through \<open>move\<close>; and then the error that \<open>Expected\<close> constructs
  gets exactly the values that were passed, in order.
\<close>

theorem error_types:
  "forwarded args = Some args
   \<and> (Error args \<noteq> None \<longleftrightarrow> (\<forall>a \<in> set args. \<not> ag_lvalue a)) \<and> Error (map move_arg args) \<noteq> None
   \<and> (checked_init makeDataInit args \<noteq> None \<longleftrightarrow> Error args \<noteq> None)
   \<and> (checked_init makeBaseClassInit args \<noteq> None \<longleftrightarrow> Error args \<noteq> None)
   \<and> Option.bind (Error (map move_arg args)) (ex_of_wrapper construct)
       = Some (ex_error (construct (map ag_value args)) :: ('t, 'e) expected)"
  by (auto simp: Error_def checked_init_def rvalues_only_iff forwarded_all ex_of_wrapper_def tuple_apply_def
      tp_get_all_values [of "map ag_value args", simplified] o_def)

lemma error_types_witness:
  "Error [\<lparr>ag_type = ObjectType ''int'' False, ag_lvalue = False, ag_value = 7 :: int\<rparr>] \<noteq> None
   \<and> Error [\<lparr>ag_type = ObjectType ''int'' False, ag_lvalue = True, ag_value = 7 :: int\<rparr>] = None"
proof -
  let ?a = "\<lambda>l. \<lparr>ag_type = ObjectType ''int'' False, ag_lvalue = l, ag_value = 7 :: int\<rparr>"
  note types = error_types [of "[?a l]" "\<lambda>_. ()" for l, THEN conjunct2, THEN conjunct1]
  have "Error [?a False] \<noteq> None" using types [of False] by simp
  moreover have "Error [?a True] = None" using types [of True] by simp
  ultimately show ?thesis by (rule conjI)
qed

end
