(* ===== verification/PosixLayer.thy ===== *)
theory PosixLayer
  imports KernelSockets KernelLocks SystemCalls
begin

text \<open>
  Platforms/Posix/Socket.c, Mutex.c, SpinLock.c and SystemCalls.c: the platform layer that the one of Linux was made from,
  over the same functions of the kernel (the records \<open>kernel_net\<close> and \<open>lock_kernel\<close>). Its functions
  say whether they succeeded and not which error there was, and receive into a buffer of the caller.
\<close>

section \<open>Socket.c\<close>

definition px_sendmsg ::
  "('h, 'a, 'k) kernel_net \<Rightarrow> 'h option \<Rightarrow> byte list \<Rightarrow> 'a sock_addr option \<Rightarrow> 'k \<Rightarrow> 32 word \<times> 'k" where
  "px_sendmsg kn sock buffer sockaddr k = kn_sendmsg kn sock buffer sockaddr k"

definition px_recvmsg ::
  "('h, 'a, 'k) kernel_net \<Rightarrow> 'h option \<Rightarrow> size_t \<Rightarrow> 'k \<Rightarrow> (32 word \<times> byte list \<times> 'a sock_addr) \<times> 'k" where
  "px_recvmsg kn sock buffer_size k = kn_recvmsg kn sock buffer_size k"

definition px_Open :: "('h, 'a, 'k) kernel_net \<Rightarrow> family \<Rightarrow> sock_type \<Rightarrow> nat \<Rightarrow> 'k \<Rightarrow> 'h option \<times> 'k" where
  "px_Open kn family ty protocol k =
     (let ((retval, sock), k1) = kn_sock_create kn family ty protocol k
      in if retval \<noteq> 0 then (None, k1) else (Some sock, k1))"

definition px_Close :: "('h, 'a, 'k) kernel_net \<Rightarrow> 'h \<Rightarrow> 'k \<Rightarrow> 'k" where
  "px_Close kn sock k = kn_sock_release kn sock k"

definition px_Listen :: "('h, 'a, 'k) kernel_net \<Rightarrow> 'h option \<Rightarrow> size_t \<Rightarrow> 'k \<Rightarrow> bool \<times> 'k" where
  "px_Listen kn sock backlog k =
     (let (retval, k1) = kn_listen kn sock backlog k in if retval \<noteq> 0 then (False, k1) else (True, k1))"

text \<open>\<open>ZqSocketBind\<close> casts the address itself to a pointer; it is read as the pointer to it.\<close>

definition px_Bind :: "('h, 'a, 'k) kernel_net \<Rightarrow> 'h option \<Rightarrow> 'a sock_addr \<Rightarrow> 'k \<Rightarrow> bool \<times> 'k" where
  "px_Bind kn sock sockaddr k =
     (let (retval, k1) = kn_bind kn sock sockaddr k in if retval \<noteq> 0 then (False, k1) else (True, k1))"

definition px_Connect :: "('h, 'a, 'k) kernel_net \<Rightarrow> 'h option \<Rightarrow> 'a sock_addr \<Rightarrow> 'k \<Rightarrow> bool \<times> 'k" where
  "px_Connect kn sock sockaddr k =
     (let (retval, k1) = kn_connect kn sock sockaddr k in if retval \<noteq> 0 then (False, k1) else (True, k1))"

text \<open>
  What the receive functions give: the result, what the kernel put into the caller's buffer of \<open>bufferSize\<close>
  bytes, and \<open>*bytesReceived\<close>, which stays as it was on an error (\<open>None\<close>).
\<close>

definition px_Receive ::
  "('h, 'a, 'k) kernel_net \<Rightarrow> 'h option \<Rightarrow> size_t \<Rightarrow> 'k \<Rightarrow> (bool \<times> byte list \<times> size_t option) \<times> 'k" where
  "px_Receive kn sock bufferSize k =
     (let ((ret, buffer, _), k1) = px_recvmsg kn sock bufferSize k
      in if ret <s 0 then ((False, buffer, None), k1) else ((True, buffer, Some (scast ret)), k1))"

definition px_Send :: "('h, 'a, 'k) kernel_net \<Rightarrow> 'h option \<Rightarrow> byte list \<Rightarrow> 'k \<Rightarrow> (bool \<times> size_t option) \<times> 'k" where
  "px_Send kn sock buffer k =
     (let (ret, k1) = px_sendmsg kn sock buffer None k
      in if ret <s 0 then ((False, None), k1) else ((True, Some (scast ret)), k1))"

text \<open>
  \<open>ZqSocketReceiveFrom\<close> stores a length that nothing has set (\<open>socket_length\<close>): its address is passed as the length.
\<close>

definition px_ReceiveFrom ::
  "size_t \<Rightarrow> ('h, 'a, 'k) kernel_net \<Rightarrow> 'h option \<Rightarrow> size_t \<Rightarrow> 'k
     \<Rightarrow> (bool \<times> byte list \<times> 'a sock_addr \<times> size_t option) \<times> 'k" where
  "px_ReceiveFrom socket_length kn sock bufferSize k =
     (let ((ret, buffer, sockaddr), k1) = px_recvmsg kn sock bufferSize k
      in if ret <s 0 then ((False, buffer, sockaddr, None), k1)
         else ((True, buffer, sockaddr\<lparr>socklen := socket_length\<rparr>, Some (scast ret)), k1))"

definition px_SendTo ::
  "('h, 'a, 'k) kernel_net \<Rightarrow> 'h option \<Rightarrow> byte list \<Rightarrow> 'a sock_addr \<Rightarrow> 'k \<Rightarrow> (bool \<times> size_t option) \<times> 'k" where
  "px_SendTo kn sock buffer sockaddr k =
     (let (ret, k1) = px_sendmsg kn sock buffer (Some sockaddr) k
      in if ret <s 0 then ((False, None), k1) else ((True, Some (scast ret)), k1))"

definition px_SetOption ::
  "('h, 'a, 'k) kernel_net \<Rightarrow> 'h option \<Rightarrow> nat \<Rightarrow> nat \<Rightarrow> byte list \<Rightarrow> 'k \<Rightarrow> bool \<times> 'k" where
  "px_SetOption kn sock level name optionValue k =
     (let (ret, k1) = kn_setsockopt kn sock level name optionValue k in if ret \<noteq> 0 then (False, k1) else (True, k1))"

section \<open>Mutex.c and SpinLock.c\<close>

text \<open>Here \<open>lk_ZqAllocate\<close> and \<open>lk_ZqDeallocate\<close> stand for \<open>ZqAllocateVirtual\<close> and \<open>ZqDeallocateVirtual\<close>.\<close>

definition px_MutexInit :: "'k lock_kernel \<Rightarrow> address \<Rightarrow> 'k lock_state \<Rightarrow> 'k lock_state" where
  "px_MutexInit lk mutex s =
     (let (a, k) = lk_ZqAllocate lk (snd s); vars = (fst s)(mutex := a) in (vars, mutex_init lk (vars mutex) k))"

definition px_MutexDeinit :: "'k lock_kernel \<Rightarrow> address \<Rightarrow> 'k lock_state \<Rightarrow> 'k lock_state" where
  "px_MutexDeinit lk mutex s = (fst s, lk_ZqDeallocate lk (fst s mutex) (snd s))"

definition px_MutexLock :: "'k lock_kernel \<Rightarrow> address \<Rightarrow> 'k lock_state \<Rightarrow> 'k lock_state option" where
  "px_MutexLock lk mutex s = map_option (Pair (fst s)) (mutex_lock lk (fst s mutex) (snd s))"

definition px_MutexUnlock :: "'k lock_kernel \<Rightarrow> address \<Rightarrow> 'k lock_state \<Rightarrow> 'k lock_state option" where
  "px_MutexUnlock lk mutex s = map_option (Pair (fst s)) (mutex_unlock lk (fst s mutex) (snd s))"

definition px_MutexTryLock :: "'k lock_kernel \<Rightarrow> address \<Rightarrow> 'k lock_state \<Rightarrow> bool \<times> 'k lock_state" where
  "px_MutexTryLock lk mutex s = (let (r, k) = mutex_trylock lk (fst s mutex) (snd s) in (r = 1, fst s, k))"

definition px_SpinLockInit :: "'k lock_kernel \<Rightarrow> address \<Rightarrow> 'k lock_state \<Rightarrow> 'k lock_state" where
  "px_SpinLockInit lk spinlock s =
     (let (a, k) = lk_ZqAllocate lk (snd s); vars = (fst s)(spinlock := a) in (vars, spin_lock_init lk (vars spinlock) k))"

definition px_SpinLockDeinit :: "'k lock_kernel \<Rightarrow> address \<Rightarrow> 'k lock_state \<Rightarrow> 'k lock_state" where
  "px_SpinLockDeinit lk spinlock s = (fst s, lk_ZqDeallocate lk (fst s spinlock) (snd s))"

definition px_SpinLockLock :: "'k lock_kernel \<Rightarrow> address \<Rightarrow> 'k lock_state \<Rightarrow> 'k lock_state option" where
  "px_SpinLockLock lk spinlock s = map_option (Pair (fst s)) (spin_lock lk spinlock (snd s))"

definition px_SpinLockUnlock :: "'k lock_kernel \<Rightarrow> address \<Rightarrow> 'k lock_state \<Rightarrow> 'k lock_state option" where
  "px_SpinLockUnlock lk spinlock s = map_option (Pair (fst s)) (spin_unlock lk spinlock (snd s))"

definition px_SpinLockTryLock :: "'k lock_kernel \<Rightarrow> address \<Rightarrow> 'k lock_state \<Rightarrow> bool \<times> 'k lock_state" where
  "px_SpinLockTryLock lk spinlock s = (let (r, k) = spin_trylock lk spinlock (snd s) in (r = 1, fst s, k))"

section \<open>SystemCalls.c\<close>

text \<open>The registers, the hooks and the variables are those of \<open>SystemCalls\<close>.\<close>

definition px_syscall_kprobe_pre_handler ::
  "('w, 'k) syscall_state \<Rightarrow> 64 word \<Rightarrow> pt_regs \<Rightarrow> 'w \<Rightarrow> (int \<times> pt_regs \<times> 'w) option" where
  "px_syscall_kprobe_pre_handler s addr regs w = do {
     hook \<leftarrow> syscall_hook s;
     let (taken, regs1, w1) = hook regs w;
     (if \<not> taken then Some (0, regs1, w1)
      else Some (1, regs1\<lparr>rg_ip := addr + 1\<rparr>, w1))
   }"

definition px_kprobe_empty_break_handler :: "pt_regs \<Rightarrow> int" where
  "px_kprobe_empty_break_handler a = 0"

definition px_init_system_calls_hook ::
  "('k \<Rightarrow> 32 word \<times> 'k) \<Rightarrow> ('w, 'k) syscall_state \<Rightarrow> bool \<times> ('w, 'k) syscall_state" where
  "px_init_system_calls_hook register_kprobe s =
     (let (r, k) = register_kprobe (sc_kernel s) in (if r <s 0 then False else True, s\<lparr>sc_kernel := k\<rparr>))"

definition px_InitSystemCallsHook ::
  "('k \<Rightarrow> 32 word \<times> 'k) \<Rightarrow> 'w syscall_hook \<Rightarrow> ('w, 'k) syscall_state \<Rightarrow> ('w, 'k) syscall_state" where
  "px_InitSystemCallsHook register_kprobe hook s =
     (let s1 = s\<lparr>syscall_hook := Some hook\<rparr>
      in if \<not> is_syscall_hook_initialized s1 then snd (px_init_system_calls_hook register_kprobe s1) else s1)"

definition px_CallSyscall :: "('w, 'k) syscall_state \<Rightarrow> pt_regs \<Rightarrow> 'w \<Rightarrow> (64 word \<times> pt_regs \<times> 'w) option" where
  "px_CallSyscall s regs w = do {
     f \<leftarrow> syscall_function s;
     let (regs1, w1) = f regs w;
     Some (rg_ax regs1, regs1, w1)
   }"

section \<open>The two layers\<close>

lemma posix_init_hook: "px_init_system_calls_hook = init_system_calls_hook"
  by (auto simp: fun_eq_iff px_init_system_calls_hook_def init_system_calls_hook_def split: prod.splits)

lemma posix_system_calls:
  "px_syscall_kprobe_pre_handler = syscall_kprobe_pre_handler" "px_kprobe_empty_break_handler = kprobe_empty_break_handler"
  "px_InitSystemCallsHook = ZqInitSystemCallsHook" "px_CallSyscall = ZqCallSyscall"
  by (simp_all add: fun_eq_iff px_syscall_kprobe_pre_handler_def syscall_kprobe_pre_handler_def
      px_kprobe_empty_break_handler_def kprobe_empty_break_handler_def posix_init_hook
      px_InitSystemCallsHook_def ZqInitSystemCallsHook_def px_CallSyscall_def ZqCallSyscall_def Let_def)

lemma posix_locks:
  "px_MutexInit = ZqMutexInit" "px_MutexDeinit = ZqMutexDeinit" "px_MutexLock = ZqMutexLock"
  "px_MutexUnlock = ZqMutexUnlock" "px_MutexTryLock = ZqMutexTryLock"
  "px_SpinLockInit = ZqSpinLockInit" "px_SpinLockDeinit = ZqSpinLockDeinit" "px_SpinLockLock = ZqSpinLockLock"
  "px_SpinLockUnlock = ZqSpinLockUnlock" "px_SpinLockTryLock = ZqSpinLockTryLock"
  by (simp_all add: fun_eq_iff px_MutexInit_def px_MutexDeinit_def px_MutexLock_def px_MutexUnlock_def px_MutexTryLock_def
      px_SpinLockInit_def px_SpinLockDeinit_def px_SpinLockLock_def px_SpinLockUnlock_def px_SpinLockTryLock_def
      ZqMutexInit_def ZqMutexDeinit_def ZqMutexLock_def ZqMutexUnlock_def ZqMutexTryLock_def
      ZqSpinLockInit_def ZqSpinLockDeinit_def ZqSpinLockLock_def ZqSpinLockUnlock_def ZqSpinLockTryLock_def)

text \<open>A result with its error reduced to whether there was none.\<close>

definition succeeded :: "(zq_error \<times> 'r) \<times> 'k \<Rightarrow> (bool \<times> 'r) \<times> 'k" where
  "succeeded r = ((fst (fst r) = ZQ_E_OK, snd (fst r)), snd r)"

definition outcome :: "zq_error \<times> 'k \<Rightarrow> bool \<times> 'k" where
  "outcome r = (fst r = ZQ_E_OK, snd r)"

lemma zq_error_of_OK: "zq_error_of r = ZQ_E_OK \<longleftrightarrow> r = 0"
  by (simp add: zq_error_of_def)

lemma posix_calls:
  "px_Open kn family ty protocol k = lx_Open kn family ty protocol k"
  "px_Listen kn s backlog k = outcome (lx_Listen kn s backlog k)"
  "px_Bind kn s a k = outcome (lx_Bind kn s a k)"
  "px_Connect kn s a k = outcome (lx_Connect kn s a k)"
  "px_SetOption kn s level name v k = outcome (lx_SetOption kn s level name v k)"
  by (simp_all add: px_Open_def lx_Open_def px_Listen_def lx_Listen_def px_Bind_def lx_Bind_def px_Connect_def lx_Connect_def
      px_SetOption_def lx_SetOption_def outcome_def zq_error_of_OK split: prod.splits)

lemma posix_sends:
  "px_Send kn s bs k = succeeded (lx_Send kn s bs k)"
  "px_SendTo kn s bs a k = succeeded (lx_SendTo kn s bs a k)"
  by (auto simp: px_Send_def lx_Send_def px_SendTo_def lx_SendTo_def px_sendmsg_def ziqe_sendmsg_def succeeded_def
      split: prod.splits)



end
