(* ===== verification/LockObjects.thy ===== *)
theory LockObjects
  imports Locks ScopedContainers
begin

text \<open>
  The classes of Base/SpinLock.hpp and Base/Mutex.hpp one by one, with their guards, and the lock classes as
  owners of the platform's locks, in the sense of \<open>ScopedContainers\<close>. The handles, guards and platform
  functions are those of \<open>Locks\<close>; a spin lock and a mutex have the exclusive functions only.
\<close>

section \<open>SpinLock\<close>

definition sl_construct :: "('h, 'p) lock_platform \<Rightarrow> 'p \<Rightarrow> 'h option \<times> 'p" where
  "sl_construct os p = lk_init os p"

definition sl_destroy :: "('h, 'p) lock_platform \<Rightarrow> 'h option \<Rightarrow> 'p \<Rightarrow> 'p" where
  "sl_destroy os mLock p = (if mLock = None then p else lk_deinit os mLock p)"

definition sl_move_construct :: "'h option \<Rightarrow> 'h option \<times> 'h option" where
  "sl_move_construct other = (other, None)"

definition sl_destroy_guard :: "('h, 'p) lock_platform \<Rightarrow> 'h option \<Rightarrow> scoped_lock \<Rightarrow> 'p \<Rightarrow> 'p option" where
  "sl_destroy_guard os mLock g p = (if mLockedLock g then lk_unlockWrite os mLock p else Some p)"

definition sl_move_guard :: "scoped_lock \<Rightarrow> scoped_lock \<times> scoped_lock" where
  "sl_move_guard other = (\<lparr>sc_write = sc_write other, mLockedLock = mLockedLock other\<rparr>, other\<lparr>mLockedLock := False\<rparr>)"

text \<open>\<open>SpinLocked\<close>, on the lock that its pointer leads to.\<close>

definition spin_locked :: "'h option \<Rightarrow> 'v \<Rightarrow> ('h, 'v) rw_locked" where
  "spin_locked lock v = \<lparr>rl_mLock = lock, rl_mValue = v\<rparr>"

definition spin_locked_equal :: "('v \<Rightarrow> 'v \<Rightarrow> bool) \<Rightarrow> ('h, 'v) rw_locked \<Rightarrow> ('h, 'v) rw_locked \<Rightarrow> bool" where
  "spin_locked_equal eq self other \<longleftrightarrow> eq (rl_mValue self) (rl_mValue other)"

section \<open>Mutex\<close>

definition mx_construct :: "('h, 'p) lock_platform \<Rightarrow> 'p \<Rightarrow> 'h option \<times> 'p" where
  "mx_construct os p = lk_init os p"

definition mx_move_construct :: "'h option \<Rightarrow> 'h option \<times> 'h option" where
  "mx_move_construct other = (other, None)"

definition mx_ScopedLock :: "('h, 'p) lock_platform \<Rightarrow> 'h option \<Rightarrow> 'p \<Rightarrow> (scoped_lock \<times> 'p) option" where
  "mx_ScopedLock os mutex p = do {
     p1 \<leftarrow> lk_lockWrite os mutex p;
     Some (\<lparr>sc_write = True, mLockedLock = True\<rparr>, p1)
   }"

definition mx_destroy_guard :: "('h, 'p) lock_platform \<Rightarrow> 'h option \<Rightarrow> scoped_lock \<Rightarrow> 'p \<Rightarrow> 'p option" where
  "mx_destroy_guard os mMutex g p = (if mLockedLock g then lk_unlockWrite os mMutex p else Some p)"

definition mx_move_guard :: "scoped_lock \<Rightarrow> scoped_lock \<times> scoped_lock" where
  "mx_move_guard other = (\<lparr>sc_write = sc_write other, mLockedLock = mLockedLock other\<rparr>, other\<lparr>mLockedLock := False\<rparr>)"

section \<open>RWLocked\<close>

text \<open>The value with a lock of its own, which \<open>DummyPointer\<close> holds as its default.\<close>

definition rw_locked_new :: "('h, 'p) lock_platform \<Rightarrow> 'v \<Rightarrow> 'p \<Rightarrow> ('h, 'v) rw_locked \<times> 'p" where
  "rw_locked_new os v p = (let (h, p1) = rw_construct os p in (\<lparr>rl_mLock = h, rl_mValue = v\<rparr>, p1))"

text \<open>The guards of the two classes are the write guards of \<open>RWLock\<close>.\<close>

lemma guards_alike:
  "mx_ScopedLock = ScopedWriteLock" "sl_move_guard g = sc_move_guard g" "mx_move_guard g = sc_move_guard g"
  "sc_write g \<Longrightarrow> sl_destroy_guard os h g p = sc_destroy_guard os h g p"
  "sc_write g \<Longrightarrow> mx_destroy_guard os h g p = sc_destroy_guard os h g p"
  by (simp_all add: fun_eq_iff mx_ScopedLock_def ScopedWriteLock_def sl_move_guard_def mx_move_guard_def sc_move_guard_def
      sl_destroy_guard_def mx_destroy_guard_def sc_destroy_guard_def)

text \<open>A thread that takes a lock, moves its guard and lets both guards end leaves the platform as two calls do.\<close>

lemma guard_moved_once:
  assumes "ScopedLock os h p = Some (g, p1)" and "sl_move_guard g = (g1, g2)"
  shows "sl_destroy_guard os h g2 p1 = Some p1" "sl_destroy_guard os h g1 p1 = lk_unlockWrite os h p1"
  using assms by (auto simp: ScopedLock_def sl_move_guard_def sl_destroy_guard_def bind_eq_Some_conv)

section \<open>Lock objects as owners\<close>

text \<open>
  \<open>inits\<close> are the locks that are initialised. As documented: initialising makes a new one, and deinitialising
  one removes it; of a handle that is not initialised it is undefined.
\<close>

definition locks_initialised :: "('h, 'p) lock_platform \<Rightarrow> ('p \<Rightarrow> 'h set) \<Rightarrow> bool" where
  "locks_initialised os inits \<longleftrightarrow>
     (\<forall>p h p'. lk_init os p = (h, p') \<longrightarrow> set_option h \<inter> inits p = {} \<and> inits p' = set_option h \<union> inits p)
   \<and> (\<forall>p h. h \<in> inits p \<longrightarrow> inits (lk_deinit os (Some h) p) = inits p - {h})"

definition deinit_defined :: "('p \<Rightarrow> 'h set) \<Rightarrow> 'h option \<Rightarrow> 'p \<Rightarrow> bool" where
  "deinit_defined inits h p \<longleftrightarrow> (\<exists>a \<in> inits p. h = Some a)"

definition spin_ops ::
  "('p \<Rightarrow> 'h set) \<Rightarrow> ('h option, ('h, 'p) lock_platform \<times> 'p) owner_ops" where
  "spin_ops inits =
     \<lparr>ow_make = (\<lambda>(os, p). let (h, p1) = sl_construct os p in (h, os, p1)),
      ow_move = sl_move_construct,
      ow_assign = (\<lambda>mLock other (os, p).
        if mLock = None \<or> deinit_defined inits mLock p
        then (let (h, h', p1) = sl_move_assign os mLock other p in Some (h, h', os, p1)) else None),
      ow_destroy = (\<lambda>mLock (os, p).
        if mLock = None \<or> deinit_defined inits mLock p then Some (os, sl_destroy os mLock p) else None)\<rparr>"

interpretation spin: owner "spin_ops inits" "\<lambda>h. h" "\<lambda>(os, p). inits p" "\<lambda>(os, p). locks_initialised os inits"
proof (unfold_locales, goal_cases)
  case (1 s h s')
  then show ?case
    by (auto simp: spin_ops_def sl_construct_def locks_initialised_def simp del: disjoint_insert split: prod.splits)
next
  case (2 x y x')
  then show ?case by (simp add: spin_ops_def sl_move_construct_def)
next
  case (3 s x y)
  then show ?case
    by (cases x) (auto simp: spin_ops_def sl_move_assign_def locks_initialised_def deinit_defined_def)
next
  case (4 s x)
  then show ?case
    by (cases x) (auto simp: spin_ops_def sl_destroy_def locks_initialised_def deinit_defined_def)
qed

section \<open>Properties\<close>

text \<open>
  C17: A spin lock object owns its lock of the platform: whatever spin locks a program makes, moves, assigns and
  destroys in whatever order, each lock that was initialised has one object, is deinitialised once and by
  its object. An \<open>RWLock\<close> or \<open>Mutex\<close> that was moved from and is assigned to deinitialises, and a mutex also
  tries to lock, the undefined handle, which is not a lock that was initialised.
\<close>

theorem lock_objects_own:
  assumes "own_reachable (spin_ops inits) \<lparr>objs = \<lambda>_. None, world = (os, p)\<rparr> s" and "locks_initialised os inits"
  shows "(case world s of (os', p') \<Rightarrow> inits p' = inits p \<union> ran (resources (\<lambda>h. h) (objs s)))
    \<and> one_owner (resources (\<lambda>h. h) (objs s))
    \<and> (\<forall>i x. objs s i = Some x \<longrightarrow> ow_destroy (spin_ops inits) x (world s) \<noteq> None
         \<and> (\<forall>y. ow_assign (spin_ops inits) x y (world s) \<noteq> None))
    \<and> snd (rw_move_construct h) = None \<and> snd (mx_move_construct h) = None
    \<and> rw_move_assign os None other q = (other, None, lk_deinit os None q)
    \<and> mx_move_assign os None other q = (other, None, lk_deinit os None (snd (lk_tryLock os None q)))
    \<and> \<not> deinit_defined inits None q"
proof -
  note safe = spin.owner_safe [OF assms(1)]
  show ?thesis using safe assms(2)
    by (auto simp: rw_move_construct_def mx_move_construct_def rw_move_assign_def mx_move_assign_def deinit_defined_def
        split: prod.splits)
qed

text \<open>A platform that numbers its locks, with one spin lock made.\<close>

definition numbered_locks :: "(nat, nat \<times> nat set) lock_platform" where
  "numbered_locks =
     \<lparr>lk_init = (\<lambda>(n, ls). (Some n, Suc n, insert n ls)), lk_deinit = (\<lambda>h (n, ls). (n, ls - set_option h)),
      lk_tryLock = (\<lambda>_ p. (True, p)), lk_lockRead = (\<lambda>_ p. Some p), lk_unlockRead = (\<lambda>_ p. Some p),
      lk_lockWrite = (\<lambda>_ p. Some p), lk_unlockWrite = (\<lambda>_ p. Some p)\<rparr>"

lemma numbered_locks_initialised: "locks_initialised numbered_locks (\<lambda>(n, ls). ls \<inter> {..<n})"
  by (auto simp: locks_initialised_def numbered_locks_def)

lemma lock_objects_own_witness:
  "ow_destroy (spin_ops (\<lambda>(n, ls). ls \<inter> {..<n})) (Some 4) (numbered_locks, 5, {4}) \<noteq> None
   \<and> mx_move_assign numbered_locks None (Some 4) (5, {4}) = (Some 4, None, 5, {4})"
proof -
  let ?ops = "spin_ops (\<lambda>(n, ls). ls \<inter> {..<n})"
  let ?s = "\<lparr>objs = [0 \<mapsto> Some (4 :: nat)], world = (numbered_locks, 5, {4})\<rparr>"
  have "own_step ?ops \<lparr>objs = \<lambda>_. None, world = (numbered_locks, 4, {})\<rparr> ?s"
    using own_step.make [of "\<lparr>objs = \<lambda>_. None, world = (numbered_locks, 4, {})\<rparr>" 0 ?ops "Some 4" "(numbered_locks, 5, {4})"]
    by (simp add: spin_ops_def sl_construct_def numbered_locks_def)
  then have r: "own_reachable ?ops \<lparr>objs = \<lambda>_. None, world = (numbered_locks, 4, {})\<rparr> ?s"
    by (simp add: own_reachable_def r_into_rtranclp)
  note safe = lock_objects_own [OF r numbered_locks_initialised, of None "Some 4" "(5, {4})"]
  have "objs ?s 0 = Some (Some 4)" by simp
  from safe [THEN conjunct2, THEN conjunct2, THEN conjunct1, THEN spec, THEN spec, THEN mp, OF this]
  have "ow_destroy ?ops (Some 4) (world ?s) \<noteq> None" by (rule conjunct1)
  moreover have "mx_move_assign numbered_locks None (Some 4) (5, {4}) = (Some 4, None, 5, {4})"
    by (simp add: mx_move_assign_def numbered_locks_def)
  ultimately show ?thesis by simp
qed

end
