(* ===== verification/TreeIterators.thy ===== *)
theory TreeIterators
  imports BinaryTrees
begin

text \<open>
  The rest of the class \<open>BinaryTree\<close> of Base/RedBlackTree.hpp: the accessors of a node, the operators of the
  two iterator classes, and what the tree itself answers. A node is reached through its heap as in \<open>BinaryTrees\<close>.
\<close>

section \<open>Nodes\<close>

definition bt_getParent :: "('k, 'v) tree_node \<Rightarrow> ptr" where
  "bt_getParent n = mParent n"

definition bt_hasRight :: "('k, 'v) tree_node \<Rightarrow> bool" where
  "bt_hasRight n \<longleftrightarrow> mRight n \<noteq> nullptr"

definition bt_hasLeft :: "('k, 'v) tree_node \<Rightarrow> bool" where
  "bt_hasLeft n \<longleftrightarrow> mLeft n \<noteq> nullptr"

definition bt_getKey :: "('k, 'v) tree_node \<Rightarrow> 'k" where
  "bt_getKey n = nd_key n"

section \<open>Iterators\<close>

text \<open>An iterator is its current node; the operators work on it and give it back.\<close>

definition bt_it_of :: "ptr \<Rightarrow> ptr" where
  "bt_it_of node = node"

definition bt_it_increment :: "('k, 'v) bt_heap \<Rightarrow> ptr \<Rightarrow> ptr option" where
  "bt_it_increment h it = bt_next h it"

definition bt_it_decrement :: "('k, 'v) bt_heap \<Rightarrow> ptr \<Rightarrow> ptr option" where
  "bt_it_decrement h it = bt_previous h it"

definition bt_it_equal :: "ptr \<Rightarrow> ptr \<Rightarrow> bool" where
  "bt_it_equal it other \<longleftrightarrow> it = other"

definition bt_it_deref :: "('k, 'v) bt_heap \<Rightarrow> ptr \<Rightarrow> ('k \<times> 'v) option" where
  "bt_it_deref h it = map_option (\<lambda>n. (nd_key n, nd_value n)) (load h it)"

definition bt_cit_deref :: "('k, 'v) bt_heap \<Rightarrow> ptr \<Rightarrow> ('k \<times> 'v) option" where
  "bt_cit_deref h it = map_option (\<lambda>n. (nd_key n, nd_value n)) (load h it)"

section \<open>The tree\<close>

definition bt_begin :: "binary_tree \<Rightarrow> ptr" where
  "bt_begin t = bt_it_of (mLeftest t)"

definition bt_cbegin :: "binary_tree \<Rightarrow> ptr" where
  "bt_cbegin t = bt_it_of (mLeftest t)"

definition bt_begin_const :: "binary_tree \<Rightarrow> ptr" where
  "bt_begin_const t = bt_cbegin t"

definition bt_end :: "binary_tree \<Rightarrow> ptr" where
  "bt_end t = bt_it_of nullptr"

definition bt_cend :: "binary_tree \<Rightarrow> ptr" where
  "bt_cend t = bt_it_of nullptr"

definition bt_end_const :: "binary_tree \<Rightarrow> ptr" where
  "bt_end_const t = bt_cend t"

text \<open>Of a constant tree, \<open>before_end\<close> is the end.\<close>

definition bt_before_end :: "binary_tree \<Rightarrow> ptr" where
  "bt_before_end t = bt_it_of (mRightest t)"

definition bt_cbefore_end :: "binary_tree \<Rightarrow> ptr" where
  "bt_cbefore_end t = bt_it_of (mRightest t)"

definition bt_before_end_const :: "binary_tree \<Rightarrow> ptr" where
  "bt_before_end_const t = bt_cend t"

definition bt_size :: "binary_tree \<Rightarrow> size_t" where
  "bt_size t = bt_mSize t"

definition bt_getSize :: "binary_tree \<Rightarrow> size_t" where
  "bt_getSize t = bt_mSize t"

section \<open>A tree with one element\<close>

text \<open>
  After the first insertion the tree is walked in both directions, from \<open>begin\<close> to \<open>end\<close> and from \<open>before_end\<close>; its
  size is what it was, and \<open>before_end\<close> of the constant tree cannot be dereferenced.
\<close>

lemma tree_of_one:
  assumes "resultParent r = nullptr" and "bt_insert r key v h t = Some ((it, True), h1, t1)"
  shows "it = bt_begin t1 \<and> it = bt_before_end t1 \<and> bt_it_deref h1 it = Some (key, v)
    \<and> bt_it_increment h1 (bt_begin t1) = Some (bt_end t1) \<and> bt_it_decrement h1 (bt_before_end t1) = Some (bt_end t1)
    \<and> bt_size t1 = bt_size t \<and> bt_cit_deref h1 (bt_before_end_const t1) = None"
proof -
  let ?n = "\<lparr>nd_key = key, nd_value = v, mParent = nullptr, mRight = nullptr, mLeft = nullptr\<rparr>"
  obtain a where a: "new h ?n = (a, h1)" "it = Some a" "t1 = t\<lparr>mHead := Some a, mLeftest := Some a, mRightest := Some a\<rparr>"
    using assms by (auto simp: bt_insert_def split: prod.splits)
  then have n: "load h1 (Some a) = Some ?n" by (auto simp: new_def)
  have "\<not> bt_hasParent ?n" by (simp add: bt_hasParent_def)
  then show ?thesis using n a(2,3)
    by (simp add: bt_begin_def bt_before_end_def bt_it_of_def bt_it_deref_def bt_it_increment_def bt_it_decrement_def
        bt_next_def bt_previous_def bt_end_def bt_size_def bt_cit_deref_def bt_before_end_const_def bt_cend_def)
qed

end
