(* ===== verification/ListObjects.thy ===== *)
theory ListObjects
  imports LinkedLists IteratorTools
begin

text \<open>
  The rest of Base/LinkedList.hpp and Base/IteratorTools.hpp: the destructor of a list, what it answers
  about its ends and its size, the iterator objects, and the distances that are given as a pair or with their size.
\<close>

section \<open>Iterators of a list\<close>

text \<open>An iterator is its current node.\<close>

definition it_new :: ptr where
  "it_new = nullptr"

definition it_of :: "ptr \<Rightarrow> ptr" where
  "it_of current = current"

definition it_equal :: "ptr \<Rightarrow> ptr \<Rightarrow> bool" where
  "it_equal it other \<longleftrightarrow> it = other"

definition it_isNull :: "ptr \<Rightarrow> bool" where
  "it_isNull it \<longleftrightarrow> it = nullptr"

section \<open>The list\<close>

definition ll_size :: "linked_list \<Rightarrow> size_t" where
  "ll_size l = mSize l"

definition ll_cbegin :: "linked_list \<Rightarrow> ptr" where
  "ll_cbegin l = it_of (mBegin l)"

definition ll_beforeEnd :: "linked_list \<Rightarrow> ptr" where
  "ll_beforeEnd l = it_of (mBeforeEnd l)"

definition ll_destroy :: "'a dll_heap \<Rightarrow> linked_list \<Rightarrow> 'a dll_heap option" where
  "ll_destroy h l = map_option fst (ll_clear h l)"

section \<open>Move iterators and distances\<close>

definition mv_of :: "'i \<Rightarrow> 'i" where
  "mv_of iterator = iterator"

definition makeMoveIterator :: "'i \<Rightarrow> 'i" where
  "makeMoveIterator inputIterator = mv_of inputIterator"

definition mv_equal :: "'i \<Rightarrow> 'i \<Rightarrow> bool" where
  "mv_equal it other \<longleftrightarrow> it = other"

definition iteratorsRange_pair :: "('i \<Rightarrow> 'i option) \<Rightarrow> 'i \<times> 'i \<Rightarrow> size_t option" where
  "iteratorsRange_pair increment beginAndEnd = iteratorsRange increment (fst beginAndEnd) (snd beginAndEnd)"

definition iteratorsRange_triple :: "'i \<times> 'i \<times> size_t \<Rightarrow> size_t" where
  "iteratorsRange_triple beginEndAndSize = snd (snd beginEndAndSize)"

section \<open>A list and its nodes\<close>

lemma iteratorsRange_loop_moves:
  "iteratorsRange_loop (mv_increment increment) iend it count = iteratorsRange_loop increment iend it count"
proof -
  have "mv_increment increment = increment" by (simp add: fun_eq_iff mv_increment_def)
  then show ?thesis by simp
qed

text \<open>The distances agree: the nodes counted one by one, through move iterators too, and the size that comes with them.\<close>

lemma list_distances:
  assumes "ll_repr h l es"
  shows "iteratorsRange_pair (it_next h) (ll_cbegin l, ll_cend) = Some (ll_size l)"
    "iteratorsRange_pair (mv_increment (it_next h)) (makeMoveIterator (ll_cbegin l), makeMoveIterator ll_cend) = Some (ll_size l)"
    "iteratorsRange_triple (ll_cbegin l, ll_cend, ll_size l) = ll_size l"
proof -
  let ?ps = "map (Some \<circ> fst) es @ [ll_cend]"
  have p: "list_path (h, l) ?ps" using assms by (auto simp: list_path_def)
  have b: "mBegin l = ?ps ! 0" using ll_repr_begin [OF assms] by (cases es) (auto simp: ll_cend_def)
  have e: "ll_cend = ?ps ! length es" by (simp add: nth_append)
  have "iteratorsRange (it_next h) (mBegin l) ll_cend = Some (mSize l)"
    using lit.distance [OF p, of 0 "length es"] ll_repr_size [OF assms] b e by simp
  then show "iteratorsRange_pair (it_next h) (ll_cbegin l, ll_cend) = Some (ll_size l)"
    "iteratorsRange_pair (mv_increment (it_next h)) (makeMoveIterator (ll_cbegin l), makeMoveIterator ll_cend) = Some (ll_size l)"
    by (simp_all add: iteratorsRange_pair_def iteratorsRange_def iteratorsRange_loop_moves ll_cbegin_def it_of_def ll_size_def
        makeMoveIterator_def mv_of_def)
qed (simp add: iteratorsRange_triple_def)

text \<open>The destructor of a list deletes its nodes and no others, so the other lists stay as they are.\<close>

lemma list_destroyed:
  assumes "ll_repr h l es" and "ll_repr h other xs" and "fst ` set es \<inter> fst ` set xs = {}"
  shows "\<exists>h'. ll_destroy h l = Some h' \<and> (\<forall>a. cells h' a = (if a \<in> fst ` set es then None else cells h a))
    \<and> ll_repr h' other xs \<and> (it_isNull (ll_beforeEnd l) \<longleftrightarrow> es = [])"
proof -
  obtain l1 where c: "ll_clear h l = Some (erased h (fst ` set es), l1)" using ll_clear_repr [OF assms(1)] by blast
  have "ll_repr (erased h (fst ` set es)) other xs"
    using assms(3) by (intro ll_repr_cong [OF assms(2) heap_ok_erased [OF ll_repr_heap_ok [OF assms(1)]]]) auto
  then show ?thesis
    using c ll_repr_beforeEnd [OF assms(1)] by (simp add: ll_destroy_def ll_beforeEnd_def it_of_def it_isNull_def)
qed

end
