(* ===== verification/LocalThreads.thy ===== *)
theory LocalThreads
  imports SystemCalls
begin

text \<open>
  Base/LocalThread, Base/LocalProcess and Base/SystemCalls.hpp: a thread and a process of this machine, over
  the functions of the platform that find out about a thread and run a function on it, which are arguments.
\<close>

section \<open>Threads\<close>

text \<open>\<open>'i\<close> is the type \<open>ZqThreadInfo\<close>. The member is not initialised: its first value is an argument of the constructor.\<close>

record 'i local_thread =
  lt_mThreadID :: "64 word"
  lt_mThreadInfo :: 'i
  lt_mIsThreadInfoUpdated :: bool

definition lt_construct :: "'i \<Rightarrow> 64 word \<Rightarrow> 'i local_thread" where
  "lt_construct uninitialised threadID =
     \<lparr>lt_mThreadID = threadID, lt_mThreadInfo = uninitialised, lt_mIsThreadInfoUpdated = False\<rparr>"

definition lt_getThreadID :: "'i local_thread \<Rightarrow> 64 word" where
  "lt_getThreadID t = lt_mThreadID t"

text \<open>
  \<open>ZqGetThreadInfo\<close> gets the thread and the place of the information with what is there. The assertion on its
  result only logs. The method gives a reference to the information; here it gives the information.
\<close>

definition lt_getThreadInfo ::
  "(64 word \<Rightarrow> 'i \<Rightarrow> 'k \<Rightarrow> (bool \<times> 'i) \<times> 'k) \<Rightarrow> 'i local_thread \<Rightarrow> 'k \<Rightarrow> 'i \<times> 'i local_thread \<times> 'k" where
  "lt_getThreadInfo zqGetThreadInfo t k =
     (if \<not> lt_mIsThreadInfoUpdated t then
        let ((_, info), k1) = zqGetThreadInfo (lt_mThreadID t) (lt_mThreadInfo t) k;
            t1 = t\<lparr>lt_mThreadInfo := info, lt_mIsThreadInfoUpdated := True\<rparr>
        in (lt_mThreadInfo t1, t1, k1)
      else (lt_mThreadInfo t, t, k))"

text \<open>A function is its address; the result of \<open>ZqThreadCall\<close> is not looked at.\<close>

definition lt_runFunction ::
  "(64 word \<Rightarrow> 64 word \<Rightarrow> 64 word \<Rightarrow> 'k \<Rightarrow> bool \<times> 'k) \<Rightarrow> 'i local_thread \<Rightarrow> 64 word \<Rightarrow> 64 word \<Rightarrow> 'k \<Rightarrow> 'k" where
  "lt_runFunction zqThreadCall t function parameter k = snd (zqThreadCall (lt_mThreadID t) function parameter k)"

text \<open>
  \<open>runAnyFunction\<close> takes a parameter of any type that has the size of a register (\<open>None\<close>: the program does not
  compile); \<open>as_register\<close> reads its bits as a register.
\<close>

definition lt_runAnyFunction ::
  "(64 word \<Rightarrow> 64 word \<Rightarrow> 64 word \<Rightarrow> 'k \<Rightarrow> bool \<times> 'k) \<Rightarrow> size_t \<Rightarrow> ('p \<Rightarrow> 64 word)
     \<Rightarrow> 'i local_thread \<Rightarrow> 64 word \<Rightarrow> 'p \<Rightarrow> 'k \<Rightarrow> 'k option" where
  "lt_runAnyFunction zqThreadCall sizeof_parameter as_register t function parameter k =
     (if sizeof_parameter = 8 then Some (lt_runFunction zqThreadCall t function (as_register parameter) k) else None)"

section \<open>Processes and system calls\<close>

record local_process =
  lp_mProcessID :: "64 word"

definition lp_construct :: "64 word \<Rightarrow> local_process" where
  "lp_construct processID = \<lparr>lp_mProcessID = processID\<rparr>"

definition lp_getProcessID :: "local_process \<Rightarrow> 64 word" where
  "lp_getProcessID p = lp_mProcessID p"

definition lp_equal :: "local_process \<Rightarrow> local_process \<Rightarrow> bool" where
  "lp_equal p other \<longleftrightarrow> lp_mProcessID p = lp_mProcessID other"

text \<open>\<open>unsetSystemCallHook\<close> calls a function that no platform defines.\<close>

definition runSystemCall :: "('w, 'k) syscall_state \<Rightarrow> pt_regs \<Rightarrow> 'w \<Rightarrow> (64 word \<times> pt_regs \<times> 'w) option" where
  "runSystemCall s regs w = ZqCallSyscall s regs w"

definition setSystemCallHook ::
  "('k \<Rightarrow> 32 word \<times> 'k) \<Rightarrow> 'w syscall_hook \<Rightarrow> ('w, 'k) syscall_state \<Rightarrow> ('w, 'k) syscall_state" where
  "setSystemCallHook register_kprobe hook s = ZqInitSystemCallsHook register_kprobe hook s"

section \<open>What a thread remembers\<close>

text \<open>
  The platform is asked once: whatever happens to the platform later, a thread that was asked gives the first
  answer again. When the platform does not know the thread and writes nothing, that answer is the member that
  was never initialised, for good.
\<close>

lemma thread_info_remembered:
  assumes "lt_getThreadInfo ask (lt_construct garbage i) k = (info, t, k1)"
  shows "lt_getThreadInfo ask t k2 = (info, t, k2)" and "lt_getThreadID t = i"
    and "k1 = snd (ask i garbage k)" "info = snd (fst (ask i garbage k))"
    and "ask i garbage k = ((False, garbage), k) \<Longrightarrow> lt_getThreadInfo ask t k2 = (garbage, t, k2)"
  using assms by (auto simp: lt_getThreadInfo_def lt_construct_def lt_getThreadID_def split: prod.splits)

text \<open>System calls through the class: no hook can run one, since the function that would is never set.\<close>

lemma setSystemCallHook_eq: "setSystemCallHook = ZqInitSystemCallsHook"
  by (simp add: fun_eq_iff setSystemCallHook_def)

lemma system_calls_never_run:
  "runSystemCall (fold (setSystemCallHook register_kprobe) hooks (initial_state k)) regs w = None"
  by (simp add: runSystemCall_def setSystemCallHook_eq init_fold ZqCallSyscall_def)

end
