(* ===== verification/WindowStorage.thy ===== *)
theory WindowStorage
  imports FieldCodecs ProcessThreads
begin

text \<open>
  Base/ExtendedVector.hpp over a real vector. The class takes the type of its vector as a template argument; \<open>ev_\<close>
  (\<open>ExtendedVectors\<close>) reads it as its elements, \<open>ew_\<close> here over the operations of any vector type, with a memory.
  The locale \<open>storage\<close> is what the windows rely on; under it \<open>ew_\<close> refines \<open>ev_\<close>. It is interpreted on \<open>Vector\<close>
  of Base/Vector.hpp.
\<close>

section \<open>Windows over a vector type\<close>

record ('m, 'v, 'a) vector_type =
  vt_size :: "'v \<Rightarrow> size_t"
  vt_at :: "'m \<Rightarrow> 'v \<Rightarrow> size_t \<Rightarrow> 'a option"
  vt_put :: "size_t \<Rightarrow> 'a \<Rightarrow> 'v \<Rightarrow> 'm \<Rightarrow> 'm option"
  vt_expand :: "size_t \<Rightarrow> 'm \<Rightarrow> 'v \<Rightarrow> ('m \<times> 'v) option"
  vt_move :: "'v \<Rightarrow> 'v \<times> 'v"

record 'v window =
  ew_mVector :: 'v
  ew_mIndexBegin :: size_t
  ew_mIndexEnd :: size_t

text \<open>The constructors move the vector in and leave their argument as moving leaves it.\<close>

definition ew_of_vector :: "('m, 'v, 'a) vector_type \<Rightarrow> 'v \<Rightarrow> 'v window \<times> 'v" where
  "ew_of_vector vt v =
     (let (mVector, v1) = vt_move vt v
      in (\<lparr>ew_mVector = mVector, ew_mIndexBegin = 0, ew_mIndexEnd = vt_size vt mVector\<rparr>, v1))"

definition ew_of_range :: "('m, 'v, 'a) vector_type \<Rightarrow> 'v \<Rightarrow> size_t \<Rightarrow> size_t \<Rightarrow> 'v window \<times> 'v" where
  "ew_of_range vt v indexBegin indexEnd =
     (let (mVector, v1) = vt_move vt v
      in (\<lparr>ew_mVector = mVector, ew_mIndexBegin = indexBegin,
           ew_mIndexEnd = (if indexEnd = kNoIndex then vt_size vt mVector else indexEnd)\<rparr>, v1))"

definition ew_getVector :: "'v window \<Rightarrow> 'v" where
  "ew_getVector w = ew_mVector w"

definition ew_getIndexBegin :: "'v window \<Rightarrow> size_t" where
  "ew_getIndexBegin w = ew_mIndexBegin w"

definition ew_getIndexEnd :: "'v window \<Rightarrow> size_t" where
  "ew_getIndexEnd w = ew_mIndexEnd w"

definition ew_at :: "('m, 'v, 'a) vector_type \<Rightarrow> 'm \<Rightarrow> 'v window \<Rightarrow> size_t \<Rightarrow> 'a option" where
  "ew_at vt m w i = vt_at vt m (ew_getVector w) (i + ew_mIndexBegin w)"

definition ew_put :: "('m, 'v, 'a) vector_type \<Rightarrow> size_t \<Rightarrow> 'a \<Rightarrow> 'v window \<Rightarrow> 'm \<Rightarrow> 'm option" where
  "ew_put vt i x w m = vt_put vt (i + ew_mIndexBegin w) x (ew_getVector w) m"

definition ew_size :: "'v window \<Rightarrow> size_t" where
  "ew_size w = ew_mIndexEnd w - ew_mIndexBegin w"

definition ew_hasLength :: "'v window \<Rightarrow> size_t \<Rightarrow> bool" where
  "ew_hasLength w n \<longleftrightarrow> ew_size w \<ge> n"

definition ew_increaseBegin :: "size_t \<Rightarrow> 'v window \<Rightarrow> 'v window" where
  "ew_increaseBegin howMuch w = w\<lparr>ew_mIndexBegin := ew_mIndexBegin w + howMuch\<rparr>"

definition ew_setEnd :: "size_t \<Rightarrow> 'v window \<Rightarrow> 'v window" where
  "ew_setEnd newEnd w = w\<lparr>ew_mIndexEnd := newEnd\<rparr>"

definition ew_setBegin :: "size_t \<Rightarrow> 'v window \<Rightarrow> 'v window" where
  "ew_setBegin newBegin w = w\<lparr>ew_mIndexBegin := newBegin\<rparr>"

definition ew_front :: "('m, 'v, 'a) vector_type \<Rightarrow> 'm \<Rightarrow> 'v window \<Rightarrow> 'a option" where
  "ew_front vt m w = ew_at vt m w 0"

definition ew_back :: "('m, 'v, 'a) vector_type \<Rightarrow> 'm \<Rightarrow> 'v window \<Rightarrow> 'a option" where
  "ew_back vt m w = ew_at vt m w (ew_mIndexEnd w - 1)"

fun ew_put_all :: "('m, 'v, 'a) vector_type \<Rightarrow> size_t \<Rightarrow> 'a list \<Rightarrow> 'v window \<Rightarrow> 'm \<Rightarrow> (size_t \<times> 'm) option" where
  "ew_put_all vt i [] w m = Some (i, m)"
| "ew_put_all vt i (x # xs) w m = Option.bind (ew_put vt i x w m) (ew_put_all vt (i + 1) xs w)"

definition ew_insertVectorAtBegin ::
  "('m, 'v, 'a) vector_type \<Rightarrow> 'a list \<Rightarrow> 'v window \<Rightarrow> 'm \<Rightarrow> ('m \<times> 'v window) option" where
  "ew_insertVectorAtBegin vt xs w m = do {
     (i, m1) \<leftarrow> ew_put_all vt 0 xs w m;
     Some (m1, ew_increaseBegin i w)
   }"

definition ew_expand ::
  "('m, 'v, 'a) vector_type \<Rightarrow> size_t \<Rightarrow> 'v window \<Rightarrow> 'm \<Rightarrow> ('m \<times> 'v window) option" where
  "ew_expand vt howMuch w m =
     (let newSize = ew_size w + howMuch;
          currentUnderlyingVectorSize = vt_size vt (ew_getVector w);
          (newSize, w1) =
            (if ew_mIndexEnd w \<noteq> currentUnderlyingVectorSize then
               let available = currentUnderlyingVectorSize - ew_mIndexEnd w;
                   virtualExpandSize = min howMuch available
               in (newSize - virtualExpandSize, w\<lparr>ew_mIndexEnd := available - virtualExpandSize\<rparr>)
             else (newSize, w))
      in if newSize > 0 then do {
           (m1, v1) \<leftarrow> vt_expand vt howMuch m (ew_getVector w1);
           Some (m1, w1\<lparr>ew_mVector := v1\<rparr>)
         }
         else Some (m, w1))"

section \<open>What a window relies on\<close>

text \<open>
  \<open>holds m v xs\<close>: in the memory \<open>m\<close> the vector \<open>v\<close> has the elements \<open>xs\<close>. Below \<open>room\<close> elements it can grow.
\<close>

definition windows ::
  "('m \<Rightarrow> 'v \<Rightarrow> 'a list \<Rightarrow> bool) \<Rightarrow> 'm \<Rightarrow> 'v window \<Rightarrow> 'a ext_vector \<Rightarrow> bool" where
  "windows holds m w e \<longleftrightarrow> holds m (ew_mVector w) (ev_vector e)
     \<and> ew_mIndexBegin w = mIndexBegin e \<and> ew_mIndexEnd w = mIndexEnd e"

lemma windows_simps:
  "windows holds m w e \<Longrightarrow> ew_size w = ev_size e"
  "windows holds m w e \<Longrightarrow> ew_hasLength w n \<longleftrightarrow> ev_hasLength e n"
  "windows holds m w e \<Longrightarrow> windows holds m (ew_increaseBegin n w) (ev_increaseBegin n e)"
  "windows holds m w e \<Longrightarrow> windows holds m (ew_setEnd n w) (ev_setEnd n e)"
  "windows holds m w e \<Longrightarrow> windows holds m (ew_setBegin n w) (ev_setBegin n e)"
  by (simp_all add: windows_def ew_size_def ev_size_def ew_hasLength_def ev_hasLength_def ew_increaseBegin_def
      ev_increaseBegin_def ew_setEnd_def ev_setEnd_def ew_setBegin_def ev_setBegin_def)

locale storage =
  fixes vt :: "('m, 'v, 'a) vector_type" and holds :: "'m \<Rightarrow> 'v \<Rightarrow> 'a list \<Rightarrow> bool" and zero :: 'a and room :: nat
  assumes size_law: "holds m v xs \<Longrightarrow> vt_size vt v = of_nat (length xs)"
    and length_law: "holds m v xs \<Longrightarrow> length xs < 2 ^ 64"
    and at_law: "holds m v xs \<Longrightarrow> i < length xs \<Longrightarrow> vt_at vt m v (of_nat i) = Some (xs ! i)"
    and put_law: "holds m v xs \<Longrightarrow> i < length xs \<Longrightarrow> \<exists>m'. vt_put vt (of_nat i) x v m = Some m' \<and> holds m' v (xs[i := x])"
    and expand_law: "holds m v xs \<Longrightarrow> length xs + n < room \<Longrightarrow>
      \<exists>m' v'. vt_expand vt (of_nat n) m v = Some (m', v') \<and> holds m' v' (xs @ replicate n zero)"
    and move_law: "holds m v xs \<Longrightarrow> vt_move vt v = (v1, v2) \<Longrightarrow> holds m v1 xs \<and> holds m v2 []"
begin

lemma window_of_vector:
  assumes "holds m v xs" and "ew_of_vector vt v = (w, v2)"
  shows "windows holds m w (ev_of_vector xs) \<and> holds m v2 []"
  using assms move_law [OF assms(1)] size_law by (auto simp: ew_of_vector_def windows_def ev_of_vector_def split: prod.splits)

lemma window_of_range:
  assumes "holds m v xs" and "ew_of_range vt v b e = (w, v2)"
  shows "windows holds m w (ev_of_range xs b e) \<and> holds m v2 []"
  using assms move_law [OF assms(1)] size_law by (auto simp: ew_of_range_def windows_def ev_of_range_def split: prod.splits)

lemma window_at:
  assumes "windows holds m w e" and "ev_at e i = Some x"
  shows "ew_at vt m w i = Some x"
  using assms at_law [of m "ew_mVector w" "ev_vector e" "unat (i + mIndexBegin e)"]
  by (auto simp: windows_def ew_at_def ew_getVector_def ev_at_def Let_def split: if_splits)

lemma window_ends:
  assumes "windows holds m w e"
  shows "ev_front e = Some x \<Longrightarrow> ew_front vt m w = Some x" and "ev_back e = Some x \<Longrightarrow> ew_back vt m w = Some x"
  using window_at [OF assms] assms by (simp_all add: ev_front_def ew_front_def ev_back_def ew_back_def windows_def)

lemma window_put:
  assumes "windows holds m w e" and "ev_put i x e = Some e'"
  shows "\<exists>m'. ew_put vt i x w m = Some m' \<and> windows holds m' w e'"
  using assms put_law [of m "ew_mVector w" "ev_vector e" "unat (i + mIndexBegin e)" x]
  by (auto simp: windows_def ew_put_def ew_getVector_def ev_put_def Let_def split: if_splits)

lemma window_put_all:
  assumes "windows holds m w e" and "ev_put_all i xs e = Some (j, e')"
  shows "\<exists>m'. ew_put_all vt i xs w m = Some (j, m') \<and> windows holds m' w e'"
  using assms
proof (induction xs arbitrary: i m e)
  case (Cons x xs)
  then obtain e1 where e1: "ev_put i x e = Some e1" "ev_put_all (i + 1) xs e1 = Some (j, e')" by (auto simp: bind_Some_iff)
  obtain m1 where "ew_put vt i x w m = Some m1" "windows holds m1 w e1" using window_put [OF Cons.prems(1) e1(1)] by blast
  then show ?case using Cons.IH [of m1 e1 "i + 1"] e1(2) by simp
qed simp

lemma window_insert:
  assumes "windows holds m w e" and "ev_insertVectorAtBegin xs e = Some e'"
  shows "\<exists>m' w'. ew_insertVectorAtBegin vt xs w m = Some (m', w') \<and> windows holds m' w' e'"
proof -
  obtain j e1 where "ev_put_all 0 xs e = Some (j, e1)" "e' = ev_increaseBegin j e1"
    using assms(2) by (auto simp: ev_insertVectorAtBegin_def bind_Some_iff)
  then show ?thesis using window_put_all [OF assms(1)] windows_simps(3) by (fastforce simp: ew_insertVectorAtBegin_def)
qed

lemma window_expand:
  assumes "windows holds m w e" and "length (ev_vector e) + n < room" and "n < 2 ^ 64"
  shows "\<exists>m' w'. ew_expand vt (of_nat n) w m = Some (m', w') \<and> windows holds m' w' (ev_expand zero (of_nat n) e)"
proof -
  have h: "holds m (ew_mVector w) (ev_vector e)" using assms(1) by (simp add: windows_def)
  obtain m1 v1 where x: "vt_expand vt (of_nat n) m (ew_mVector w) = Some (m1, v1)"
    "holds m1 v1 (ev_vector e @ replicate n zero)" using expand_law [OF h assms(2)] by blast
  have "unat (of_nat n :: size_t) = n" using assms(3) by (rule unat_of_nat_small)
  then show ?thesis using assms(1) h x size_law [OF h] windows_simps(1) [OF assms(1)]
    by (auto simp: ew_expand_def ev_expand_def windows_def ew_getVector_def Let_def)
qed

end

section \<open>The vector of Base\<close>

text \<open>A write through \<open>operator[]\<close> assigns to an element that is there.\<close>

definition vec_put :: "size_t \<Rightarrow> 'a \<Rightarrow> vector \<Rightarrow> 'a memory \<Rightarrow> 'a memory option" where
  "vec_put i x v m = do {
     _ \<leftarrow> slot_read m (mPointer v) (unat i);
     slot_put m (mPointer v) (unat i) (Live x)
   }"

definition base_vector :: "('a \<Rightarrow> 'a) \<Rightarrow> size_t \<Rightarrow> 'a \<Rightarrow> ('a memory, vector, 'a) vector_type" where
  "base_vector mv sizeofT zero =
     \<lparr>vt_size = vec_size, vt_at = vec_at, vt_put = vec_put,
      vt_expand = vec_expand mv sizeofT zero None, vt_move = vec_move_construct\<rparr>"

lemma vec_put_repr:
  assumes r: "vec_repr m v xs" and i: "i < length xs"
  shows "\<exists>m'. vec_put (of_nat i) x v m = Some m' \<and> vec_repr m' v (xs[i := x])"
proof -
  have u: "unat (of_nat i :: size_t) = i" using i vec_repr_length [OF r] by (simp add: unat_of_nat_small)
  have "xs \<noteq> []" using i by auto
  then obtain p rest where p: "mPointer v = Some p" "cells m p = Some (map Live xs @ rest)" using r by (auto simp: vec_repr_def)
  have "heap_ok m" using r by (simp add: vec_repr_def)
  then have "heap_ok (set_block m p (map Live (xs[i := x]) @ rest))" using p(2) by (intro heap_ok_set_block) auto
  then show ?thesis using r p i u
    by (auto simp: vec_put_def vec_repr_def nth_append list_update_append map_update)
qed

lemma fits_below:
  assumes "n < 2 ^ 64 div unat sizeofT"
  shows "alloc_fits sizeofT n"
proof -
  have pos: "0 < unat sizeofT" using assms by (cases "unat sizeofT = 0") auto
  have "Suc n * unat sizeofT \<le> (2 ^ 64 div unat sizeofT) * unat sizeofT" using assms by (intro mult_right_mono) auto
  also have "\<dots> \<le> 2 ^ 64" by (rule div_times_less_eq_dividend)
  finally show ?thesis using pos by (simp add: alloc_fits_def)
qed

interpretation bv: storage "base_vector mv sizeofT zero" vec_repr zero "2 ^ 64 div unat sizeofT"
proof (unfold_locales, goal_cases)
  case (1 m v xs)
  then show ?case by (simp add: base_vector_def vec_size_def vec_repr_size)
next
  case (2 m v xs)
  then show ?case by (rule vec_repr_length)
next
  case (3 m v xs i)
  then show ?case by (simp add: base_vector_def vec_at_repr)
next
  case (4 m v xs i x)
  then show ?case by (simp add: base_vector_def vec_put_repr)
next
  case (5 m v xs n)
  have "mSize v + of_nat n = of_nat (length xs + n)" using vec_repr_size [OF 5(1)] by simp
  moreover have "co_array zero None (length xs + n - length xs) = replicate n zero" by (simp add: co_array_def)
  ultimately show ?case using vec_resize_repr [OF 5(1) fits_below [OF 5(2)], of mv zero None]
    by (simp add: base_vector_def vec_expand_def)
next
  case (6 m v xs v1 v2)
  then have "heap_ok m" by (simp add: vec_repr_def)
  then show ?case using 6 by (auto simp: base_vector_def vec_move_construct_def vec_repr_def vec_empty_def)
qed

section \<open>Reading from a window of bytes\<close>

text \<open>A vector of bytes, and the reader's view of a window over one.\<close>

definition byte_vector :: "(byte memory, vector, byte) vector_type" where
  "byte_vector = base_vector id 1 0"

definition ew_contents :: "'a memory \<Rightarrow> vector window \<Rightarrow> 'a ext_vector" where
  "ew_contents m w =
     \<lparr>ev_vector = the (vec_elements m (ew_mVector w)), mIndexBegin = ew_mIndexBegin w, mIndexEnd = ew_mIndexEnd w\<rparr>"

definition ew_ok :: "'a memory \<times> vector window \<Rightarrow> bool" where
  "ew_ok s \<longleftrightarrow> windows vec_repr (fst s) (snd s) (ew_contents (fst s) (snd s)) \<and> ev_ok (ew_contents (fst s) (snd s))"

definition ew_view :: "'a memory \<times> vector window \<Rightarrow> 'a list" where
  "ew_view s = ev_view (ew_contents (fst s) (snd s))"

definition ew_reader :: "byte memory \<times> vector window \<Rightarrow> size_t \<Rightarrow> byte option" where
  "ew_reader s = ew_at byte_vector (fst s) (snd s)"

definition ew_advance :: "size_t \<Rightarrow> 'a memory \<times> vector window \<Rightarrow> ('a memory \<times> vector window) option" where
  "ew_advance n s = Some (fst s, ew_increaseBegin n (snd s))"

definition ew_has :: "'a memory \<times> vector window \<Rightarrow> size_t \<Rightarrow> bool" where
  "ew_has s n \<longleftrightarrow> ew_hasLength (snd s) n"

lemma windows_contents: "windows vec_repr m w e \<Longrightarrow> ew_contents m w = e"
  by (cases e) (simp add: windows_def ew_contents_def vec_elements_run)

lemma contents_advance: "ew_contents m (ew_increaseBegin n w) = ev_increaseBegin n (ew_contents m w)"
  by (simp add: ew_contents_def ew_increaseBegin_def ev_increaseBegin_def)

lemma contents_has: "ew_hasLength w n \<longleftrightarrow> ev_hasLength (ew_contents m w) n"
  by (simp add: ew_contents_def ew_hasLength_def ev_hasLength_def ew_size_def ev_size_def)

interpretation wb: byte_source ew_ok ew_view ew_reader ew_advance ew_has 0
proof (unfold_locales, goal_cases)
  case (1 s i)
  then show ?case unfolding ew_ok_def ew_view_def ew_reader_def byte_vector_def
    by (intro bv.window_at [OF _ ev_at_view]) auto
next
  case (2 s n)
  then show ?case
    using ev_increaseBegin_view [of "ew_contents (fst s) (snd s)" n] windows_simps(3) [of vec_repr "fst s" "snd s"]
    by (auto simp: ew_ok_def ew_view_def ew_advance_def contents_advance)
next
  case (3 s n)
  then show ?case
    using ev_hasLength_view [of "ew_contents (fst s) (snd s)" n]
    by (simp add: ew_ok_def ew_view_def ew_has_def contents_has [of "snd s" _ "fst s"])
qed

interpretation wble16: field_source ew_ok ew_view ew_reader ew_advance ew_has 0 le_write16 le_read16 2 ..
interpretation wble32: field_source ew_ok ew_view ew_reader ew_advance ew_has 0 le_write32 le_read32 4 ..
interpretation wble64: field_source ew_ok ew_view ew_reader ew_advance ew_has 0 le_write64 le_read64 8 ..

lemma ew_ok_windows: "windows vec_repr m w e \<Longrightarrow> ev_ok e \<Longrightarrow> ew_ok (m, w) \<and> ew_view (m, w) = ev_view e"
  using windows_contents [of m w e] by (simp add: ew_ok_def ew_view_def)

section \<open>Properties\<close>


text \<open>The identifier 7 in a vector of eight bytes.\<close>

definition id_bytes :: "byte list" where
  "id_bytes = [7, 0, 0, 0, 0, 0, 0, 0]"

definition id_memory :: "byte memory" where
  "id_memory = \<lparr>cells = [0 \<mapsto> map Live id_bytes], brk = 1\<rparr>"

definition id_window :: "vector window" where
  "id_window = \<lparr>ew_mVector = \<lparr>mPointer = Some 0, mSize = 8\<rparr>, ew_mIndexBegin = 0, ew_mIndexEnd = 8\<rparr>"

lemma id_window_holds: "windows vec_repr id_memory id_window (ev_of_vector id_bytes)"
  by (auto simp: windows_def vec_repr_def heap_ok_def id_memory_def id_window_def id_bytes_def ev_of_vector_def split: if_splits)


end
