(* ===== verification/UnitTests.thy ===== *)
theory UnitTests
  imports KeyIterators Variants Tuples CppObjects ListObjects
begin

text \<open>
  The unit tests of Base/Tests, run on the models of the classes they test. A test gives its assertions in order, each
  with its line and what its condition evaluates to: \<open>None\<close> when the condition is undefined. An assertion only logs,
  so the test goes on; the whole test is undefined when one of its statements is.
\<close>

section \<open>Reports\<close>

text \<open>The lines of the assertions that fail, and of the first one that is undefined.\<close>

fun report :: "(nat \<times> bool option) list \<Rightarrow> nat list \<times> nat option" where
  "report [] = ([], None)"
| "report ((line, None) # rest) = ([], Some line)"
| "report ((line, Some b) # rest) = (let (failed, undefined_line) = report rest
     in (if b then failed else line # failed, undefined_line))"

section \<open>HashTableTest\<close>

definition SameHash :: "size_t \<Rightarrow> 'k \<Rightarrow> size_t" where
  "SameHash hash key = hash"

text \<open>\<open>table\<close> and \<open>sameHashTable\<close>, each with the heap of its entries; at the end their lists are destroyed.\<close>

definition test_find :: "('k, 't) ht_heap \<Rightarrow> ptr \<Rightarrow> (('k, 't) pair_node \<Rightarrow> bool) \<Rightarrow> bool option" where
  "test_find h it condition = map_option condition (it_deref h it)"

definition hash_table_test :: "(nat \<times> bool option) list option" where
  "hash_table_test = do {
     let H = (trivial_hash_unsigned :: 32 word \<Rightarrow> size_t);
     let E = IsEqual (\<lambda>a b. a \<noteq> b);
     let t0 = ht_construct_default;
     let h0 = (empty_heap :: (32 word, 64 word) ht_heap);
     let a1 = [(21, Some (ht_isEmpty t0))];
     (r1, h1, t1) \<leftarrow> ht_insert H E 1 0xff h0 t0;
     let a2 = [(26, Some (fst r1)), (28, test_find h1 (snd r1) (\<lambda>n. pt_first n = 1)),
               (29, test_find h1 (snd r1) (\<lambda>n. pt_second n = 0xff)),
               (33, Some (\<not> ht_isEmpty t1)), (34, ht_isExist H E 1 h1 t1), (35, Some (ht_size t1 = 1))];
     (r2, h2, t2) \<leftarrow> ht_insert H E 1 2 h1 t1;
     let a3 = [(41, Some (fst r2 = False))];
     (r3, h3, t3) \<leftarrow> ht_insert H E 2 0xff h2 t2;
     let a4 = [(47, Some (fst r3)), (49, test_find h3 (snd r3) (\<lambda>n. pt_first n = 2)),
               (50, test_find h3 (snd r3) (\<lambda>n. pt_second n = 0xff)),
               (53, map_option (\<lambda>c. c \<noteq> 0) (ht_count H E 2 h3 t3)), (54, Some (ht_size t3 = 2))];
     (it4, h4, t4) \<leftarrow> ht_insertOrAssign H E 2 0xfeed h3 t3;
     let a5 = [(60, Some (it4 \<noteq> ht_end t4)), (61, test_find h4 it4 (\<lambda>n. pt_first n = 2)),
               (62, test_find h4 it4 (\<lambda>n. pt_second n = 0xfeed))];
     (it5, h5, t5) \<leftarrow> ht_erase (ht_begin t4) h4 t4;
     let a6 = [(69, Some (it5 = ht_begin t5)), (70, Some (ht_size t5 = 1))];
     (h6, t6) \<leftarrow> ht_erase_range (ht_begin t5) (ht_end t5) h5 t5;
     let a7 = [(76, Some (ht_isEmpty t6))];
     (r7, h7, t7) \<leftarrow> ht_insert (SameHash 1) E 2 3 (empty_heap :: (32 word, 64 word) ht_heap) ht_construct_default;
     (it8, h8, t8) \<leftarrow> ht_insertOrAssign (SameHash 1) E 3 4 h7 t7;
     let a8 = [(90, Some (fst r7)), (91, Some (it8 \<noteq> ht_end t8)), (92, test_find h8 it8 (\<lambda>n. pt_second n = 4)),
               (93, test_find h8 (snd r7) (\<lambda>n. pt_second n = 3))];
     _ \<leftarrow> ll_destroy h8 (mKeysList t8);
     _ \<leftarrow> ll_destroy h6 (mKeysList t6);
     Some (a1 @ a2 @ a3 @ a4 @ a5 @ a6 @ a7 @ a8)
   }"

section \<open>LinkedListTest\<close>

text \<open>The loops: filling the list, and comparing its elements with a counter.\<close>

fun test_fill :: "32 word list \<Rightarrow> 32 word dll_heap \<Rightarrow> linked_list \<Rightarrow> (32 word dll_heap \<times> linked_list) option" where
  "test_fill [] h l = Some (h, l)"
| "test_fill (i # is') h l = do {
     (_, h1, l1) \<leftarrow> ll_emplace_back i h l;
     test_fill is' h1 l1
   }"

partial_function (option) test_elements ::
  "32 word dll_heap \<Rightarrow> nat \<Rightarrow> ptr \<Rightarrow> 32 word \<Rightarrow> (nat \<times> bool option) list option" where
  "test_elements h line it i =
     (if it = ll_cend then Some []
      else do {
        n \<leftarrow> it_deref h it;
        it1 \<leftarrow> it_next h it;
        rest \<leftarrow> test_elements h line it1 (i + 1);
        Some ((line, Some (i = n)) # rest)
      })"

definition linked_list_test :: "nat \<Rightarrow> (nat \<times> bool option) list option" where
  "linked_list_test N = do {
     (h1, l1) \<leftarrow> test_fill (map of_nat [1..<N]) empty_heap ll_empty;
     (_, h2, l2) \<leftarrow> ll_emplace_front 0 h1 l1;
     a1 \<leftarrow> test_elements h2 49 (ll_cbegin l2) 0;
     (h3, other) \<leftarrow> ll_assign False h2 ll_empty l2;
     let a2 = [(57, Some (ll_size l2 = of_nat N)), (58, Some (ll_size other = of_nat N)),
               (61, map_option (\<lambda>it. ll_cend = it) (next_iterator (it_next h3) (it_previous h3) (ll_beforeEnd l2) 1))];
     (_, h4, l4) \<leftarrow> ll_erase (ll_cbegin l2) h3 l2;
     (_, h5, l5) \<leftarrow> ll_erase (ll_beforeEnd l4) h4 l4;
     stop \<leftarrow> next_iterator (it_next h5) (it_previous h5) (ll_cbegin other) 1;
     (h6, l6) \<leftarrow> ll_insert (ll_cbegin l5) (ll_cbegin other) stop h5 l5;
     (h7, l7) \<leftarrow> ll_insert ll_cend (ll_beforeEnd other) ll_cend h6 l6;
     a3 \<leftarrow> test_elements h7 74 (ll_cbegin l7) 0;
     a4 \<leftarrow> test_elements h7 84 (ll_cbegin other) 0;
     h8 \<leftarrow> ll_destroy h7 other;
     _ \<leftarrow> ll_destroy h8 l7;
     Some (a1 @ a2 @ a3 @ a4)
   }"

section \<open>OptionalTest and ExpectedTest\<close>

definition optional_test :: "(nat \<times> bool option) list option" where
  "optional_test = do {
     let integer = (op_new :: 32 word optional);
     let a1 = [(10, Some (\<not> op_isValid integer)), (11, Some (\<not> op_isValid integer))];
     integer1 \<leftarrow> op_construct 1 integer;
     Some (a1 @ [(15, Some (op_isValid integer1)), (16, Some (op_isValid integer1)),
                 (17, map_option (\<lambda>n. n = 1) (op_get integer1))])
   }"

datatype test_error = FirstError | SecondError

definition expected_test :: "(nat \<times> bool option) list option" where
  "expected_test = do {
     wrapper \<leftarrow> Error [\<lparr>ag_type = ObjectType ''Error'' False, ag_lvalue = False, ag_value = FirstError\<rparr>];
     (error :: (32 word, test_error) expected) \<leftarrow> ex_of_wrapper hd wrapper;
     let value0 = (ex_value 123 :: (32 word, test_error) expected);
     let a1 = [(17, map_option (\<lambda>n. n = 123) (ex_get value0)), (18, Some (ex_isError error)),
               (19, map_option (\<lambda>e. e = FirstError) (ex_getError error)), (20, Some (ex_bool value0)),
               (21, Some (\<not> ex_bool error))];
     let (newError, _) = ex_move_construct error;
     let a2 = [(24, Some (ex_isError newError)), (25, map_option (\<lambda>e. e = FirstError) (ex_getError newError))];
     let (newValue, value1) = ex_move_construct value0;
     Some (a1 @ a2 @ [(28, Some (\<not> \<not> ex_bool newValue)), (29, map_option (\<lambda>n. n = 123) (ex_get value1))])
   }"

section \<open>Running the tests\<close>

declare test_elements.simps [code] ll_insertAfter_loop.simps [code] ll_erase_loop.simps [code]
declare advance_forth.simps [code] advance_back.simps [code]

lemma run_linked_list_test: "map_option report (linked_list_test 20) = Some ([], None)"
  by code_simp

lemma run_optional_test: "map_option report optional_test = Some ([], None)"
  by code_simp

lemma run_expected_test: "map_option report expected_test = Some ([24], Some 25)"
  by code_simp

text \<open>A table has 0xfffff slots, so the table's test is run by rewriting, with the slots left symbolic.\<close>

lemma bind_weak_cong: "m = m' \<Longrightarrow> Option.bind m f = Option.bind m' f"
  by simp

lemma nth_slots: "i < 1048575 \<Longrightarrow> replicate 1048575 x ! i = x"
  by (rule nth_replicate)

lemma run_hash_table_test: "map_option report hash_table_test = Some ([], None)"
  unfolding hash_table_test_def
  by (simp add: Let_def ht_construct_default_def ht_construct_def ht_insert_def ht_getTableIterator_def
    kVectorInitialSize_def ht_isEmpty_def ht_size_def ll_empty_def table_at_def table_set_def trivial_hash_unsigned_def
    ll_cend_def ll_emplace_before_def ll_emplace_after_def new_def empty_heap_def load_def modify_def modify_if_def
    it_deref_def it_next_def it_previous_def it_assign_def test_find_def ht_isExist_def ht_count_def ht_find_def
    ht_getTableEntry_def ht_lookupKeyInKeyList_def ht_lookup_loop.simps IsEqual_def ht_insertOrAssign_def ht_end_def
    ht_begin_def ht_erase_def ll_erase_def free_def ht_updateEraseFirst_def ht_erase_range_def ht_erase_scan.simps
    ll_erase_range_def ll_erase_loop.simps ll_destroy_def ll_clear_def ll_isEmpty_def SameHash_def nth_slots nth_list_update
    cong: if_weak_cong option.case_cong_weak bind_weak_cong)

section \<open>Properties\<close>


end
