(* ===== verification/GlobalStreams.thy ===== *)
theory GlobalStreams
  imports KernelSockets Messages
begin

text \<open>
  Core/Protocol/MessageStream.cpp: \<open>CreateGlobalUDPConnection\<close>, the stream to all machines of a network, over
  Network/UdpStream.cpp, Base/Socket.cpp and the sockets of Linux.
\<close>

section \<open>The global stream\<close>

text \<open>The arguments are those of \<open>us_CreateBroadcast\<close>; the new \<open>UdpStream\<close> is moved to the heap unchanged.\<close>

definition ms_CreateGlobalUDPConnection ::
  "('h, 'a, 'k) socket_os \<Rightarrow> ('h option \<Rightarrow> nat \<Rightarrow> nat \<Rightarrow> byte list \<Rightarrow> 'k \<Rightarrow> zq_error \<times> 'k) \<Rightarrow> (nat \<Rightarrow> byte list)
     \<Rightarrow> size_t \<Rightarrow> 'a \<times> port \<Rightarrow> 'a \<Rightarrow> port \<Rightarrow> 'k \<Rightarrow> (unit + ('h, 'a) udp_stream) \<times> 'k" where
  "ms_CreateGlobalUDPConnection api setOption int_bytes sizeof_in6 unset broadcastAddress p k =
     (case us_CreateBroadcast api setOption int_bytes sizeof_in6 unset broadcastAddress p k of
        (Inl _, k1) \<Rightarrow> (Inl (), k1)
      | (Inr st, k1) \<Rightarrow> (Inr st, k1))"

lemma ms_CreateGlobalUDPConnection_run:
  "ms_CreateGlobalUDPConnection api setOption int_bytes sizeof_in6 unset address p k =
     (case ms_CreateUDPConnection api sizeof_in6 unset address p k of
        (Inl e, k1) \<Rightarrow> (Inl e, k1)
      | (Inr st, k1) \<Rightarrow> (Inr st, snd (setOption (us_socket st) 1 6 (int_bytes 1) k1)))"
  by (simp add: ms_CreateGlobalUDPConnection_def ms_CreateUDPConnection_def us_CreateBroadcast_def us_setBroadcast_def
      so_setSocketOption_def split: prod.splits sum.splits)

section \<open>Properties\<close>


text \<open>
  A kernel whose state is the number of sockets and the set of those with the flag; address 255 is a broadcast address.
\<close>

definition sample_network :: "(nat, nat, nat \<times> nat set) kernel_net" where
  "sample_network =
     \<lparr>kn_sock_create = (\<lambda>_ _ _ k. ((0, fst k), (Suc (fst k), snd k - {fst k}))), kn_sock_release = (\<lambda>_ k. k), kn_listen = (\<lambda>_ _ k. (0, k)),
      kn_bind = (\<lambda>_ _ k. (0, k)),
      kn_connect = (\<lambda>s a k. (if sin_addr a = 255 \<and> (\<forall>h. s = Some h \<longrightarrow> h \<notin> snd k) then - 13 else 0, k)),
      kn_ioctl_inq = (\<lambda>_ k. ((0, 0), k)), kn_BUG = (\<lambda>k. k), kn_vmalloc = (\<lambda>_ k. (True, k)),
      kn_sendmsg = (\<lambda>_ bs _ k. (of_nat (length bs), k)), kn_recvmsg = (\<lambda>_ n k. ((0, [], sa_CreateIn6 28 0 0), k)),
      kn_setsockopt = (\<lambda>s _ _ _ k. (0, (fst k, (case s of None \<Rightarrow> snd k | Some h \<Rightarrow> insert h (snd k))))),
      kn_accept = (\<lambda>_ k. ((- 11, 0), k)), kn_getsockname = (\<lambda>_ k. (sa_CreateIn6 28 0 0, k))\<rparr>"


end
