(* ===== verification/PointerObjects.thy ===== *)
theory PointerObjects
  imports Pointers ScopedContainers
begin

text \<open>
  Base/UniquePointer.hpp, SharedPointer.hpp and Memory.hpp, the members that \<open>Pointers\<close> leaves out: the deleters, the
  container that hands a raw pointer over, the conversions between pointer types, the assignments without a result,
  and the pointers to arrays. An array is its list of elements, on a heap of arrays.
\<close>

section \<open>Deleters\<close>

definition DefaultDeleter :: "ptr \<Rightarrow> 'a heap \<Rightarrow> 'a heap option" where
  "DefaultDeleter pointer h = (if pointer = nullptr then Some h else free h pointer)"

definition DefaultDeleter_array :: "ptr \<Rightarrow> 'a list heap \<Rightarrow> 'a list heap option" where
  "DefaultDeleter_array pointer h = (if pointer = nullptr then Some h else free h pointer)"

definition NoDeleter :: "ptr \<Rightarrow> 'a heap \<Rightarrow> 'a heap option" where
  "NoDeleter pointer h = Some h"

section \<open>UniquePointer\<close>

record take_container =
  tk_ptr :: ptr

definition TakeUniquePointer :: "ptr \<Rightarrow> take_container" where
  "TakeUniquePointer pointer = \<lparr>tk_ptr = pointer\<rparr>"

definition up_of_container :: "take_container \<Rightarrow> ptr" where
  "up_of_container pointer = tk_ptr pointer"

definition up_of :: "ptr \<Rightarrow> ptr" where
  "up_of pointer = pointer"

text \<open>From a unique pointer of another type: the new pointer and the source.\<close>

definition up_convert_construct :: "ptr \<Rightarrow> ptr \<times> ptr" where
  "up_convert_construct other = (other, nullptr)"

text \<open>
  The assignments from a unique pointer of another type and from a raw pointer end without the \<open>return\<close> that their
  result type asks for, so every call of them is undefined.
\<close>

definition up_convert_assign :: "'a heap \<Rightarrow> ptr \<Rightarrow> ptr \<Rightarrow> ('a heap \<times> ptr \<times> ptr) option" where
  "up_convert_assign h u other = do {
     (h1, u1) \<leftarrow> up_reset other h u;
     let other1 = nullptr;
     None
   }"

definition up_assign_pointer :: "ptr \<Rightarrow> 'a heap \<Rightarrow> ptr \<Rightarrow> ('a heap \<times> ptr) option" where
  "up_assign_pointer pointer h u = do {
     (h1, u1) \<leftarrow> up_reset pointer h u;
     None
   }"

definition up_equal :: "ptr \<Rightarrow> ptr \<Rightarrow> bool" where
  "up_equal u other \<longleftrightarrow> u = other"

text \<open>Any deleter: \<open>reset\<close> and the destructor, in the general form.\<close>

definition up_reset_with :: "(ptr \<Rightarrow> 'h \<Rightarrow> 'h option) \<Rightarrow> ptr \<Rightarrow> 'h \<Rightarrow> ptr \<Rightarrow> ('h \<times> ptr) option" where
  "up_reset_with deleter pointer h u = do {
     h1 \<leftarrow> (if up_bool u then deleter u h else Some h);
     Some (h1, pointer)
   }"

definition up_destroy_with :: "(ptr \<Rightarrow> 'h \<Rightarrow> 'h option) \<Rightarrow> 'h \<Rightarrow> ptr \<Rightarrow> ('h \<times> ptr) option" where
  "up_destroy_with deleter h u = up_reset_with deleter nullptr h u"

text \<open>The elements of an array, read and written through \<open>operator []\<close>.\<close>

definition array_at :: "'a list heap \<Rightarrow> ptr \<Rightarrow> size_t \<Rightarrow> 'a option" where
  "array_at h p index = do {
     xs \<leftarrow> load h p;
     (if unat index < length xs then Some (xs ! unat index) else None)
   }"

definition array_put :: "size_t \<Rightarrow> 'a \<Rightarrow> ptr \<Rightarrow> 'a list heap \<Rightarrow> 'a list heap option" where
  "array_put index v p h = do {
     xs \<leftarrow> load h p;
     (if unat index < length xs then modify h p (\<lambda>xs. xs[unat index := v]) else None)
   }"

definition up_array_of :: "ptr \<Rightarrow> ptr" where
  "up_array_of pointer = up_of pointer"

definition up_array_at :: "'a list heap \<Rightarrow> ptr \<Rightarrow> size_t \<Rightarrow> 'a option" where
  "up_array_at h u index = array_at h u index"

definition up_array_put :: "size_t \<Rightarrow> 'a \<Rightarrow> ptr \<Rightarrow> 'a list heap \<Rightarrow> 'a list heap option" where
  "up_array_put index v u h = array_put index v u h"

section \<open>SharedPointer\<close>

definition sp_convert_construct :: "'a sp_heap \<Rightarrow> shared_pointer \<Rightarrow> ('a sp_heap \<times> shared_pointer) option" where
  "sp_convert_construct h other =
     sp_increaseCount h \<lparr>sp_mPointer = sp_mPointer other, sp_mReference = sp_mReference other\<rparr>"

definition sp_equal :: "shared_pointer \<Rightarrow> shared_pointer \<Rightarrow> bool" where
  "sp_equal s other \<longleftrightarrow> sp_mPointer s = sp_mPointer other"

definition sp_reference :: "'a sp_heap \<Rightarrow> shared_pointer \<Rightarrow> 'a option" where
  "sp_reference h s = sp_deref h s"

definition sp_array_of :: "ptr \<Rightarrow> shared_pointer" where
  "sp_array_of pointer = sp_of pointer"

definition sp_array_at :: "'a list sp_heap \<Rightarrow> shared_pointer \<Rightarrow> size_t \<Rightarrow> 'a option" where
  "sp_array_at h s index = array_at (objects h) (sp_mPointer s) index"

definition sp_array_put :: "size_t \<Rightarrow> 'a \<Rightarrow> shared_pointer \<Rightarrow> 'a list sp_heap \<Rightarrow> 'a list sp_heap option" where
  "sp_array_put index v s h = map_option (\<lambda>os. h\<lparr>objects := os\<rparr>) (array_put index v (sp_mPointer s) (objects h))"

text \<open>The weak container of a block: the block it refers to; the non-constant member returns a copy of it.\<close>

definition wc_get :: "ptr \<Rightarrow> ref_block heap \<Rightarrow> ref_block option" where
  "wc_get reference h = load h reference"

section \<open>Owning an array\<close>

text \<open>With the default deleter the general form is that of \<open>Pointers\<close>.\<close>

lemma up_default_deleter:
  "up_reset_with DefaultDeleter pointer h u = up_reset pointer h u" "up_destroy_with DefaultDeleter h u = up_destroy h u"
  by (simp_all add: up_reset_with_def up_destroy_with_def up_destroy_def up_reset_def up_bool_def DefaultDeleter_def)

lemma up_array_owner:
  "up_reset_with DefaultDeleter_array pointer h u = up_reset pointer h u"
  by (simp add: up_reset_with_def up_reset_def up_bool_def DefaultDeleter_array_def)

lemma no_deleter: "up_destroy_with NoDeleter h u = Some (h, nullptr)"
  by (simp add: up_destroy_with_def up_reset_with_def NoDeleter_def)

lemma assignments_undefined: "up_convert_assign h u other = None" "up_assign_pointer pointer h u = None"
  by (simp_all add: up_convert_assign_def up_assign_pointer_def Let_def bind_eq_None_conv split_beta)

text \<open>What is written to an element is read back, and the other elements stay.\<close>

lemma array_put_at:
  assumes "cells h a = Some xs" and "unat i < length xs"
  shows "\<exists>h'. array_put i v (Some a) h = Some h' \<and> cells h' = (cells h)(a \<mapsto> xs[unat i := v])
           \<and> (\<forall>j. array_at h' (Some a) j = (if j = i then Some v else array_at h (Some a) j))"
  using assms by (auto simp: array_put_def array_at_def modify_Some nth_list_update word_unat_eq_iff)

text \<open>
  A raw array that is taken over: the unique pointer reads and writes its elements and its destructor deletes it,
  once; the shared pointer does so, too, but its destructor dereferences the null reference block.
\<close>

lemma taken_array:
  assumes "cells h a = Some xs" and "unat i < length xs"
  shows "\<exists>h'. up_array_put i v (up_of_container (TakeUniquePointer (Some a))) h = Some h' \<and> up_array_at h' (Some a) i = Some v
           \<and> map_option (cells \<circ> fst) (up_destroy_with DefaultDeleter_array h' (up_array_of (Some a))) = Some ((cells h)(a := None))"
    and "\<exists>h'. sp_array_put i v (sp_array_of (Some a)) \<lparr>objects = h, blocks = b\<rparr> = Some h'
           \<and> sp_array_at h' (sp_array_of (Some a)) i = Some v \<and> sp_destroy h' (sp_array_of (Some a)) = None"
proof -
  obtain h' where h': "array_put i v (Some a) h = Some h'" "cells h' = (cells h)(a \<mapsto> xs[unat i := v])"
    "array_at h' (Some a) i = Some v" using array_put_at [OF assms] by fastforce
  show "\<exists>h'. up_array_put i v (up_of_container (TakeUniquePointer (Some a))) h = Some h' \<and> up_array_at h' (Some a) i = Some v
      \<and> map_option (cells \<circ> fst) (up_destroy_with DefaultDeleter_array h' (up_array_of (Some a))) = Some ((cells h)(a := None))"
    using h' by (simp add: up_array_put_def up_of_container_def TakeUniquePointer_def up_array_at_def up_destroy_with_def
        up_array_owner up_reset_def free_Some up_array_of_def up_of_def)
  show "\<exists>h'. sp_array_put i v (sp_array_of (Some a)) \<lparr>objects = h, blocks = b\<rparr> = Some h'
      \<and> sp_array_at h' (sp_array_of (Some a)) i = Some v \<and> sp_destroy h' (sp_array_of (Some a)) = None"
    using h' by (simp add: sp_array_put_def sp_array_of_def sp_of_def sp_array_at_def sp_destroy_def
        sp_decreaseCountAndDeleteReference_def sp_decreaseCount_def sp_deleteObject_def)
qed

end
