(* ===== verification/Spec2Isabelle.thy ===== *)
theory Spec2Isabelle
  imports LinkedLists HashTables Vectors ExtendedVectors FieldCodecs Variants Streams Sockets NetworkStreams
    Messages PeersServer BinaryTrees Pointers Locks Clients KernelMemory MultiHashTables KernelSockets
    ScopedContainers UsbDevices IteratorTools KernelLocks SystemCalls Tuples PeersLocked KeyIterators
    ProcessThreads Callbacks RawPointers Drivers EndToEnd CppObjects PosixLayer LockObjects TreeIterators
    ListObjects LocalThreads WindowStorage UnitTests GlobalStreams
    PointerObjects
begin

text \<open>
  A model of Ziqe, a C++ library that runs the threads of a process on several machines: its own
  container library (src/Base), the network layer (src/Network) and the protocol between the peers of
  a process (src/Core).

  \<^bold>\<open>How the program is put together.\<close> A peer of a process keeps a table of the threads it knows and
  the connections to the machines they run on (Core/Common/ProcessPeersServer: \<open>OtherServers\<close>, a
  \<open>LinkedList\<close> of connections and a \<open>HashTable\<close> of iterators into it). It exchanges messages
  (Core/Protocol/Message) over a \<open>MessageStream\<close>, which puts a \<open>FieldWriter\<close> and a \<open>FieldReader\<close> on
  the output and input vectors of a stream (Network/Stream, with the UDP and TCP streams below it);
  these hold \<open>ExtendedVector\<close>s, windows over \<open>Vector\<close>s, and talk to the platform's sockets through
  Base/Socket. Errors travel in \<open>Expected\<close>, objects are owned by \<open>UniquePointer\<close> and \<open>SharedPointer\<close>.

  \<^bold>\<open>Theories and sources.\<close>
  \<^item> \<open>ZqPrelude\<close>: sizes as 64-bit words, pointers, heaps of objects, the option monad.
  \<^item> \<open>LinkedLists\<close> (Base/LinkedList.hpp): \<open>ll_\<close> operations over a heap of nodes; \<open>ll_repr h l es\<close> says
    that the list object \<open>l\<close> holds the entries \<open>es\<close> (address and value) with all links in order.
    The locale \<open>fifo\<close> states the queue contract, interpreted as \<open>ll\<close>.
  \<^item> \<open>HashTables\<close> (Base/HashTable.hpp): \<open>ht_\<close> operations; \<open>ht_inv\<close> is the invariant that ties the
    bucket vector to the runs of the key list; the locale \<open>finite_map\<close> states what its clients rely
    on, interpreted as \<open>ht\<close> for every hash function.
  \<^item> \<open>MultiHashTables\<close> (Base/HashTable.hpp): the table with repeated keys, over the same invariant
    without the distinctness of the keys (\<open>mt_inv\<close>).
  \<^item> \<open>Vectors\<close> (Base/Vector.hpp, Allocator.hpp, Constructor.hpp): buffers of slots that are raw or hold
    a constructed object, so that a missing or repeated construction or destruction is visible.
  \<^item> \<open>ExtendedVectors\<close> (Base/ExtendedVector.hpp): the window, with 64-bit begin and end indexes.
  \<^item> \<open>FieldCodecs\<close> (Base/FieldReader.hpp, FieldWriter.hpp): byte order. The locale \<open>codec\<close> is the
    contract of one integer type, \<open>byte_source\<close> that of a vector to read from, \<open>field_source\<close> their
    combination; they are interpreted on all value readers and writers and on \<open>ExtendedVector\<close>, and in
    \<open>Streams\<close> on the input streams.
  \<^item> \<open>Variants\<close> (Base/Expected.hpp, Optional.hpp, ConstructableStorage.hpp).
  \<^item> \<open>Pointers\<close> (Base/UniquePointer.hpp, SharedPointer.hpp).
  \<^item> \<open>ScopedContainers\<close> (Base/ScopedContainer.hpp): the container and the locale \<open>owner\<close>, the contract of a
    class that owns a resource, with every order of making, moving, assigning and destroying its objects
    as the step relation \<open>own_step\<close>; interpreted on \<open>UniquePointer\<close> (\<open>up\<close>), and in \<open>UsbDevices\<close> on
    the container of a driver's registration (\<open>drv\<close>).
  \<^item> \<open>UsbDevices\<close> (Platforms/Linux/OS/UsbDeviceManager, Platforms/GenericUsermode/OS): the USB managers.
  \<^item> \<open>IteratorTools\<close> (Base/IteratorTools.hpp): the locale \<open>bidirectional\<close> is the contract of an iterator,
    interpreted on the iterators of the list (\<open>lit\<close>) and of an array (\<open>ait\<close>).
  \<^item> \<open>KeyIterators\<close> (Base/HashTable.hpp, Vector.hpp): the key and data iterators of a table and the members
    of a vector that copy a range. The locale \<open>readable\<close> adds reading to \<open>bidirectional\<close>, \<open>mapped\<close> an
    action on what is read; they are interpreted on the entries of a table (\<open>lrd\<close>), its keys (\<open>keys\<close>)
    and its data (\<open>data\<close>), and in \<open>RawPointers\<close> on the iterators of an array (\<open>rar\<close>).
  \<^item> \<open>RawPointers\<close> (Base/RawPointer.hpp, DummyPointer.hpp, Array.hpp): pointers that own nothing, arrays with
    their length, and the loops over them in HashTable.hpp and ProcessPeersServer.hpp.
  \<^item> \<open>Callbacks\<close> (Base/Callback.hpp, FunctionTools.hpp): the callback as an owner of its object manager,
    interpreted as \<open>cb\<close> of the locale \<open>owner\<close>.
  \<^item> \<open>Tuples\<close> (Base/Tuple.hpp, ZQObject.hpp): tuples and the forwarding of constructor arguments.
  \<^item> \<open>BinaryTrees\<close> (Base/RedBlackTree.hpp): nodes, iterators, insertion at a found place, rotations.
  \<^item> \<open>Sockets\<close> (Base/Socket.hpp, Socket.cpp): over the record \<open>socket_os\<close> of the platform's functions.
  \<^item> \<open>Streams\<close> (Network/Stream.hpp, Stream.cpp): input and output vectors; the virtual functions of the
    subclasses are arguments.
  \<^item> \<open>NetworkStreams\<close> (Network/UdpMessage, UdpStream, TcpStream, TcpServer).
  \<^item> \<open>Messages\<close> (Core/Protocol/Message, MessageStream).
  \<^item> \<open>PeersServer\<close> (Core/Common/ProcessPeersServer): \<open>sv_\<close> operations over a list and a table of the
    model; \<open>sv_repr\<close> relates them to the connections and the map from threads to connections, and
    \<open>sv_counted\<close> is the invariant on the reference counts.
  \<^item> \<open>PeersLocked\<close> (the same files, with Core/Common/ProcessPeersClient.hpp): the threads of a process on
    the locked peers. \<open>ps_step\<close> splits the operations of \<open>PeersServer\<close> at every turn of a loop and
    interleaves them over the lock of \<open>Locks\<close>; \<open>ps_explained\<close> is the invariant that the finished
    operations, run one after the other, explain what is stored and what the others have seen.
  \<^item> \<open>ProcessThreads\<close> (the same files): a whole \<open>ProcessPeersServer\<close> with its local threads, whose
    identifiers its hello and goodbye carry in a vector, from its constructor to its destructor.
  \<^item> \<open>Clients\<close> (Core/Common/GlobalPeers, ProcessPeersClient, Core/Host/PeerLookupServer, ThreadClient):
    the loops that wait for messages, over the messages a client will send.
  \<^item> \<open>Locks\<close> (Base/RWLock.hpp, Mutex.hpp, SpinLock.hpp): lock objects, guards, and the threads that
    share an \<open>RWLocked\<close> value as a step relation; the platform's lock functions are a record.
  \<^item> \<open>KernelLocks\<close> (Platforms/Linux/CppCore/Mutex.c, SpinLock.c): the locks of Linux; the mutex is shown
    to be a platform of \<open>Locks\<close>. \<open>SystemCalls\<close> (SystemCalls.c): the hook on system calls.
  \<^item> \<open>KernelMemory\<close> (Platforms/Linux/CppCore/Memory.c, OS/Memory.hpp): mapping memory between a
    process and the kernel, over a record of the kernel's memory functions.
  \<^item> \<open>KernelSockets\<close> (Platforms/Linux/CppCore/Socket.c): the Linux implementation of \<open>socket_os\<close>, over a
    record of the kernel's network functions.
  \<^item> \<open>Drivers\<close> (Platforms/Common/OS, Platforms/Linux/PerDriver, Platforms/GenericUsermode, Platforms/Tests):
    the contexts and entry points of a driver, from its load to its unload, with the USB managers.
  \<^item> \<open>LockObjects\<close> (Base/SpinLock.hpp, Mutex.hpp, RWLock.hpp): the lock classes one by one, the spin lock as
    an owner of a lock of the platform (interpretation \<open>spin\<close> of \<open>owner\<close>).
  \<^item> \<open>CppObjects\<close> (Base/Macros.hpp, with the checks in Expected.hpp and ZQObject.hpp): comparisons; \<open>swap\<close>,
    proved once for every \<open>owner\<close>; the types behind \<open>move\<close> and \<open>forward\<close>.
  \<^item> \<open>TreeIterators\<close> (Base/RedBlackTree.hpp): accessors of nodes and iterators of the tree.
  \<^item> \<open>PosixLayer\<close> (Platforms/Posix): sockets, locks and the system call hook, compared with those of Linux.
  \<^item> \<open>EndToEnd\<close> (Core/Protocol/Message.hpp, Network/TcpStream, UdpServer): the messages by type, and a
    message from \<open>sendMessage\<close> through the kernels of Linux to \<open>receiveMessage\<close>; \<open>carries\<close> is what a
    connection is documented to do.
  \<^item> \<open>ListObjects\<close> (Base/LinkedList.hpp, IteratorTools.hpp): the end of a list and what it answers about
    itself. \<open>LocalThreads\<close> (Base/LocalThread, LocalProcess, SystemCalls.hpp): the threads of the machine.

  \<^item> \<open>WindowStorage\<close> (Base/ExtendedVector.hpp, Vector.hpp): the window over any vector type. The locale
    \<open>storage\<close> is what it relies on, interpreted on the vectors of Base (\<open>bv\<close>), so that the windows of the
    network code, which \<open>ExtendedVectors\<close> reads as lists, are windows over allocated buffers; \<open>wb\<close> is the
    \<open>byte_source\<close> they give the readers.
  \<^item> \<open>GlobalStreams\<close> (Core/Protocol/MessageStream.cpp): the stream to all machines, over the sockets of Linux.
  \<^item> \<open>PointerObjects\<close> (Base/UniquePointer.hpp, SharedPointer.hpp, Memory.hpp): deleters, conversions between
    pointers, and pointers to arrays.
  \<^item> \<open>UnitTests\<close> (Base/Tests): the repository's unit tests, run on the models, with the assertions that fail.

  \<^bold>\<open>What the lemmas show.\<close> For each container a representation predicate, that every operation keeps it
  and what it does to the abstract value (the list's, the map's, the window's, the tree's), on every
  branch; for the integer codecs and the message headers the round trips; for the streams that
  reading across packets gives the bytes in order and when waiting ends; for the peers that a hello and
  a goodbye keep the reference counts, and that their lock makes every interleaving of threads equal to
  running the operations one after the other. Where the code does not do what it is written for, the property
  states what it does instead: an operation that is undefined on an input has the value \<open>None\<close> there.

  \<^bold>\<open>Reading conventions.\<close> \<open>None\<close> stands for undefined behaviour (a null or dangling pointer, an index
  out of bounds, a read of an object that is not constructed) and for a loop that does not end. Loops
  whose end depends on the data are \<open>partial_function (option)\<close>, so that they end is proved as
  \<open>= Some\<close>; no fuel is used. Integers keep their width, so sizes and indexes wrap around.
  \<open>ZQ_ASSERT\<close> and \<open>DEBUG_CHECK\<close> log and go on, so they are no guards. \<open>return {error}\<close> in a function
  that returns \<open>Expected\<close> is read as building the error. Template arguments (hash function, equality,
  value reader, vector type) and virtual functions are arguments of the definitions. A move
  constructor or assignment returns the source's new state as well. The functions of the platform
  (sockets) are fields of a record, and what a theorem needs of them is a hypothesis of that theorem.

  \<^bold>\<open>What is not modelled.\<close> \<open>findNode\<close> of the tree, which mixes pointers and pointers to pointers;
  \<open>WeakPointer\<close>, \<open>SharedContainer\<close> and \<open>erase (key)\<close> of the multi-key table, which no C++ compiler can instantiate;
  the conversion \<open>operator T&\<close> of the pointer classes, which calls itself; the classes of Core
  whose bodies are empty or disabled (memory maps and revisions, thread states); the stream class of
  \<open>UdpServer\<close>, which defines functions it does not declare; \<open>sizeOfArgs\<close> and \<open>plusArgs\<close> of Macros.hpp, whose
  recursion has no base case that a call finds; logging; and the platform layers other than Linux and Posix,
  most of which are disabled or do not compile.

  The rest of the repository has no behaviour to model: declarations, configuration headers, empty bodies,
  code behind \<open>#if 0\<close>, the lists of system call names that a script generates and nothing includes, and the layers
  for IOKit and WDK, which use members, macros and types that are declared nowhere.
\<close>

end
